(* ===== verification/Prelude.thy ===== *)
theory Prelude
  imports Main "HOL-Library.Word"
begin

unbundle bit_operations_syntax

text \<open>
  Shared vocabulary of the development.

  \<^item> The integer types and the error codes of \<^verbatim>\<open>src/include/types.h\<close>.
  \<^item> Memory objects are byte lists; \<open>get_bytes\<close> and \<open>put_bytes\<close> are the reads and
    writes of a run of bytes at an offset, and the collection \<open>buffer_simps\<close> holds the facts
    about their interplay.
  \<^item> Programs with early returns are functions of the type \<open>('s, 'a) prog\<close>.  A program
    ends with a value, with a negative error code (the C convention
    \<^verbatim>\<open>if (result < 0) return result;\<close>), or with \<open>UB\<close>: an access outside of an object,
    a division by zero or another step the C language leaves undefined.  The function \<open>wp\<close>
    is the weakest precondition of a program; it excludes \<open>UB\<close>, so that a fact \<open>wp m Q E s\<close>
    also says that \<open>m\<close> runs without undefined behaviour from \<open>s\<close>.
\<close>

section \<open>Integers and error codes\<close>

type_synonym u8 = "8 word"
type_synonym u16 = "16 word"
type_synonym u32 = "32 word"
type_synonym u64 = "64 word"
type_synonym i32 = int
type_synonym bytes = "u8 list"

definition ERR_SUCCESS :: i32 where "ERR_SUCCESS = 0"
definition ERR_INVALID :: i32 where "ERR_INVALID = -1"
definition ERR_NOT_FOUND :: i32 where "ERR_NOT_FOUND = -2"
definition ERR_PERMISSION :: i32 where "ERR_PERMISSION = -3"
definition ERR_NO_MEMORY :: i32 where "ERR_NO_MEMORY = -4"
definition ERR_BUSY :: i32 where "ERR_BUSY = -5"
definition ERR_AGAIN :: i32 where "ERR_AGAIN = -6"

lemmas err_defs = ERR_SUCCESS_def ERR_INVALID_def ERR_NOT_FOUND_def ERR_PERMISSION_def
  ERR_NO_MEMORY_def ERR_BUSY_def ERR_AGAIN_def

text \<open>The conversion of an unsigned value to a 32 bit signed return value.\<close>

definition to_i32 :: "u64 \<Rightarrow> i32" where
  "to_i32 x = sint (ucast x :: 32 word)"

text \<open>
  \<^verbatim>\<open>ALIGN_UP(x, align)\<close> and \<^verbatim>\<open>ALIGN_DOWN(x, align)\<close> on 64 bit values.
\<close>

definition ALIGN_UP :: "u64 \<Rightarrow> u64 \<Rightarrow> u64" where
  "ALIGN_UP x align = (x + align - 1) AND NOT (align - 1)"

definition ALIGN_DOWN :: "u64 \<Rightarrow> u64 \<Rightarrow> u64" where
  "ALIGN_DOWN x align = x AND NOT (align - 1)"

section \<open>Byte buffers\<close>

named_theorems buffer_simps \<open>reads and writes of byte runs\<close>

definition get_bytes :: "bytes \<Rightarrow> nat \<Rightarrow> nat \<Rightarrow> bytes" where
  "get_bytes buf off n = take n (drop off buf)"

definition put_bytes :: "bytes \<Rightarrow> nat \<Rightarrow> bytes \<Rightarrow> bytes" where
  "put_bytes buf off xs = take off buf @ xs @ drop (off + length xs) buf"

lemma length_get_bytes [buffer_simps]:
  "off + n \<le> length buf \<Longrightarrow> length (get_bytes buf off n) = n"
  by (simp add: get_bytes_def)

lemma length_put_bytes [buffer_simps]:
  "off + length xs \<le> length buf \<Longrightarrow> length (put_bytes buf off xs) = length buf"
  by (simp add: put_bytes_def)

lemma get_put_same [buffer_simps]:
  "off + length xs \<le> length buf \<Longrightarrow> n = length xs \<Longrightarrow> get_bytes (put_bytes buf off xs) off n = xs"
  by (simp add: get_bytes_def put_bytes_def)

lemma nth_put_bytes:
  assumes "off + length xs \<le> length buf" "i < length buf"
  shows "put_bytes buf off xs ! i =
    (if off \<le> i \<and> i < off + length xs then xs ! (i - off) else buf ! i)"
  using assms by (auto simp: put_bytes_def nth_append min_def)

lemma nth_get_bytes:
  assumes "off + n \<le> length buf" "i < n"
  shows "get_bytes buf off n ! i = buf ! (off + i)"
  using assms by (simp add: get_bytes_def)

lemma get_put_other:
  assumes "off + length xs \<le> length buf" "off' + n \<le> length buf"
    and "off' + n \<le> off \<or> off + length xs \<le> off'"
  shows "get_bytes (put_bytes buf off xs) off' n = get_bytes buf off' n"
proof (rule nth_equalityI)
  show "length (get_bytes (put_bytes buf off xs) off' n) = length (get_bytes buf off' n)"
    using assms by (simp add: buffer_simps)
next
  fix i assume "i < length (get_bytes (put_bytes buf off xs) off' n)"
  then have "i < n" using assms by (simp add: buffer_simps)
  with assms show "get_bytes (put_bytes buf off xs) off' n ! i = get_bytes buf off' n ! i"
    by (auto simp: nth_get_bytes nth_put_bytes length_put_bytes)
qed

lemma get_put_inside:
  assumes "off + length xs \<le> length buf" "off \<le> a" "a + n \<le> off + length xs"
  shows "get_bytes (put_bytes buf off xs) a n = get_bytes xs (a - off) n"
proof (rule nth_equalityI)
  show "length (get_bytes (put_bytes buf off xs) a n) = length (get_bytes xs (a - off) n)"
    using assms by (simp add: buffer_simps)
next
  fix i assume "i < length (get_bytes (put_bytes buf off xs) a n)"
  then have "i < n" using assms by (simp add: buffer_simps)
  with assms show "get_bytes (put_bytes buf off xs) a n ! i = get_bytes xs (a - off) n ! i"
    by (simp add: nth_get_bytes nth_put_bytes length_put_bytes)
qed

lemma get_get_bytes:
  "b + m \<le> n \<Longrightarrow> get_bytes (get_bytes buf a n) b m = get_bytes buf (a + b) m"
  by (simp add: get_bytes_def drop_take add.commute min_def)

lemma put_get_id [buffer_simps]:
  "off + n \<le> length buf \<Longrightarrow> put_bytes buf off (get_bytes buf off n) = buf"
  by (simp add: put_bytes_def get_bytes_def add.commute flip: drop_drop)

lemma put_bytes_whole [buffer_simps]:
  "length xs = length buf \<Longrightarrow> put_bytes buf 0 xs = xs"
  by (simp add: put_bytes_def)

lemma get_bytes_whole [buffer_simps]:
  "n = length buf \<Longrightarrow> get_bytes buf 0 n = buf"
  by (simp add: get_bytes_def)

lemma put_put_same [buffer_simps]:
  "off + length xs \<le> length buf \<Longrightarrow> length ys = length xs \<Longrightarrow>
    put_bytes (put_bytes buf off xs) off ys = put_bytes buf off ys"
  by (simp add: put_bytes_def)

section \<open>Little-endian fields\<close>

definition le16 :: "u16 \<Rightarrow> bytes" where
  "le16 w = [ucast w, ucast (drop_bit 8 w)]"

definition le32 :: "u32 \<Rightarrow> bytes" where
  "le32 w = [ucast w, ucast (drop_bit 8 w), ucast (drop_bit 16 w), ucast (drop_bit 24 w)]"

definition of_le16 :: "bytes \<Rightarrow> u16" where
  "of_le16 b = ucast (b ! 0) OR push_bit 8 (ucast (b ! 1))"

definition of_le32 :: "bytes \<Rightarrow> u32" where
  "of_le32 b = ucast (b ! 0) OR push_bit 8 (ucast (b ! 1)) OR
     push_bit 16 (ucast (b ! 2)) OR push_bit 24 (ucast (b ! 3))"

text \<open>Consume one field from the front of a byte sequence, as the layout of a packed struct does.\<close>

definition take_u8 :: "bytes \<Rightarrow> u8 \<times> bytes" where
  "take_u8 b = (b ! 0, drop 1 b)"

definition take_u16 :: "bytes \<Rightarrow> u16 \<times> bytes" where
  "take_u16 b = (of_le16 b, drop 2 b)"

definition take_u32 :: "bytes \<Rightarrow> u32 \<times> bytes" where
  "take_u32 b = (of_le32 b, drop 4 b)"

definition take_raw :: "nat \<Rightarrow> bytes \<Rightarrow> bytes \<times> bytes" where
  "take_raw n b = (take n b, drop n b)"

fun take_u32s :: "nat \<Rightarrow> bytes \<Rightarrow> u32 list \<times> bytes" where
  "take_u32s 0 b = ([], b)"
| "take_u32s (Suc n) b =
     (let (w, r) = take_u32 b; (ws, r') = take_u32s n r in (w # ws, r'))"

lemma length_le16 [simp]: "length (le16 w) = 2"
  by (simp add: le16_def)

lemma length_le32 [simp]: "length (le32 w) = 4"
  by (simp add: le32_def)

lemma of_le16_le16: "of_le16 (le16 w @ r) = w"
  by (rule bit_word_eqI) (auto simp: of_le16_def le16_def bit_simps)

lemma of_le32_le32: "of_le32 (le32 w @ r) = w"
proof (rule bit_word_eqI)
  fix n assume "n < LENGTH(32)"
  then consider "n < 8" | "8 \<le> n \<and> n < 16" | "16 \<le> n \<and> n < 24" | "24 \<le> n \<and> n < 32"
    by force
  then show "bit (of_le32 (le32 w @ r)) n = bit w n"
    by cases (auto simp: of_le32_def le32_def bit_simps)
qed

lemma byte_bit_beyond: "bit (b :: u8) n \<Longrightarrow> n < 8"
  by (drule bit_imp_le_length) simp

lemma le16_of_le16: "le16 (of_le16 [a, b]) = [a, b]"
proof -
  have "ucast (of_le16 [a, b]) = a"
    by (rule bit_word_eqI) (auto simp: of_le16_def bit_simps)
  moreover have "ucast (drop_bit 8 (of_le16 [a, b])) = b"
    by (rule bit_word_eqI) (auto simp: of_le16_def bit_simps dest: byte_bit_beyond)
  ultimately show ?thesis by (simp add: le16_def)
qed

lemma le32_of_le32: "le32 (of_le32 [a, b, c, d]) = [a, b, c, d]"
proof -
  have "ucast (of_le32 [a, b, c, d]) = a"
    by (rule bit_word_eqI) (auto simp: of_le32_def bit_simps)
  moreover have "ucast (drop_bit 8 (of_le32 [a, b, c, d])) = b"
    by (rule bit_word_eqI) (auto simp: of_le32_def bit_simps dest: byte_bit_beyond)
  moreover have "ucast (drop_bit 16 (of_le32 [a, b, c, d])) = c"
    by (rule bit_word_eqI) (auto simp: of_le32_def bit_simps dest: byte_bit_beyond)
  moreover have "ucast (drop_bit 24 (of_le32 [a, b, c, d])) = d"
    by (rule bit_word_eqI) (auto simp: of_le32_def bit_simps dest: byte_bit_beyond)
  ultimately show ?thesis by (simp add: le32_def)
qed

named_theorems codec_simps \<open>decoding what an encoder produced\<close>

lemma take_u8_Cons [codec_simps]: "take_u8 (w # r) = (w, r)"
  by (simp add: take_u8_def)

lemma take_u16_le16 [codec_simps]: "take_u16 (le16 w @ r) = (w, r)"
  by (simp add: take_u16_def of_le16_le16)

lemma take_u32_le32 [codec_simps]: "take_u32 (le32 w @ r) = (w, r)"
  by (simp add: take_u32_def of_le32_le32)

lemma take_raw_append [codec_simps]: "length b = n \<Longrightarrow> take_raw n (b @ r) = (b, r)"
  by (simp add: take_raw_def)

lemma take_u32s_concat [codec_simps]:
  "length ws = n \<Longrightarrow> take_u32s n (concat (map le32 ws) @ r) = (ws, r)"
proof (induction ws arbitrary: n)
  case Nil
  then show ?case by simp
next
  case (Cons w ws)
  then show ?case by (cases n) (auto simp: codec_simps)
qed

lemma length_concat_le32 [simp]: "length (concat (map le32 ws)) = 4 * length ws"
  by (induction ws) auto

section \<open>Programs with early returns\<close>

datatype 'a outcome = Val 'a | Err i32 | UB

type_synonym ('s, 'a) prog = "'s \<Rightarrow> 'a outcome \<times> 's"

definition ret :: "'a \<Rightarrow> ('s, 'a) prog" where
  "ret x = (\<lambda>s. (Val x, s))"

definition throw :: "i32 \<Rightarrow> ('s, 'a) prog" where
  "throw e = (\<lambda>s. (Err e, s))"

definition bindP :: "('s, 'a) prog \<Rightarrow> ('a \<Rightarrow> ('s, 'b) prog) \<Rightarrow> ('s, 'b) prog" where
  "bindP m f = (\<lambda>s. case m s of
      (Val x, s') \<Rightarrow> f x s'
    | (Err e, s') \<Rightarrow> (Err e, s')
    | (UB, s') \<Rightarrow> (UB, s'))"

definition catch :: "('s, 'a) prog \<Rightarrow> (i32 \<Rightarrow> ('s, 'a) prog) \<Rightarrow> ('s, 'a) prog" where
  "catch m h = (\<lambda>s. case m s of
      (Val x, s') \<Rightarrow> (Val x, s')
    | (Err e, s') \<Rightarrow> h e s'
    | (UB, s') \<Rightarrow> (UB, s'))"

text \<open>A call whose return value is not looked at.\<close>

definition ignoreP :: "('s, 'a) prog \<Rightarrow> ('s, unit) prog" where
  "ignoreP m = catch (bindP m (\<lambda>_. ret ())) (\<lambda>_. ret ())"

definition gets :: "('s \<Rightarrow> 'a) \<Rightarrow> ('s, 'a) prog" where
  "gets f = (\<lambda>s. (Val (f s), s))"

definition modify :: "('s \<Rightarrow> 's) \<Rightarrow> ('s, unit) prog" where
  "modify f = (\<lambda>s. (Val (), f s))"

text \<open>The C program is undefined unless the condition holds here.\<close>

definition guard :: "bool \<Rightarrow> ('s, unit) prog" where
  "guard b = (\<lambda>s. (if b then Val () else UB, s))"

definition whenP :: "bool \<Rightarrow> ('s, unit) prog \<Rightarrow> ('s, unit) prog" where
  "whenP b m = (if b then m else ret ())"

text \<open>A program on a part of the state.\<close>

definition zoom :: "('s \<Rightarrow> 't) \<Rightarrow> ('t \<Rightarrow> 's \<Rightarrow> 's) \<Rightarrow> ('t, 'a) prog \<Rightarrow> ('s, 'a) prog" where
  "zoom get put m = (\<lambda>s. case m (get s) of (r, t) \<Rightarrow> (r, put t s))"

text \<open>A value that is absent when computing it is undefined.\<close>

definition the_or_ub :: "'a option \<Rightarrow> ('s, 'a) prog" where
  "the_or_ub v = (\<lambda>s. (case v of None \<Rightarrow> UB | Some x \<Rightarrow> Val x, s))"

text \<open>\<^verbatim>\<open>return x;\<close> of an unsigned \<^verbatim>\<open>x\<close> from a function of type \<^verbatim>\<open>i32\<close>.\<close>

definition ret_i32 :: "u64 \<Rightarrow> ('s, i32) prog" where
  "ret_i32 x = (if to_i32 x < 0 then throw (to_i32 x) else ret (to_i32 x))"

section \<open>Weakest preconditions\<close>

definition wp :: "('s, 'a) prog \<Rightarrow> ('a \<Rightarrow> 's \<Rightarrow> bool) \<Rightarrow> (i32 \<Rightarrow> 's \<Rightarrow> bool) \<Rightarrow> 's \<Rightarrow> bool" where
  "wp m Q E s = (case m s of
      (Val x, s') \<Rightarrow> Q x s'
    | (Err e, s') \<Rightarrow> E e s'
    | (UB, s') \<Rightarrow> False)"

named_theorems wp_simps \<open>weakest preconditions of the program constructs\<close>

lemma wp_ret [wp_simps]: "wp (ret x) Q E = Q x"
  by (rule ext) (simp add: wp_def ret_def)

lemma wp_throw [wp_simps]: "wp (throw e) Q E = E e"
  by (rule ext) (simp add: wp_def throw_def)

lemma wp_bindP [wp_simps]: "wp (bindP m f) Q E = wp m (\<lambda>x. wp (f x) Q E) E"
  by (rule ext) (simp add: wp_def bindP_def split: prod.split outcome.split)

lemma wp_catch [wp_simps]: "wp (catch m h) Q E = wp m Q (\<lambda>e. wp (h e) Q E)"
  by (rule ext) (simp add: wp_def catch_def split: prod.split outcome.split)

lemma wp_ignoreP [wp_simps]: "wp (ignoreP m) Q E = wp m (\<lambda>_. Q ()) (\<lambda>_. Q ())"
  by (simp add: ignoreP_def wp_simps)

lemma wp_gets [wp_simps]: "wp (gets f) Q E = (\<lambda>s. Q (f s) s)"
  by (rule ext) (simp add: wp_def gets_def)

lemma wp_modify [wp_simps]: "wp (modify f) Q E = (\<lambda>s. Q () (f s))"
  by (rule ext) (simp add: wp_def modify_def)

lemma wp_guard [wp_simps]: "wp (guard b) Q E = (\<lambda>s. b \<and> Q () s)"
  by (rule ext) (simp add: wp_def guard_def)

lemma wp_if [wp_simps]:
  "wp (if b then m else n) Q E = (\<lambda>s. if b then wp m Q E s else wp n Q E s)"
  by simp

lemma wp_whenP [wp_simps]: "wp (whenP b m) Q E = (\<lambda>s. if b then wp m Q E s else Q () s)"
  by (simp add: whenP_def wp_simps)

lemma wp_zoom [wp_simps]:
  "wp (zoom get put m) Q E =
    (\<lambda>s. wp m (\<lambda>x t. Q x (put t s)) (\<lambda>e t. E e (put t s)) (get s))"
  by (rule ext) (simp add: wp_def zoom_def split: prod.split outcome.split)

lemma wp_the_or_ub [wp_simps]: "wp (the_or_ub v) Q E = (\<lambda>s. \<exists>x. v = Some x \<and> Q x s)"
  by (rule ext) (simp add: wp_def the_or_ub_def split: option.split)

lemma wp_ret_i32 [wp_simps]:
  "wp (ret_i32 x) Q E = (\<lambda>s. if to_i32 x < 0 then E (to_i32 x) s else Q (to_i32 x) s)"
  by (simp add: ret_i32_def wp_simps)

lemma wp_conseq:
  assumes "wp m Q E s"
    and "\<And>x s'. Q x s' \<Longrightarrow> Q' x s'" and "\<And>e s'. E e s' \<Longrightarrow> E' e s'"
  shows "wp m Q' E' s"
  using assms by (auto simp: wp_def split: prod.splits outcome.splits)

lemma wp_conj:
  assumes "wp m Q E s" and "wp m Q' E' s"
  shows "wp m (\<lambda>x s'. Q x s' \<and> Q' x s') (\<lambda>e s'. E e s' \<and> E' e s') s"
  using assms by (auto simp: wp_def split: prod.splits outcome.splits)

text \<open>Running a program and reading off its result.\<close>

lemma wp_ValI: "m s = (Val x, s') \<Longrightarrow> Q x s' \<Longrightarrow> wp m Q E s"
  by (simp add: wp_def)

lemma wp_ErrI: "m s = (Err e, s') \<Longrightarrow> E e s' \<Longrightarrow> wp m Q E s"
  by (simp add: wp_def)

lemma wp_ValD: "wp m Q E s \<Longrightarrow> m s = (Val x, s') \<Longrightarrow> Q x s'"
  by (simp add: wp_def)

lemma wp_ErrD: "wp m Q E s \<Longrightarrow> m s = (Err e, s') \<Longrightarrow> E e s'"
  by (simp add: wp_def)

lemma wp_no_UB: "wp m Q E s \<Longrightarrow> fst (m s) \<noteq> UB"
  by (auto simp: wp_def split: prod.splits)

lemma wp_Val_exists:
  assumes "wp m Q (\<lambda>_ _. False) s"
  obtains x s' where "m s = (Val x, s')" and "Q x s'"
  using assms by (auto simp: wp_def split: prod.splits outcome.splits)

text \<open>
  The liberal form allows undefined behaviour.  It carries the invariants that hold for every
  device and every caller, as long as the run is defined.
\<close>

definition wlp :: "('s, 'a) prog \<Rightarrow> ('a \<Rightarrow> 's \<Rightarrow> bool) \<Rightarrow> (i32 \<Rightarrow> 's \<Rightarrow> bool) \<Rightarrow> 's \<Rightarrow> bool" where
  "wlp m Q E s = (case m s of
      (Val x, s') \<Rightarrow> Q x s'
    | (Err e, s') \<Rightarrow> E e s'
    | (UB, s') \<Rightarrow> True)"

named_theorems wlp_simps \<open>weakest liberal preconditions of the program constructs\<close>

lemma wlp_basic [wlp_simps]:
  "wlp (ret x) Q E = Q x" "wlp (throw e) Q E = E e"
  "wlp (gets f) Q E = (\<lambda>s. Q (f s) s)" "wlp (modify g) R E = (\<lambda>s. R () (g s))"
  "wlp (guard b) R E = (\<lambda>s. b \<longrightarrow> R () s)"
  by (auto simp: wlp_def ret_def throw_def gets_def modify_def guard_def)

lemma wlp_bindP [wlp_simps]: "wlp (bindP m f) Q E = wlp m (\<lambda>x. wlp (f x) Q E) E"
  by (rule ext) (simp add: wlp_def bindP_def split: prod.split outcome.split)

lemma wlp_catch [wlp_simps]: "wlp (catch m h) Q E = wlp m Q (\<lambda>e. wlp (h e) Q E)"
  by (rule ext) (simp add: wlp_def catch_def split: prod.split outcome.split)

lemma wlp_ignoreP [wlp_simps]: "wlp (ignoreP m) Q E = wlp m (\<lambda>_. Q ()) (\<lambda>_. Q ())"
  by (simp add: ignoreP_def wlp_simps)

lemma wlp_if [wlp_simps]:
  "wlp (if b then m else n) Q E = (\<lambda>s. if b then wlp m Q E s else wlp n Q E s)"
  by simp

lemma wlp_whenP [wlp_simps]: "wlp (whenP b m) Q E = (\<lambda>s. if b then wlp m Q E s else Q () s)"
  by (simp add: whenP_def wlp_simps)

lemma wlp_zoom [wlp_simps]:
  "wlp (zoom get put m) Q E =
    (\<lambda>s. wlp m (\<lambda>x t. Q x (put t s)) (\<lambda>e t. E e (put t s)) (get s))"
  by (rule ext) (simp add: wlp_def zoom_def split: prod.split outcome.split)

lemma wlp_the_or_ub [wlp_simps]: "wlp (the_or_ub v) Q E = (\<lambda>s. \<forall>x. v = Some x \<longrightarrow> Q x s)"
  by (rule ext) (simp add: wlp_def the_or_ub_def split: option.split)

lemma wlp_ret_i32 [wlp_simps]:
  "wlp (ret_i32 x) Q E = (\<lambda>s. if to_i32 x < 0 then E (to_i32 x) s else Q (to_i32 x) s)"
  by (simp add: ret_i32_def wlp_simps)

lemma wlp_conseq:
  assumes "wlp m Q E s"
    and "\<And>x s'. Q x s' \<Longrightarrow> Q' x s'" and "\<And>e s'. E e s' \<Longrightarrow> E' e s'"
  shows "wlp m Q' E' s"
  using assms by (auto simp: wlp_def split: prod.splits outcome.splits)

lemma wlpD: "wlp m (\<lambda>_. I) (\<lambda>_. I) s \<Longrightarrow> m s = (r, s') \<Longrightarrow> r \<noteq> UB \<Longrightarrow> I s'"
  by (auto simp: wlp_def split: outcome.splits)

text \<open>Symbolic execution of a program whose first step is known.\<close>

named_theorems exec_simps \<open>running program constructs\<close>

lemma bindP_Val: "m s = (Val x, s') \<Longrightarrow> bindP m f s = f x s'"
  by (simp add: bindP_def)

lemma bindP_Err: "m s = (Err e, s') \<Longrightarrow> bindP m f s = (Err e, s')"
  by (simp add: bindP_def)

lemma bindP_UB: "m s = (UB, s') \<Longrightarrow> bindP m f s = (UB, s')"
  by (simp add: bindP_def)

lemma exec_basic [exec_simps]:
  "ret x s = (Val x, s)" "throw e s = (Err e, s)" "gets f s = (Val (f s), s)"
  "modify g s = (Val (), g s)" "guard b s = (if b then Val () else UB, s)"
  by (simp_all add: ret_def throw_def gets_def modify_def guard_def)

lemma exec_bind_basic [exec_simps]:
  "bindP (ret x) k1 s = k1 x s" "bindP (throw e) k2 s = (Err e, s)"
  "bindP (gets f) k3 s = k3 (f s) s" "bindP (modify g) k4 s = k4 () (g s)"
  "bindP (guard b) k5 s = (if b then k5 () s else (UB, s))"
  "bindP (the_or_ub v) k6 s = (case v of None \<Rightarrow> (UB, s) | Some y \<Rightarrow> k6 y s)"
  by (simp_all add: bindP_def exec_simps the_or_ub_def split: option.split)

end
