(* ===== verification/Kernel_Utils.thy ===== *)
theory Kernel_Utils
  imports Prelude
begin

text \<open>
  The C support library of the kernel, \<^verbatim>\<open>src/lib_core/utils.c\<close>: memory copies, C strings,
  the tokenizer \<^verbatim>\<open>strtok\<close> and the bump allocator behind \<^verbatim>\<open>malloc\<close>.

  A pointer into a character array is the list of the bytes from the pointer to the end of the
  array, or an array with an index.  A function that runs past the end of an array returns
  \<open>None\<close>.
\<close>

section \<open>Memory\<close>

fun memcpy :: "bytes \<Rightarrow> nat \<Rightarrow> bytes \<Rightarrow> nat \<Rightarrow> nat \<Rightarrow> bytes option" where
  "memcpy d i s j 0 = Some d"
| "memcpy d i s j (Suc n) =
     (if i < length d \<and> j < length s then memcpy (d[i := s ! j]) (Suc i) s (Suc j) n else None)"

fun memset :: "bytes \<Rightarrow> nat \<Rightarrow> u8 \<Rightarrow> nat \<Rightarrow> bytes option" where
  "memset d i v 0 = Some d"
| "memset d i v (Suc n) = (if i < length d then memset (d[i := v]) (Suc i) v n else None)"

section \<open>Strings\<close>

fun strlen :: "bytes \<Rightarrow> nat option" where
  "strlen [] = None"
| "strlen (c # cs) = (if c = 0 then Some 0 else map_option Suc (strlen cs))"

fun strcmp :: "bytes \<Rightarrow> bytes \<Rightarrow> i32 option" where
  "strcmp (a # as) (b # bs) =
     (if a \<noteq> 0 \<and> a = b then strcmp as bs else Some (uint a - uint b))"
| "strcmp _ _ = None"

fun strncmp :: "bytes \<Rightarrow> bytes \<Rightarrow> nat \<Rightarrow> i32 option" where
  "strncmp as bs 0 = Some 0"
| "strncmp (a # as) (b # bs) (Suc n) =
     (if a \<noteq> 0 \<and> a = b then strncmp as bs n else Some (uint a - uint b))"
| "strncmp _ _ (Suc n) = None"

text \<open>
  The bytes \<^verbatim>\<open>strcpy\<close> and \<^verbatim>\<open>strncpy\<close> store, in order.  The first loop of
  \<^verbatim>\<open>strncpy\<close> leaves \<^verbatim>\<open>n\<close> as it is when it copies the terminator, and the second loop
  then stores \<^verbatim>\<open>n\<close> more zeros.
\<close>

fun strcpy_bytes :: "bytes \<Rightarrow> bytes option" where
  "strcpy_bytes [] = None"
| "strcpy_bytes (c # cs) = (if c = 0 then Some [0] else map_option ((#) c) (strcpy_bytes cs))"

fun strncpy_bytes :: "bytes \<Rightarrow> nat \<Rightarrow> bytes option" where
  "strncpy_bytes src 0 = Some []"
| "strncpy_bytes [] (Suc n) = None"
| "strncpy_bytes (c # cs) (Suc n) =
     (if c = 0 then Some (0 # replicate (Suc n) 0)
      else map_option ((#) c) (strncpy_bytes cs n))"

definition store_bytes :: "bytes \<Rightarrow> bytes option \<Rightarrow> bytes option" where
  "store_bytes dest w = (case w of None \<Rightarrow> None
     | Some xs \<Rightarrow> if length xs \<le> length dest then Some (put_bytes dest 0 xs) else None)"

definition strcpy :: "bytes \<Rightarrow> bytes \<Rightarrow> bytes option" where
  "strcpy dest src = store_bytes dest (strcpy_bytes src)"

definition strncpy :: "bytes \<Rightarrow> bytes \<Rightarrow> nat \<Rightarrow> bytes option" where
  "strncpy dest src n = store_bytes dest (strncpy_bytes src n)"

text \<open>
  \<^verbatim>\<open>strchr\<close> and \<^verbatim>\<open>strrchr\<close> return the index of the character, if there is one.
  A search for the terminator itself returns \<^verbatim>\<open>NULL\<close>, as the loop stops before it.
\<close>

fun strchr :: "bytes \<Rightarrow> u8 \<Rightarrow> nat option option" where
  "strchr [] c = None"
| "strchr (a # as) c =
     (if a = 0 then Some None else if a = c then Some (Some 0)
      else map_option (map_option Suc) (strchr as c))"

fun strrchr :: "bytes \<Rightarrow> u8 \<Rightarrow> nat option option" where
  "strrchr [] c = None"
| "strrchr (a # as) c =
     (if a = 0 then Some None
      else (case strrchr as c of None \<Rightarrow> None
            | Some (Some k) \<Rightarrow> Some (Some (Suc k))
            | Some None \<Rightarrow> Some (if a = c then Some 0 else None)))"

section \<open>The tokenizer\<close>

text \<open>
  \<^verbatim>\<open>strtok\<close> works on an array \<open>buf\<close> through the static pointer \<^verbatim>\<open>next\<close>, an index
  into the array.  \<open>scan_until\<close> is the loop
  \<^verbatim>\<open>while (*next && [!]strchr(delim, *next)) next++\<close>; the set of delimiters is a list of
  non-zero characters.
\<close>

function scan_until :: "(u8 \<Rightarrow> bool) \<Rightarrow> bytes \<Rightarrow> nat \<Rightarrow> nat option" where
  "scan_until stop buf i =
     (if i < length buf
      then if buf ! i = 0 \<or> stop (buf ! i) then Some i else scan_until stop buf (Suc i)
      else None)"
  by pat_completeness auto
termination
  by (relation "measure (\<lambda>(stop, buf, i). length buf - i)") auto

declare scan_until.simps [simp del]

definition strtok ::
  "nat option \<Rightarrow> bytes \<Rightarrow> bytes \<times> nat option \<Rightarrow> (nat option \<times> bytes \<times> nat option) option" where
  "strtok str delim st = (case st of (buf, nxt) \<Rightarrow>
     (case (case str of Some p \<Rightarrow> Some p | None \<Rightarrow> nxt) of
        None \<Rightarrow> Some (None, buf, None)
      | Some n0 \<Rightarrow>
         (case scan_until (\<lambda>c. c \<notin> set delim) buf n0 of
            None \<Rightarrow> None
          | Some n1 \<Rightarrow>
             if buf ! n1 = 0 then Some (None, buf, Some n1)
             else (case scan_until (\<lambda>c. c \<in> set delim) buf n1 of
                None \<Rightarrow> None
              | Some n2 \<Rightarrow>
                 if buf ! n2 \<noteq> 0 then Some (Some n1, buf[n2 := 0], Some (Suc n2))
                 else Some (Some n1, buf, Some n2)))))"

section \<open>The heap\<close>

text \<open>
  \<^verbatim>\<open>malloc\<close> hands out the static array \<^verbatim>\<open>heap\<close> from the front: the only state is
  \<^verbatim>\<open>heap_pos\<close>, and \<^verbatim>\<open>free\<close> does nothing.  The array is zero at start and no byte of
  it is handed out twice, so that a fresh block holds zeros.  The result is the offset of the
  block.
\<close>

definition HEAP_SIZE :: u64 where "HEAP_SIZE = 1048576"

definition malloc :: "u64 \<Rightarrow> u64 \<Rightarrow> u64 option \<times> u64" where
  "malloc sz heap_pos =
     (if heap_pos + sz > HEAP_SIZE then (None, heap_pos)
      else (Some heap_pos, ALIGN_UP (heap_pos + sz) 16))"

definition free :: "u64 \<Rightarrow> u64 \<Rightarrow> u64" where
  "free ptr heap_pos = heap_pos"

section \<open>Memory functions: the loops compute block copies\<close>

lemma memcpy_out_of_range:
  "length d < i + n \<or> length s < j + n \<Longrightarrow> 0 < n \<Longrightarrow> memcpy d i s j n = None"
proof (induction n arbitrary: d i j)
  case 0
  then show ?case by simp
next
  case (Suc n)
  then show ?case by (cases "n = 0") auto
qed

lemma memcpy_block:
  "i + n \<le> length d \<Longrightarrow> j + n \<le> length s \<Longrightarrow>
    memcpy d i s j n = Some (put_bytes d i (get_bytes s j n))"
proof (induction n arbitrary: d i j)
  case 0
  then show ?case by (simp add: put_bytes_def get_bytes_def)
next
  case (Suc n)
  have g: "get_bytes s j (Suc n) = s ! j # get_bytes s (Suc j) n"
    using Suc.prems by (simp add: get_bytes_def Cons_nth_drop_Suc [symmetric])
  have "put_bytes (d[i := s ! j]) (Suc i) (get_bytes s (Suc j) n)
      = put_bytes d i (s ! j # get_bytes s (Suc j) n)"
    using Suc.prems
    by (simp add: put_bytes_def take_Suc_conv_app_nth)
  then show ?case
    using Suc.prems Suc.IH [of "Suc i" "d[i := s ! j]" "Suc j"] by (simp add: g)
qed

lemma memset_block:
  "i + n \<le> length d \<Longrightarrow> memset d i v n = Some (put_bytes d i (replicate n v))"
proof (induction n arbitrary: d i)
  case 0
  then show ?case by (simp add: put_bytes_def)
next
  case (Suc n)
  have "put_bytes (d[i := v]) (Suc i) (replicate n v) = put_bytes d i (replicate (Suc n) v)"
    using Suc.prems
    by (simp add: put_bytes_def take_Suc_conv_app_nth)
  then show ?case
    using Suc.prems Suc.IH [of "Suc i" "d[i := v]"] by simp
qed

section \<open>String functions\<close>

text \<open>A C string is a run of non-zero bytes and a terminator; what follows it is arbitrary.\<close>

definition cstr :: "bytes \<Rightarrow> bool" where
  "cstr s = (0 \<notin> set s)"

lemma cstr_simps [simp]:
  "cstr []" "cstr (c # s) = (c \<noteq> 0 \<and> cstr s)" "cstr (s @ t) = (cstr s \<and> cstr t)"
  by (auto simp: cstr_def)

lemma strlen_cstr [simp]: "cstr s \<Longrightarrow> strlen (s @ 0 # r) = Some (length s)"
  by (induction s) auto

lemma strcmp_eq_iff:
  "cstr s \<Longrightarrow> cstr t \<Longrightarrow> \<exists>k. strcmp (s @ 0 # r) (t @ 0 # r') = Some k \<and> (k = 0 \<longleftrightarrow> s = t)"
proof (induction s arbitrary: t)
  case Nil
  then show ?case by (cases t) (auto simp: word_uint_eq_iff)
next
  case (Cons a s)
  show ?case
  proof (cases t)
    case Nil
    with Cons.prems show ?thesis by (auto simp: word_uint_eq_iff)
  next
    case (Cons b u)
    with Cons.prems Cons.IH [of u] show ?thesis by (auto simp: word_uint_eq_iff)
  qed
qed

text \<open>
  Comparing as many bytes as the second string has: the comparison does not read past them
  in the first array, and it is zero just when the first array starts with the string.
\<close>

lemma strncmp_prefix_iff:
  "length n = length t \<Longrightarrow> cstr t \<Longrightarrow>
    \<exists>k. strncmp (n @ r) (t @ 0 # r') (length t) = Some k \<and> (k = 0 \<longleftrightarrow> n = t)"
proof (induction n t rule: list_induct2)
  case Nil
  then show ?case by simp
next
  case (Cons a n b t)
  then show ?case by (auto simp: word_uint_eq_iff)
qed

lemma strncpy_bytes_exact: "cstr s \<Longrightarrow> strncpy_bytes (s @ r) (length s) = Some s"
  by (induction s) auto

lemma strncpy_bytes_padded:
  "cstr s \<Longrightarrow> length s < n \<Longrightarrow>
    strncpy_bytes (s @ 0 # r) n = Some (s @ replicate (n + 1 - length s) 0)"
proof (induction s arbitrary: n)
  case Nil
  then show ?case by (cases n) auto
next
  case (Cons c s)
  then show ?case by (cases n) auto
qed

lemma strncpy_bytes_truncated:
  "cstr s \<Longrightarrow> n \<le> length s \<Longrightarrow> strncpy_bytes (s @ r) n = Some (take n s)"
proof (induction s arbitrary: n)
  case Nil
  then show ?case by simp
next
  case (Cons c s)
  then show ?case by (cases n) auto
qed

section \<open>The allocator\<close>

lemma unat_align_16:
  assumes "unat x + 15 < 2 ^ 64"
  shows "unat (ALIGN_UP x 16) = (unat x + 15) div 16 * 16"
proof -
  have "(x + 15) AND NOT (mask 4) = push_bit 4 (drop_bit 4 (x + 15))"
    by (auto intro!: bit_word_eqI simp: bit_simps)
  moreover have "mask 4 = (15 :: u64)"
    by (simp add: mask_eq_exp_minus_1)
  ultimately have m: "(x + 15) AND NOT 15 = push_bit 4 (drop_bit 4 (x + 15))"
    by (simp only:)
  have "x + 16 - 1 = x + 15" "(16 :: u64) - 1 = 15"
    by simp_all
  with m have a: "ALIGN_UP x 16 = push_bit 4 (drop_bit 4 (x + 15))"
    by (simp only: ALIGN_UP_def)
  have s: "unat (x + 15) = unat x + 15"
    using assms by (subst unat_add_lem [THEN iffD1]) auto
  have "(unat x + 15) div 16 * 16 < 2 ^ 64"
    using assms by linarith
  then show ?thesis
    by (simp add: a push_bit_eq_mult drop_bit_eq_div unat_word_ariths(2) unat_div s)
qed

text \<open>The position is in the array and a multiple of 16.\<close>

definition heap_inv :: "u64 \<Rightarrow> bool" where
  "heap_inv pos = (unat pos \<le> unat HEAP_SIZE \<and> 16 dvd unat pos)"

lemma unat_HEAP_SIZE [simp]: "unat HEAP_SIZE = 1048576"
  by (simp add: HEAP_SIZE_def)

lemma malloc_cases:
  assumes "heap_inv pos" and "unat sz \<le> 2 ^ 32"
  shows "malloc sz pos = (if unat pos + unat sz \<le> 1048576
    then (Some pos, ALIGN_UP (pos + sz) 16) else (None, pos))"
    and "unat pos + unat sz \<le> 1048576 \<Longrightarrow>
      unat (ALIGN_UP (pos + sz) 16) = (unat pos + unat sz + 15) div 16 * 16"
proof -
  have "unat (pos + sz) = unat pos + unat sz"
    using assms by (subst unat_add_lem [THEN iffD1]) (auto simp: heap_inv_def)
  then show "malloc sz pos = (if unat pos + unat sz \<le> 1048576
      then (Some pos, ALIGN_UP (pos + sz) 16) else (None, pos))"
    and "unat pos + unat sz \<le> 1048576 \<Longrightarrow>
      unat (ALIGN_UP (pos + sz) 16) = (unat pos + unat sz + 15) div 16 * 16"
    by (simp_all add: malloc_def word_less_nat_alt unat_align_16)
qed

lemma heap_inv_0 [simp]: "heap_inv 0"
  by (simp add: heap_inv_def)

lemma heap_inv_malloc:
  assumes "heap_inv pos"
  shows "heap_inv (snd (malloc sz pos))"
proof (cases "pos + sz > HEAP_SIZE")
  case True
  with assms show ?thesis by (simp add: malloc_def)
next
  case False
  then have le: "unat (pos + sz) \<le> 1048576"
    by (simp add: word_less_nat_alt)
  then have "unat (ALIGN_UP (pos + sz) 16) = (unat (pos + sz) + 15) div 16 * 16"
    by (intro unat_align_16) simp
  with False le show ?thesis
    by (simp add: malloc_def heap_inv_def)
qed

text \<open>A sequence of allocations.\<close>

fun malloc_seq :: "u64 list \<Rightarrow> u64 \<Rightarrow> u64 option list \<times> u64" where
  "malloc_seq [] pos = ([], pos)"
| "malloc_seq (sz # szs) pos =
     (case malloc sz pos of (p, pos') \<Rightarrow>
      case malloc_seq szs pos' of (ps, pos'') \<Rightarrow> (p # ps, pos''))"

lemma malloc_result:
  assumes "heap_inv pos" "unat sz \<le> 2 ^ 32" "malloc sz pos = (r, pos')"
  shows "heap_inv pos'" "unat pos \<le> unat pos'"
    and "r = Some p \<Longrightarrow> p = pos \<and> 16 dvd unat p \<and> unat p + unat sz \<le> unat pos'"
proof -
  show "heap_inv pos'" using heap_inv_malloc [OF assms(1), of sz] assms(3) by simp
  have "unat pos + unat sz \<le> (unat pos + unat sz + 15) div 16 * 16" by simp
  then show "unat pos \<le> unat pos'"
    and "r = Some p \<Longrightarrow> p = pos \<and> 16 dvd unat p \<and> unat p + unat sz \<le> unat pos'"
    using malloc_cases [OF assms(1,2)] assms(1,3) by (auto simp: heap_inv_def split: if_splits)
qed

lemma malloc_seq_result:
  assumes "heap_inv pos" "\<forall>sz \<in> set szs. unat sz \<le> 2 ^ 32" "malloc_seq szs pos = (ps, pos')"
  shows "heap_inv pos' \<and> (\<forall>j < length szs. \<forall>q. ps ! j = Some q \<longrightarrow>
    unat pos \<le> unat q \<and> 16 dvd unat q \<and> unat q + unat (szs ! j) \<le> unat HEAP_SIZE \<and>
    (\<forall>i < j. \<forall>p. ps ! i = Some p \<longrightarrow> unat p + unat (szs ! i) \<le> unat q))"
  using assms
proof (induction szs arbitrary: pos ps)
  case Nil
  then show ?case by simp
next
  case (Cons sz szs)
  obtain r pos1 ps1 where m: "malloc sz pos = (r, pos1)" "malloc_seq szs pos1 = (ps1, pos')" "ps = r # ps1"
    using Cons.prems(3) by (auto split: prod.splits)
  have sz: "unat sz \<le> 2 ^ 32" using Cons.prems(2) by simp
  note r = malloc_result [OF Cons.prems(1) sz m(1)]
  have IH: "heap_inv pos' \<and> (\<forall>j < length szs. \<forall>q. ps1 ! j = Some q \<longrightarrow>
    unat pos1 \<le> unat q \<and> 16 dvd unat q \<and> unat q + unat (szs ! j) \<le> unat HEAP_SIZE \<and>
    (\<forall>i < j. \<forall>p. ps1 ! i = Some p \<longrightarrow> unat p + unat (szs ! i) \<le> unat q))"
    using Cons.prems(2) by (intro Cons.IH [OF r(1) _ m(2)]) simp
  have lim: "unat pos1 \<le> unat HEAP_SIZE" using r(1) by (simp add: heap_inv_def)
  have head: "unat p + unat sz \<le> unat pos1" "unat pos \<le> unat p" "16 dvd unat p" if "r = Some p" for p
    using r(3) [OF that] by auto
  show ?case
  proof (intro conjI allI impI)
    show "heap_inv pos'" using IH by simp
  next
    fix j q assume j: "j < length (sz # szs)" "ps ! j = Some q"
    show "unat pos \<le> unat q" "16 dvd unat q" "unat q + unat ((sz # szs) ! j) \<le> unat HEAP_SIZE"
      using j IH r(2) lim head [of q] by (cases j; auto simp: m(3) intro: order_trans)+
    fix i p assume i: "i < j" "ps ! i = Some p"
    then obtain j' where j': "j = Suc j'" by (cases j) auto
    with j have q: "ps1 ! j' = Some q" "j' < length szs" by (simp_all add: m(3))
    show "unat p + unat ((sz # szs) ! i) \<le> unat q"
    proof (cases i)
      case 0
      with i head(1) [of p] IH q show ?thesis by (auto simp: m(3) intro: order_trans)
    next
      case (Suc i')
      with i j' q IH show ?thesis by (auto simp: m(3))
    qed
  qed
qed

text \<open>
  C26.  The blocks that a sequence of calls of \<^verbatim>\<open>malloc\<close> hands out are aligned to 16 bytes, lie
  inside of the heap array and do not overlap: each block ends before every later block
  begins.  The sizes are below 4 GB, as all sizes the kernel asks for.
\<close>

theorem malloc_blocks_disjoint:
  assumes "heap_inv pos" "\<forall>sz \<in> set szs. unat sz \<le> 2 ^ 32" "malloc_seq szs pos = (ps, pos')"
    and "i < j" "j < length szs" "ps ! i = Some p" "ps ! j = Some q"
  shows "16 dvd unat p \<and> 16 dvd unat q \<and> unat p + unat (szs ! i) \<le> unat q \<and>
    unat q + unat (szs ! j) \<le> unat HEAP_SIZE"
proof -
  have "i < length szs" using assms(4,5) by simp
  with malloc_seq_result [OF assms(1-3)] assms(4-7) show ?thesis by blast
qed

theorem malloc_blocks_disjoint_witness:
  "16 dvd unat (0 :: u64) \<and> 16 dvd unat (112 :: u64) \<and> unat (0 :: u64) + unat ([100, 7] ! 0 :: u64) \<le> unat (112 :: u64) \<and>
    unat (112 :: u64) + unat ([100, 7] ! 1 :: u64) \<le> unat HEAP_SIZE"
proof -
  have "malloc_seq [100, 7] 0 = ([Some 0, Some 112], 128)" by code_simp
  from malloc_blocks_disjoint [OF heap_inv_0 _ this, of 0 1 0 112] show ?thesis by simp
qed

text \<open>
  The function \<^verbatim>\<open>strncpy\<close> of the kernel stores one byte more than its limit when the
  source string is shorter than the limit: copying into an array of exactly \<open>n\<close> bytes writes
  past its end, and an array with at least \<open>n + 1\<close> bytes receives the string and zeros up to and
  including index \<open>n\<close>.
\<close>

theorem strncpy_overruns:
  assumes "cstr s" "length s < n"
  shows "strncpy dest (s @ 0 # r) n =
    (if length dest \<le> n then None else Some (s @ replicate (n + 1 - length s) 0 @ drop (n + 1) dest))"
  using assms by (simp add: strncpy_def store_bytes_def strncpy_bytes_padded put_bytes_def)

theorem strncpy_overruns_witness:
  "strncpy [1, 2, 3] [97, 0] 3 = None \<and> strncpy [1, 2, 3, 4] [97, 0] 3 = Some (97 # replicate 3 0)"
  using strncpy_overruns [of "[97]" 3 "[1, 2, 3]" "[]"] strncpy_overruns [of "[97]" 3 "[1, 2, 3, 4]" "[]"]
  by simp

end
