(* ===== verification/Block_Device.thy ===== *)
theory Block_Device
  imports Kernel_Utils
begin

text \<open>
  Block devices: the interface \<^verbatim>\<open>block_device_ops_t\<close> of
  \<^verbatim>\<open>src/include/block_cache.h\<close>, the RAM disk driver
  \<^verbatim>\<open>src/drivers/block/ramdisk.c\<close>, the device registry \<^verbatim>\<open>src/drivers/device.c\<close> and
  the adapter \<^verbatim>\<open>src/fs/block_device_wrapper.c\<close>.

  A driver function gets the driver's data of type \<open>'d\<close> and returns \<open>None\<close> when its behaviour
  is undefined.  A read returns the new content of the buffer, a write the new state of the
  device.  The locale \<open>block_dev\<close> is the contract the block cache relies on; the RAM disk
  interprets it.
\<close>

section \<open>The interface of a block device\<close>

type_synonym 'd read_fn = "'d \<Rightarrow> u64 \<Rightarrow> bytes option \<Rightarrow> (i32 \<times> bytes option) option"
type_synonym 'd write_fn = "'d \<Rightarrow> u64 \<Rightarrow> bytes option \<Rightarrow> (i32 \<times> 'd) option"
type_synonym 'd ioctl_fn = "'d \<Rightarrow> u32 \<Rightarrow> u64 option \<Rightarrow> i32 \<times> u64 option"

record 'd block_device_ops =
  op_read_block :: "'d read_fn option"
  op_write_block :: "'d write_fn option"
  op_get_block_size :: "('d \<Rightarrow> i32 option) option"
  op_get_num_blocks :: "('d \<Rightarrow> i32 option) option"

record 'd block_device =
  device_data :: 'd
  device_ops :: "'d block_device_ops option"

section \<open>The RAM disk\<close>

record ramdisk =
  rd_size :: u64
  rd_data :: bytes
  rd_block_size :: u64

definition ramdisk_read_block :: "ramdisk option read_fn" where
  "ramdisk_read_block device block_num buffer = (case (device, buffer) of
     (Some disk, Some buf) \<Rightarrow>
       (let offset = block_num * rd_block_size disk in
        if offset \<ge> rd_size disk then Some (ERR_INVALID, buffer)
        else (case memcpy buf 0 (rd_data disk) (unat offset) (unat (rd_block_size disk)) of
                None \<Rightarrow> None
              | Some buf' \<Rightarrow> Some (to_i32 (rd_block_size disk), Some buf')))
   | _ \<Rightarrow> Some (ERR_INVALID, buffer))"

definition ramdisk_write_block :: "ramdisk option write_fn" where
  "ramdisk_write_block device block_num buffer = (case (device, buffer) of
     (Some disk, Some buf) \<Rightarrow>
       (let offset = block_num * rd_block_size disk in
        if offset \<ge> rd_size disk then Some (ERR_INVALID, device)
        else (case memcpy (rd_data disk) (unat offset) buf 0 (unat (rd_block_size disk)) of
                None \<Rightarrow> None
              | Some data' \<Rightarrow> Some (to_i32 (rd_block_size disk), Some (disk\<lparr>rd_data := data'\<rparr>))))
   | _ \<Rightarrow> Some (ERR_INVALID, device))"

definition ramdisk_ioctl :: "ramdisk option ioctl_fn" where
  "ramdisk_ioctl device cmd arg = (case device of
     None \<Rightarrow> (ERR_INVALID, arg)
   | Some disk \<Rightarrow>
       if cmd = 0 then
         (case arg of None \<Rightarrow> (ERR_INVALID, arg) | Some _ \<Rightarrow> (ERR_SUCCESS, Some (rd_size disk)))
       else if cmd = 1 then
         (case arg of None \<Rightarrow> (ERR_INVALID, arg) | Some _ \<Rightarrow> (ERR_SUCCESS, Some (rd_block_size disk)))
       else (ERR_INVALID, arg))"

section \<open>The device registry\<close>

text \<open>
  A device operations table is the sequence of its function pointers.  The two C files that
  declare \<^verbatim>\<open>struct device_ops\<close> give it different members: a table is laid out by
  \<^verbatim>\<open>device.c\<close> and by the drivers as \<open>read\<close>, \<open>write\<close>, \<open>ioctl\<close>, \<open>read_block\<close>,
  \<open>write_block\<close>, \<open>ioctl_block\<close>, \<open>open\<close>, \<open>close\<close>, \<open>probe\<close>, \<open>remove\<close>, while
  \<^verbatim>\<open>block_device_wrapper.c\<close> reads it as \<open>read_block\<close>, \<open>write_block\<close>, \<open>ioctl_block\<close>,
  \<open>open\<close>, \<open>close\<close>.
\<close>

datatype 'd dev_fn = Fn_read_block "'d read_fn" | Fn_write_block "'d write_fn"
  | Fn_ioctl_block "'d ioctl_fn" | Fn_open | Fn_close | Fn_probe | Fn_remove

type_synonym 'd ops_table = "'d dev_fn option list"

definition ramdisk_ops :: "ramdisk option ops_table" where
  "ramdisk_ops = [None, None, None, Some (Fn_read_block ramdisk_read_block),
     Some (Fn_write_block ramdisk_write_block), Some (Fn_ioctl_block ramdisk_ioctl),
     Some Fn_open, Some Fn_close, Some Fn_probe, Some Fn_remove]"

definition DEVICE_BLOCK :: u32 where "DEVICE_BLOCK = 2"

definition MAX_STRING_LEN :: nat where "MAX_STRING_LEN = 256"

record 'd device =
  dev_name :: bytes
  dev_major :: u32
  dev_minor :: u32
  dev_type :: u32
  dev_size :: u64
  dev_data :: 'd
  dev_ops :: "'d ops_table option"

text \<open>
  The list \<^verbatim>\<open>devices\<close>, most recent first, the counter \<^verbatim>\<open>next_major\<close>, the RAM disk
  instance \<^verbatim>\<open>g_ramdisk\<close> and the position of the heap.
\<close>

record registry =
  devices :: "ramdisk option device list"
  next_major :: u32
  g_ramdisk :: "ramdisk option"
  reg_heap :: u64

definition sizeof_device :: u64 where "sizeof_device = 304"
definition sizeof_ramdisk :: u64 where "sizeof_ramdisk = 24"

definition reg_malloc :: "u64 \<Rightarrow> (registry, u64 option) prog" where
  "reg_malloc sz = (\<lambda>s. case malloc sz (reg_heap s) of (p, h) \<Rightarrow> (Val p, s\<lparr>reg_heap := h\<rparr>))"

definition device_register ::
  "bytes \<Rightarrow> u32 \<Rightarrow> ramdisk option ops_table option \<Rightarrow> ramdisk option \<Rightarrow> (registry, u32) prog" where
  "device_register name typ ops data =
     bindP (reg_malloc sizeof_device) (\<lambda>p.
     if p = None then throw ERR_NO_MEMORY else
     bindP (the_or_ub (strncpy (replicate MAX_STRING_LEN 0) name (MAX_STRING_LEN - 1))) (\<lambda>nm.
     bindP (gets next_major) (\<lambda>major.
     bindP (modify (\<lambda>s. s\<lparr>next_major := major + 1,
        devices := \<lparr>dev_name = nm[MAX_STRING_LEN - 1 := 0], dev_major = major, dev_minor = 0,
           dev_type = typ, dev_size = 0, dev_data = data, dev_ops = ops\<rparr> # devices s\<rparr>)) (\<lambda>_.
     ret major))))"

fun device_find_from :: "'d device list \<Rightarrow> bytes \<Rightarrow> 'd device option option" where
  "device_find_from [] name = Some None"
| "device_find_from (dev # ds) name = (case strcmp (dev_name dev) name of
     None \<Rightarrow> None
   | Some k \<Rightarrow> if k \<noteq> 0 then device_find_from ds name else Some (Some dev))"

definition device_find :: "bytes \<Rightarrow> (registry, ramdisk option device option) prog" where
  "device_find name = bindP (gets devices) (\<lambda>ds. the_or_ub (device_find_from ds name))"

definition device_find_by_major :: "u32 \<Rightarrow> registry \<Rightarrow> ramdisk option device option" where
  "device_find_by_major major s = find (\<lambda>dev. dev_major dev = major) (devices s)"

fun device_unlink :: "'d device list \<Rightarrow> bytes \<Rightarrow> 'd device list option option" where
  "device_unlink [] name = Some None"
| "device_unlink (dev # ds) name = (case strcmp (dev_name dev) name of
     None \<Rightarrow> None
   | Some k \<Rightarrow> if k = 0 then Some (Some ds)
             else map_option (map_option ((#) dev)) (device_unlink ds name))"

definition device_unregister :: "bytes \<Rightarrow> (registry, unit) prog" where
  "device_unregister name =
     bindP (gets devices) (\<lambda>ds.
     bindP (the_or_ub (device_unlink ds name)) (\<lambda>r.
     case r of None \<Rightarrow> throw ERR_NOT_FOUND
     | Some ds' \<Rightarrow> modify (\<lambda>s. s\<lparr>devices := ds'\<rparr>)))"

definition device_init :: "registry \<Rightarrow> registry" where
  "device_init s = s\<lparr>devices := []\<rparr>"

text \<open>The name \<^verbatim>\<open>"ramdisk"\<close> with its terminator.\<close>

definition ramdisk_name :: bytes where
  "ramdisk_name = [114, 97, 109, 100, 105, 115, 107, 0]"

definition ramdisk_init :: "(registry, unit) prog" where
  "ramdisk_init =
     bindP (reg_malloc sizeof_ramdisk) (\<lambda>p.
     if p = None then ret () else
     bindP (reg_malloc (16 * 1024 * 1024)) (\<lambda>d.
     if d = None then ret () else
     bindP (ret \<lparr>rd_size = 16 * 1024 * 1024, rd_data = replicate (16 * 1024 * 1024) 0,
                 rd_block_size = 512\<rparr>) (\<lambda>disk.
     bindP (modify (\<lambda>s. s\<lparr>g_ramdisk := Some disk\<rparr>)) (\<lambda>_.
     ignoreP (device_register ramdisk_name DEVICE_BLOCK (Some ramdisk_ops) (Some disk))))))"

text \<open>
  The disk that \<^verbatim>\<open>ramdisk_init\<close> creates is the only one, so that every data pointer of a
  device that is not null points to \<^verbatim>\<open>*g_ramdisk\<close> and sees the image that is loaded.
\<close>

definition ramdisk_load_ext2_image :: "bytes option \<Rightarrow> u64 \<Rightarrow> (registry, unit) prog" where
  "ramdisk_load_ext2_image image_data image_size =
     bindP (gets g_ramdisk) (\<lambda>g. case (g, image_data) of
       (Some disk, Some img) \<Rightarrow>
         if image_size = 0 \<or> image_size > rd_size disk then ret ()
         else bindP (the_or_ub (memcpy (rd_data disk) 0 img 0 (unat image_size))) (\<lambda>data'.
              modify (\<lambda>s. s\<lparr>g_ramdisk := Some (disk\<lparr>rd_data := data'\<rparr>),
                devices := map (\<lambda>dev. if dev_data dev = None then dev
                  else dev\<lparr>dev_data := Some (disk\<lparr>rd_data := data'\<rparr>)\<rparr>) (devices s)\<rparr>))
     | _ \<Rightarrow> ret ())"

section \<open>The adapter\<close>

definition table_slot :: "'d ops_table \<Rightarrow> nat \<Rightarrow> 'd dev_fn option" where
  "table_slot tbl i = (if i < length tbl then tbl ! i else None)"

definition wrapper_slot :: "'d device option \<Rightarrow> nat \<Rightarrow> 'd dev_fn option" where
  "wrapper_slot device i = (case device of None \<Rightarrow> None
     | Some dev \<Rightarrow> (case dev_ops dev of None \<Rightarrow> None | Some tbl \<Rightarrow> table_slot tbl i))"

definition block_device_wrapper_read :: "'d device option read_fn" where
  "block_device_wrapper_read device block_num buffer = (case (device, wrapper_slot device 0) of
     (Some dev, Some (Fn_read_block f)) \<Rightarrow> f (dev_data dev) block_num buffer
   | (Some dev, Some _) \<Rightarrow> None
   | _ \<Rightarrow> Some (ERR_INVALID, buffer))"

definition block_device_wrapper_write :: "'d device option write_fn" where
  "block_device_wrapper_write device block_num buffer = (case (device, wrapper_slot device 1) of
     (Some dev, Some (Fn_write_block f)) \<Rightarrow>
       (case f (dev_data dev) block_num buffer of None \<Rightarrow> None
        | Some (r, d) \<Rightarrow> Some (r, Some (dev\<lparr>dev_data := d\<rparr>)))
   | (Some dev, Some _) \<Rightarrow> None
   | _ \<Rightarrow> Some (ERR_INVALID, device))"

definition block_device_wrapper_get_block_size :: "'d device option \<Rightarrow> i32 option" where
  "block_device_wrapper_get_block_size device = (case (device, wrapper_slot device 2) of
     (Some dev, Some (Fn_ioctl_block f)) \<Rightarrow>
       Some (to_i32 (case snd (f (dev_data dev) 1 (Some 512)) of None \<Rightarrow> 512 | Some v \<Rightarrow> v))
   | (Some dev, Some _) \<Rightarrow> None
   | _ \<Rightarrow> Some 512)"

definition block_device_wrapper_get_num_blocks :: "'d device option \<Rightarrow> i32 option" where
  "block_device_wrapper_get_num_blocks device = (case (device, wrapper_slot device 2) of
     (Some dev, Some (Fn_ioctl_block f)) \<Rightarrow>
       (let sz = (case snd (f (dev_data dev) 0 (Some 0)) of None \<Rightarrow> 0 | Some v \<Rightarrow> v)
        in case block_device_wrapper_get_block_size device of None \<Rightarrow> None
           | Some b \<Rightarrow> (let bs = (word_of_int b :: u64)
                       in if bs = 0 then None else Some (to_i32 (sz div bs))))
   | (Some dev, Some _) \<Rightarrow> None
   | _ \<Rightarrow> Some 0)"

definition wrapper_ops :: "'d device option block_device_ops" where
  "wrapper_ops = \<lparr>op_read_block = Some block_device_wrapper_read,
     op_write_block = Some block_device_wrapper_write,
     op_get_block_size = Some block_device_wrapper_get_block_size,
     op_get_num_blocks = Some block_device_wrapper_get_num_blocks\<rparr>"

definition sizeof_block_device :: u64 where "sizeof_block_device = 16"

definition block_device_create ::
  "'d device option \<Rightarrow> u64 \<Rightarrow> 'd device option block_device option \<times> u64" where
  "block_device_create device heap_pos = (case device of
     None \<Rightarrow> (None, heap_pos)
   | Some dev \<Rightarrow> (case malloc sizeof_block_device heap_pos of
       (None, h) \<Rightarrow> (None, h)
     | (Some _, h) \<Rightarrow> (Some \<lparr>device_data = Some dev, device_ops = Some wrapper_ops\<rparr>, h)))"

section \<open>The contract of a block device\<close>

text \<open>
  \<open>blk d n\<close> is the content of block \<open>n\<close> of a device in state \<open>d\<close>, if the device has that
  block.  The laws hold for the block numbers \<open>addr\<close> that the driver can address.
\<close>

locale block_dev =
  fixes rd :: "'d read_fn"
    and wr :: "'d write_fn"
    and bs :: nat
    and addr :: "u64 \<Rightarrow> bool"
    and blk :: "'d \<Rightarrow> u64 \<Rightarrow> bytes option"
    and dinv :: "'d \<Rightarrow> bool"
  assumes blk_length: "dinv d \<Longrightarrow> blk d n = Some b \<Longrightarrow> length b = bs"
    and read_present: "dinv d \<Longrightarrow> addr n \<Longrightarrow> blk d n = Some b \<Longrightarrow> length buf = bs \<Longrightarrow>
      \<exists>r. 0 \<le> r \<and> rd d n (Some buf) = Some (r, Some b)"
    and read_absent: "dinv d \<Longrightarrow> addr n \<Longrightarrow> blk d n = None \<Longrightarrow> length buf = bs \<Longrightarrow>
      \<exists>r. r < 0 \<and> rd d n (Some buf) = Some (r, Some buf)"
    and write_present: "dinv d \<Longrightarrow> addr n \<Longrightarrow> blk d n \<noteq> None \<Longrightarrow> length b = bs \<Longrightarrow>
      \<exists>r d'. 0 \<le> r \<and> wr d n (Some b) = Some (r, d') \<and> dinv d' \<and> blk d' = (blk d)(n \<mapsto> b)"
    and write_absent: "dinv d \<Longrightarrow> addr n \<Longrightarrow> blk d n = None \<Longrightarrow> length b = bs \<Longrightarrow>
      \<exists>r. r < 0 \<and> wr d n (Some b) = Some (r, d)"

section \<open>The RAM disk implements the contract\<close>

text \<open>
  The blocks of a RAM disk of \<open>bs\<close>-byte blocks whose size is a number of whole blocks.  The
  product of a block number and the block size wraps around at 64 bits, so that only block
  numbers below \<open>2 ^ 64 div bs\<close> address their own block.
\<close>

definition rd_addr :: "nat \<Rightarrow> u64 \<Rightarrow> bool" where
  "rd_addr bs n = (unat n * bs < 2 ^ 64)"

definition rd_inv :: "nat \<Rightarrow> ramdisk option \<Rightarrow> bool" where
  "rd_inv bs d = (case d of None \<Rightarrow> False | Some disk \<Rightarrow>
     unat (rd_block_size disk) = bs \<and> 0 < bs \<and> bs < 2 ^ 31 \<and>
     length (rd_data disk) = unat (rd_size disk) \<and> bs dvd unat (rd_size disk))"

definition rd_blk :: "nat \<Rightarrow> ramdisk option \<Rightarrow> u64 \<Rightarrow> bytes option" where
  "rd_blk bs d n = (case d of None \<Rightarrow> None | Some disk \<Rightarrow>
     if rd_addr bs n \<and> unat n * bs < unat (rd_size disk)
     then Some (get_bytes (rd_data disk) (unat n * bs) bs) else None)"

lemma rd_block_in_range:
  assumes "(bs :: nat) dvd sz" "n * bs < sz"
  shows "n * bs + bs \<le> sz"
proof -
  from assms obtain k where k: "sz = k * bs" by (auto simp: dvd_def mult.commute)
  with assms(2) have "n < k" by simp
  then have "Suc n * bs \<le> k * bs" by (intro mult_le_mono1) simp
  with k show ?thesis by simp
qed

lemma rd_offset:
  "rd_addr bs n \<Longrightarrow> unat w = bs \<Longrightarrow> unat (n * w) = unat n * bs"
  by (auto simp: rd_addr_def unat_word_ariths)

lemma to_i32_nonneg:
  assumes "unat w < 2 ^ 31"
  shows "to_i32 w = int (unat w)"
proof -
  from assms have "int (unat w) < int (2 ^ 31)"
    by (simp only: of_nat_less_iff)
  then have lt: "uint w < 2147483648" by simp
  then have u: "uint (ucast w :: 32 word) = uint w"
    by (simp add: unsigned_ucast_eq take_bit_int_eq_self)
  have "- (2 ^ 31) \<le> uint w"
    by (rule order_trans [of _ 0]) simp_all
  with lt have "signed_take_bit 31 (uint w) = uint w"
    by (intro signed_take_bit_int_eq_self) simp_all
  then have "sint (ucast w :: 32 word) = uint w"
    by (simp add: sint_uint u)
  then show ?thesis by (simp add: to_i32_def)
qed

lemma ramdisk_read_present:
  assumes "rd_inv bs d" "rd_addr bs n" "rd_blk bs d n = Some b" "length buf = bs"
  shows "ramdisk_read_block d n (Some buf) = Some (int bs, Some b)"
proof -
  from assms obtain disk where d: "d = Some disk" "unat (rd_block_size disk) = bs" "bs < 2 ^ 31"
    "length (rd_data disk) = unat (rd_size disk)" "bs dvd unat (rd_size disk)"
    by (auto simp: rd_inv_def split: option.splits)
  from assms d have in_disk: "unat n * bs < unat (rd_size disk)"
    and b: "b = get_bytes (rd_data disk) (unat n * bs) bs"
    by (auto simp: rd_blk_def split: if_splits)
  then have le: "unat n * bs + bs \<le> length (rd_data disk)"
    using d by (simp add: rd_block_in_range)
  have off: "unat (n * rd_block_size disk) = unat n * bs"
    using assms d by (simp add: rd_offset)
  then have "\<not> rd_size disk \<le> n * rd_block_size disk"
    using in_disk by (simp add: word_le_nat_alt)
  with d off le assms(4) b show ?thesis
    by (simp add: ramdisk_read_block_def Let_def memcpy_block to_i32_nonneg buffer_simps)
qed

lemma ramdisk_absent:
  assumes "rd_inv bs d" "rd_addr bs n" "rd_blk bs d n = None"
  shows "ramdisk_read_block d n (Some buf) = Some (ERR_INVALID, Some buf)"
    and "ramdisk_write_block d n (Some buf) = Some (ERR_INVALID, d)"
proof -
  from assms obtain disk where d: "d = Some disk" "unat (rd_block_size disk) = bs"
    by (auto simp: rd_inv_def split: option.splits)
  have off: "unat (n * rd_block_size disk) = unat n * bs"
    using assms d by (simp add: rd_offset)
  then have "rd_size disk \<le> n * rd_block_size disk"
    using assms d by (auto simp: rd_blk_def word_le_nat_alt split: if_splits)
  with d show "ramdisk_read_block d n (Some buf) = Some (ERR_INVALID, Some buf)"
    and "ramdisk_write_block d n (Some buf) = Some (ERR_INVALID, d)"
    by (simp_all add: ramdisk_read_block_def ramdisk_write_block_def Let_def)
qed

text \<open>Different blocks of the disk do not overlap.\<close>

lemma blocks_disjoint:
  assumes "(m :: nat) \<noteq> n"
  shows "m * bs + bs \<le> n * bs \<or> n * bs + bs \<le> m * bs"
proof -
  from assms have "Suc m \<le> n \<or> Suc n \<le> m" by linarith
  then have "Suc m * bs \<le> n * bs \<or> Suc n * bs \<le> m * bs"
    by (blast intro: mult_le_mono1)
  then show ?thesis by (simp add: add.commute)
qed

lemma ramdisk_write_present:
  assumes "rd_inv bs d" "rd_addr bs n" "rd_blk bs d n \<noteq> None" "length b = bs"
  shows "\<exists>d'. ramdisk_write_block d n (Some b) = Some (int bs, d') \<and> rd_inv bs d' \<and>
    rd_blk bs d' = (rd_blk bs d)(n \<mapsto> b)"
proof -
  from assms obtain disk where d: "d = Some disk" "unat (rd_block_size disk) = bs" "bs < 2 ^ 31"
    "length (rd_data disk) = unat (rd_size disk)" "bs dvd unat (rd_size disk)" "0 < bs"
    by (auto simp: rd_inv_def split: option.splits)
  from assms d have in_disk: "unat n * bs < unat (rd_size disk)"
    by (auto simp: rd_blk_def split: if_splits)
  then have le: "unat n * bs + bs \<le> length (rd_data disk)"
    using d by (simp add: rd_block_in_range)
  have off: "unat (n * rd_block_size disk) = unat n * bs"
    using assms d by (simp add: rd_offset)
  then have nle: "\<not> rd_size disk \<le> n * rd_block_size disk"
    using in_disk by (simp add: word_le_nat_alt)
  define disk' where "disk' = disk\<lparr>rd_data := put_bytes (rd_data disk) (unat n * bs) b\<rparr>"
  have "ramdisk_write_block d n (Some b) = Some (int bs, Some disk')"
    using d off le assms(4) nle disk'_def
    by (simp add: ramdisk_write_block_def Let_def memcpy_block to_i32_nonneg buffer_simps)
  moreover have "rd_inv bs (Some disk')"
    using d le assms(4) by (simp add: rd_inv_def disk'_def buffer_simps)
  moreover have "rd_blk bs (Some disk') m = ((rd_blk bs d)(n \<mapsto> b)) m" for m
  proof (cases "m = n")
    case True
    with assms d in_disk le show ?thesis
      by (simp add: rd_blk_def disk'_def buffer_simps)
  next
    case False
    have "get_bytes (rd_data disk') (unat m * bs) bs = get_bytes (rd_data disk) (unat m * bs) bs"
      if "unat m * bs < unat (rd_size disk)"
    proof -
      have "unat m * bs + bs \<le> length (rd_data disk)"
        using that d by (simp add: rd_block_in_range)
      moreover from False have "unat m \<noteq> unat n" by (simp add: word_unat_eq_iff)
      ultimately show ?thesis using le assms(4) blocks_disjoint [of "unat m" "unat n" bs]
        by (simp add: disk'_def get_put_other)
    qed
    with False d show ?thesis by (simp add: rd_blk_def disk'_def)
  qed
  ultimately show ?thesis by blast
qed

interpretation ram: block_dev ramdisk_read_block ramdisk_write_block bs "rd_addr bs" "rd_blk bs" "rd_inv bs"
  for bs :: nat
proof
  fix d n b
  assume "rd_inv bs d" "rd_blk bs d n = Some b"
  then show "length b = bs"
    by (auto simp: rd_inv_def rd_blk_def length_get_bytes rd_block_in_range
        split: option.splits if_splits)
qed (use ramdisk_read_present ramdisk_absent ramdisk_write_present in \<open>fastforce simp: err_defs\<close>)+

section \<open>Registration and the adapter\<close>

lemma registered_name:
  assumes "cstr nm" "length nm < MAX_STRING_LEN - 1"
  shows "strncpy (replicate MAX_STRING_LEN 0) (nm @ 0 # r) (MAX_STRING_LEN - 1) =
    Some (nm @ 0 # replicate (MAX_STRING_LEN - 1 - length nm) 0)"
proof -
  have "MAX_STRING_LEN - length nm = Suc (MAX_STRING_LEN - 1 - length nm)"
    using assms(2) by (simp add: MAX_STRING_LEN_def)
  with assms show ?thesis
    by (simp add: strncpy_def store_bytes_def strncpy_bytes_padded put_bytes_def MAX_STRING_LEN_def)
qed

definition demo_registry :: registry where
  "demo_registry = \<lparr>devices = [], next_major = 1, g_ramdisk = None, reg_heap = 0\<rparr>"

text \<open>
  C28.  A registered device is found again under its name, with the major number that the
  registration returned and the operations and data it was registered with; devices with other
  names are found as before.
\<close>

theorem device_register_find:
  assumes "cstr nm" "length nm < MAX_STRING_LEN - 1"
    and "device_register (nm @ 0 # r) typ ops data s = (Val major, s')"
  shows "(\<exists>dev. device_find (nm @ 0 # r') s' = (Val (Some dev), s') \<and> dev_major dev = major \<and>
      major = next_major s \<and> dev_type dev = typ \<and> dev_ops dev = ops \<and> dev_data dev = data) \<and>
    (\<forall>other. cstr other \<and> other \<noteq> nm \<longrightarrow>
      fst (device_find (other @ 0 # r') s') = fst (device_find (other @ 0 # r') s))"
proof -
  let ?z = "nm @ 0 # replicate (MAX_STRING_LEN - 1 - length nm) 0"
  have "?z ! (MAX_STRING_LEN - 1) = 0" "MAX_STRING_LEN - 1 < length ?z"
    using assms(2) by (simp_all add: MAX_STRING_LEN_def nth_append nth_Cons')
  then have z: "?z[MAX_STRING_LEN - 1 := 0] = ?z"
    by (metis list_update_id)
  have s': "major = next_major s \<and> devices s' = \<lparr>dev_name = ?z, dev_major = major, dev_minor = 0,
      dev_type = typ, dev_size = 0, dev_data = data, dev_ops = ops\<rparr> # devices s"
    using assms(3) registered_name [OF assms(1,2), of r] z
    by (auto simp: device_register_def reg_malloc_def bindP_def throw_def ret_def gets_def modify_def
        the_or_ub_def split: prod.splits if_splits)
  have "\<exists>dev. device_find (nm @ 0 # r') s' = (Val (Some dev), s') \<and> dev_major dev = major \<and>
      major = next_major s \<and> dev_type dev = typ \<and> dev_ops dev = ops \<and> dev_data dev = data"
    using strcmp_eq_iff [OF assms(1,1)] s'
    by (auto simp: device_find_def exec_simps the_or_ub_def)
  moreover have "\<forall>other. cstr other \<and> other \<noteq> nm \<longrightarrow>
      fst (device_find (other @ 0 # r') s') = fst (device_find (other @ 0 # r') s)"
  proof (intro allI impI)
    fix other assume o: "cstr other \<and> other \<noteq> nm"
    then obtain k where "strcmp ?z (other @ 0 # r') = Some k" "k \<noteq> 0"
      using strcmp_eq_iff [OF assms(1), of other] by blast
    with s' show "fst (device_find (other @ 0 # r') s') = fst (device_find (other @ 0 # r') s)"
      by (simp add: device_find_def exec_simps the_or_ub_def)
  qed
  ultimately show ?thesis ..
qed

theorem device_register_find_witness:
  "\<exists>s' dev. device_register ([100, 49] @ 0 # []) 1 None None demo_registry = (Val 1, s') \<and>
    device_find ([100, 49] @ 0 # []) s' = (Val (Some dev), s') \<and> dev_major dev = 1"
proof -
  have "fst (device_register ([100, 49] @ 0 # []) 1 None None demo_registry) = Val 1"
    by code_simp
  then obtain s' where s': "device_register ([100, 49] @ 0 # []) 1 None None demo_registry = (Val 1, s')"
    by (cases "device_register ([100, 49] @ 0 # []) 1 None None demo_registry") simp
  have "cstr [100, 49]" "length [100 :: u8, 49] < MAX_STRING_LEN - 1"
    by (simp_all add: MAX_STRING_LEN_def)
  from device_register_find [OF this s', of "[]"] s' show ?thesis by auto
qed

text \<open>
  \<^verbatim>\<open>ramdisk_init\<close> never registers a RAM disk: it asks \<^verbatim>\<open>malloc\<close> for 16 MB, the
  heap has 1 MB, and the function returns after consuming at most the block of the structure.
\<close>

theorem ramdisk_init_registers_nothing:
  assumes "heap_inv (reg_heap s)"
  shows "\<exists>h. ramdisk_init s = (Val (), s\<lparr>reg_heap := h\<rparr>)"
proof -
  have big: "malloc (16 * 1024 * 1024) pos = (None, pos)" if "heap_inv pos" for pos
    using malloc_cases(1) [OF that, of "16 * 1024 * 1024"] by simp
  show ?thesis
    using heap_inv_malloc [OF assms, of sizeof_ramdisk] big
    by (auto simp: ramdisk_init_def reg_malloc_def bindP_def ret_def split: prod.splits)
qed

theorem ramdisk_init_registers_nothing_witness:
  "\<exists>h. ramdisk_init demo_registry = (Val (), demo_registry\<lparr>reg_heap := h\<rparr>)"
  by (rule ramdisk_init_registers_nothing) (simp add: demo_registry_def)

text \<open>
  The adapter rejects every access to a device whose operations table is the one of the RAM
  disk.  It looks for the block functions in the first slots of the table, where the layout of
  \<^verbatim>\<open>device.c\<close> has the character functions, which the RAM disk leaves null.
\<close>

theorem wrapper_rejects_ramdisk:
  assumes "dev_ops dev = Some ramdisk_ops"
  shows "block_device_wrapper_read (Some dev) n buf = Some (ERR_INVALID, buf) \<and>
    block_device_wrapper_write (Some dev) n buf = Some (ERR_INVALID, Some dev) \<and>
    block_device_wrapper_get_block_size (Some dev) = Some 512 \<and>
    block_device_wrapper_get_num_blocks (Some dev) = Some 0"
  using assms
  by (simp add: block_device_wrapper_read_def block_device_wrapper_write_def
      block_device_wrapper_get_block_size_def block_device_wrapper_get_num_blocks_def
      wrapper_slot_def table_slot_def ramdisk_ops_def)

theorem wrapper_rejects_ramdisk_witness:
  "block_device_wrapper_read (Some \<lparr>dev_name = ramdisk_name, dev_major = 1, dev_minor = 0,
      dev_type = DEVICE_BLOCK, dev_size = 0, dev_data = None, dev_ops = Some ramdisk_ops\<rparr>) 1 None =
    Some (ERR_INVALID, None)"
  by (subst wrapper_rejects_ramdisk [THEN conjunct1]) simp_all

end
