(* ===== verification/Block_Cache.thy ===== *)
theory Block_Cache
  imports Block_Device
begin

text \<open>
  The block cache, \<^verbatim>\<open>src/fs/block_cache.c\<close> and \<^verbatim>\<open>src/include/block_cache.h\<close>.

  The entries are the array of the source; a pointer to an entry is its index, and the links of
  the LRU list are indices.  The state of the device is the field \<^verbatim>\<open>device_data\<close> of the
  block device the cache was created on.  Every operation is a program on the cache; it gets
  the value of \<^verbatim>\<open>system_time\<close> where it reads that variable.
\<close>

section \<open>State\<close>

definition BLOCK_CACHE_SIZE :: nat where "BLOCK_CACHE_SIZE = 256"

record cache_entry =
  e_block_num :: u64
  e_data :: bytes
  e_dirty :: bool
  e_valid :: bool
  e_last_access :: u64
  e_next :: "nat option"
  e_prev :: "nat option"

record 'd block_cache =
  entries :: "cache_entry list"
  lru_head :: "nat option"
  lru_tail :: "nat option"
  cache_device :: "'d block_device option"
  cache_hits :: u64
  cache_misses :: u64
  cache_block_size :: u64

definition entry :: "'d block_cache \<Rightarrow> nat \<Rightarrow> cache_entry" where
  "entry c i = entries c ! i"

definition upd_entry :: "nat \<Rightarrow> (cache_entry \<Rightarrow> cache_entry) \<Rightarrow> 'd block_cache \<Rightarrow> 'd block_cache" where
  "upd_entry i f c = c\<lparr>entries := (entries c)[i := f (entries c ! i)]\<rparr>"

section \<open>The LRU list\<close>

definition lru_remove :: "nat \<Rightarrow> 'd block_cache \<Rightarrow> 'd block_cache" where
  "lru_remove i c =
     (let e = entry c i;
          c1 = (case e_prev e of
                  Some p \<Rightarrow> upd_entry p (\<lambda>x. x\<lparr>e_next := e_next e\<rparr>) c
                | None \<Rightarrow> c\<lparr>lru_head := e_next e\<rparr>);
          c2 = (case e_next e of
                  Some q \<Rightarrow> upd_entry q (\<lambda>x. x\<lparr>e_prev := e_prev e\<rparr>) c1
                | None \<Rightarrow> c1\<lparr>lru_tail := e_prev e\<rparr>)
      in upd_entry i (\<lambda>x. x\<lparr>e_prev := None, e_next := None\<rparr>) c2)"

definition lru_add_front :: "nat \<Rightarrow> 'd block_cache \<Rightarrow> 'd block_cache" where
  "lru_add_front i c =
     (let c1 = upd_entry i (\<lambda>x. x\<lparr>e_prev := None, e_next := lru_head c\<rparr>) c;
          c2 = (case lru_head c1 of
                  Some h \<Rightarrow> upd_entry h (\<lambda>x. x\<lparr>e_prev := Some i\<rparr>) c1
                | None \<Rightarrow> c1\<lparr>lru_tail := Some i\<rparr>)
      in c2\<lparr>lru_head := Some i\<rparr>)"

section \<open>Looking up entries\<close>

definition cache_find :: "u64 \<Rightarrow> 'd block_cache \<Rightarrow> nat option" where
  "cache_find n c =
     find (\<lambda>i. e_valid (entry c i) \<and> e_block_num (entry c i) = n) [0..<BLOCK_CACHE_SIZE]"

definition cache_find_lru :: "'d block_cache \<Rightarrow> nat option" where
  "cache_find_lru c = lru_tail c"

text \<open>The entry to reuse: the tail of the LRU list, or else the first entry not in use.\<close>

definition cache_victim :: "'d block_cache \<Rightarrow> nat option" where
  "cache_victim c = (case cache_find_lru c of
     Some i \<Rightarrow> Some i
   | None \<Rightarrow> find (\<lambda>i. \<not> e_valid (entry c i)) [0..<BLOCK_CACHE_SIZE])"

definition get_device_ops :: "'d block_device option \<Rightarrow> 'd block_device_ops option" where
  "get_device_ops device = (case device of None \<Rightarrow> None | Some bd \<Rightarrow> device_ops bd)"

section \<open>Operations\<close>

text \<open>Call the device; the cache keeps the device's new state.\<close>

definition call_read_block :: "nat \<Rightarrow> u64 \<Rightarrow> ('d block_cache, unit) prog" where
  "call_read_block i n =
     bindP (gets (\<lambda>c. (cache_device c, e_data (entry c i)))) (\<lambda>(dev, buf).
     case (dev, get_device_ops dev) of
       (Some bd, Some ops) \<Rightarrow>
         (case op_read_block ops of
            None \<Rightarrow> throw ERR_INVALID
          | Some f \<Rightarrow>
              bindP (the_or_ub (f (device_data bd) n (Some buf))) (\<lambda>(r, buf').
              bindP (modify (upd_entry i (\<lambda>e. e\<lparr>e_data := case buf' of None \<Rightarrow> buf | Some b \<Rightarrow> b\<rparr>))) (\<lambda>_.
              if r < 0 then throw r else ret ())))
     | _ \<Rightarrow> throw ERR_INVALID)"

definition cache_flush_entry :: "nat \<Rightarrow> ('d block_cache, unit) prog" where
  "cache_flush_entry i =
     bindP (gets (\<lambda>c. (cache_device c, entry c i))) (\<lambda>(dev, e).
     if \<not> e_dirty e \<or> \<not> e_valid e then ret ()
     else case (dev, get_device_ops dev) of
       (Some bd, Some ops) \<Rightarrow>
         (case op_write_block ops of
            None \<Rightarrow> throw ERR_INVALID
          | Some f \<Rightarrow>
              bindP (the_or_ub (f (device_data bd) (e_block_num e) (Some (e_data e)))) (\<lambda>(r, d').
              bindP (modify (\<lambda>c. c\<lparr>cache_device := Some (bd\<lparr>device_data := d'\<rparr>)\<rparr>)) (\<lambda>_.
              if r < 0 then throw r
              else modify (upd_entry i (\<lambda>e. e\<lparr>e_dirty := False\<rparr>)))))
     | _ \<Rightarrow> throw ERR_INVALID)"

text \<open>Flush an entry that is about to be reused, whatever comes of it, and unlink it.\<close>

definition cache_evict :: "nat \<Rightarrow> ('d block_cache, unit) prog" where
  "cache_evict i =
     bindP (gets (\<lambda>c. entry c i)) (\<lambda>e.
     bindP (whenP (e_valid e \<and> e_dirty e) (ignoreP (cache_flush_entry i))) (\<lambda>_.
     whenP (e_valid e) (modify (lru_remove i))))"

definition return_block_size :: "('d block_cache, i32) prog" where
  "return_block_size = bindP (gets cache_block_size) ret_i32"

definition block_cache_read :: "u64 \<Rightarrow> u64 \<Rightarrow> bytes option \<Rightarrow> ('d block_cache, i32 \<times> bytes) prog" where
  "block_cache_read now n buffer = (case buffer of None \<Rightarrow> throw ERR_INVALID | Some buf \<Rightarrow>
     bindP (gets (cache_find n)) (\<lambda>found. case found of
       Some i \<Rightarrow>
         bindP (modify (\<lambda>c. c\<lparr>cache_hits := cache_hits c + 1\<rparr>)) (\<lambda>_.
         bindP (gets (\<lambda>c. memcpy buf 0 (e_data (entry c i)) 0 (unat (cache_block_size c)))) (\<lambda>m.
         bindP (the_or_ub m) (\<lambda>buf'.
         bindP (modify (upd_entry i (\<lambda>e. e\<lparr>e_last_access := now\<rparr>))) (\<lambda>_.
         bindP (modify (lru_remove i)) (\<lambda>_.
         bindP (modify (lru_add_front i)) (\<lambda>_.
         bindP return_block_size (\<lambda>r. ret (r, buf'))))))))
     | None \<Rightarrow>
         bindP (modify (\<lambda>c. c\<lparr>cache_misses := cache_misses c + 1\<rparr>)) (\<lambda>_.
         bindP (gets cache_victim) (\<lambda>v. case v of None \<Rightarrow> throw ERR_BUSY | Some i \<Rightarrow>
         bindP (cache_evict i) (\<lambda>_.
         bindP (call_read_block i n) (\<lambda>_.
         bindP (modify (upd_entry i (\<lambda>e. e\<lparr>e_block_num := n, e_valid := True, e_dirty := False,
                                            e_last_access := now\<rparr>))) (\<lambda>_.
         bindP (modify (lru_add_front i)) (\<lambda>_.
         bindP (gets (\<lambda>c. memcpy buf 0 (e_data (entry c i)) 0 (unat (cache_block_size c)))) (\<lambda>m.
         bindP (the_or_ub m) (\<lambda>buf'.
         bindP return_block_size (\<lambda>r. ret (r, buf'))))))))))))"

definition block_cache_write :: "u64 \<Rightarrow> u64 \<Rightarrow> bytes option \<Rightarrow> ('d block_cache, i32) prog" where
  "block_cache_write now n buffer = (case buffer of None \<Rightarrow> throw ERR_INVALID | Some buf \<Rightarrow>
     bindP (gets (cache_find n)) (\<lambda>found.
     bindP (case found of
         None \<Rightarrow>
           bindP (gets cache_victim) (\<lambda>v. case v of None \<Rightarrow> throw ERR_BUSY | Some i \<Rightarrow>
           bindP (cache_evict i) (\<lambda>_.
           bindP (modify (upd_entry i (\<lambda>e. e\<lparr>e_block_num := n, e_valid := True\<rparr>))) (\<lambda>_.
           ret i)))
       | Some i \<Rightarrow> bindP (modify (lru_remove i)) (\<lambda>_. ret i)) (\<lambda>i.
     bindP (gets (\<lambda>c. memcpy (e_data (entry c i)) 0 buf 0 (unat (cache_block_size c)))) (\<lambda>m.
     bindP (the_or_ub m) (\<lambda>data'.
     bindP (modify (upd_entry i (\<lambda>e. e\<lparr>e_data := data', e_dirty := True,
                                        e_last_access := now\<rparr>))) (\<lambda>_.
     bindP (modify (lru_add_front i)) (\<lambda>_.
     return_block_size)))))))"

text \<open>The loop of \<^verbatim>\<open>block_cache_flush\<close>: the number of entries whose write failed.\<close>

fun flush_from :: "nat list \<Rightarrow> nat \<Rightarrow> ('d block_cache, nat) prog" where
  "flush_from [] errors = ret errors"
| "flush_from (i # is) errors =
     bindP (gets (\<lambda>c. entry c i)) (\<lambda>e.
     if e_valid e \<and> e_dirty e
     then bindP (catch (bindP (cache_flush_entry i) (\<lambda>_. ret (0 :: nat))) (\<lambda>_. ret 1)) (\<lambda>k.
          flush_from is (errors + k))
     else flush_from is errors)"

definition block_cache_flush :: "('d block_cache, i32) prog" where
  "block_cache_flush =
     bindP (flush_from [0..<BLOCK_CACHE_SIZE] 0) (\<lambda>errors.
     if errors > 0 then throw ERR_INVALID else ret ERR_SUCCESS)"

definition block_cache_invalidate :: "u64 \<Rightarrow> ('d block_cache, i32) prog" where
  "block_cache_invalidate n =
     bindP (gets (cache_find n)) (\<lambda>found. case found of
       None \<Rightarrow> ret ERR_SUCCESS
     | Some i \<Rightarrow>
         bindP (gets (\<lambda>c. entry c i)) (\<lambda>e.
         bindP (whenP (e_dirty e) (ignoreP (cache_flush_entry i))) (\<lambda>_.
         bindP (modify (lru_remove i)) (\<lambda>_.
         bindP (modify (upd_entry i (\<lambda>e. e\<lparr>e_valid := False\<rparr>))) (\<lambda>_.
         ret ERR_SUCCESS)))))"

definition block_cache_stats :: "'d block_cache \<Rightarrow> u64 \<times> u64" where
  "block_cache_stats c = (cache_hits c, cache_misses c)"

text \<open>Creation takes one block for the structure and one per entry from the heap.\<close>

definition sizeof_block_cache :: u64 where "sizeof_block_cache = 12336"

fun alloc_entries :: "nat \<Rightarrow> u64 \<Rightarrow> u64 \<Rightarrow> cache_entry list option \<times> u64" where
  "alloc_entries 0 block_size heap_pos = (Some [], heap_pos)"
| "alloc_entries (Suc k) block_size heap_pos = (case malloc block_size heap_pos of
     (None, h) \<Rightarrow> (None, h)
   | (Some _, h) \<Rightarrow> (case alloc_entries k block_size h of
       (None, h') \<Rightarrow> (None, h')
     | (Some es, h') \<Rightarrow>
         (Some (\<lparr>e_block_num = 0, e_data = replicate (unat block_size) 0, e_dirty = False,
                  e_valid = False, e_last_access = 0, e_next = None, e_prev = None\<rparr> # es), h')))"

definition block_cache_create ::
  "'d block_device option \<Rightarrow> u64 \<Rightarrow> u64 \<Rightarrow> 'd block_cache option \<times> u64" where
  "block_cache_create device block_size heap_pos = (case malloc sizeof_block_cache heap_pos of
     (None, h) \<Rightarrow> (None, h)
   | (Some _, h) \<Rightarrow> (case alloc_entries BLOCK_CACHE_SIZE block_size h of
       (None, h') \<Rightarrow> (None, h')
     | (Some es, h') \<Rightarrow>
         (Some \<lparr>entries = es, lru_head = None, lru_tail = None, cache_device = device,
                cache_hits = 0, cache_misses = 0, cache_block_size = block_size\<rparr>, h')))"

text \<open>Destroying the cache flushes it; the memory is not reused.\<close>

definition block_cache_destroy :: "('d block_cache, unit) prog" where
  "block_cache_destroy = ignoreP block_cache_flush"

section \<open>Entries and the LRU list\<close>

lemma upd_entry_fields [simp]:
  "lru_head (upd_entry i f c) = lru_head c" "lru_tail (upd_entry i f c) = lru_tail c"
  "cache_device (upd_entry i f c) = cache_device c"
  "cache_block_size (upd_entry i f c) = cache_block_size c"
  "length (entries (upd_entry i f c)) = length (entries c)"
  by (simp_all add: upd_entry_def)

lemma entry_upd_entry:
  "i < length (entries c) \<Longrightarrow>
    entry (upd_entry i f c) j = (if j = i then f (entry c i) else entry c j)"
  by (auto simp: upd_entry_def entry_def)

lemma entry_update_other [simp]:
  "entry (c\<lparr>lru_head := h\<rparr>) i = entry c i" "entry (c\<lparr>lru_tail := h\<rparr>) i = entry c i"
  "entry (c\<lparr>cache_device := d\<rparr>) i = entry c i" "entry (c\<lparr>cache_hits := k\<rparr>) i = entry c i"
  "entry (c\<lparr>cache_misses := k\<rparr>) i = entry c i"
  by (simp_all add: entry_def)

lemma cache_find_SomeD:
  "cache_find n c = Some i \<Longrightarrow> i < BLOCK_CACHE_SIZE \<and> e_valid (entry c i) \<and> e_block_num (entry c i) = n"
  by (auto simp: cache_find_def find_Some_iff)

lemma cache_find_None_iff:
  "cache_find n c = None \<longleftrightarrow>
    (\<forall>i < BLOCK_CACHE_SIZE. \<not> (e_valid (entry c i) \<and> e_block_num (entry c i) = n))"
  by (auto simp: cache_find_def find_None_iff)

text \<open>
  The LRU list is empty or has a single entry: head and tail agree, no entry is linked, and
  the listed entry is in use.
\<close>

definition lru_inv :: "'d block_cache \<Rightarrow> bool" where
  "lru_inv c = (length (entries c) = BLOCK_CACHE_SIZE \<and>
     (\<forall>i < BLOCK_CACHE_SIZE. e_next (entry c i) = None \<and> e_prev (entry c i) = None) \<and>
     lru_head c = lru_tail c \<and>
     (\<forall>i. lru_tail c = Some i \<longrightarrow> i < BLOCK_CACHE_SIZE \<and> e_valid (entry c i)))"

lemma lru_invD:
  assumes "lru_inv c"
  shows "length (entries c) = BLOCK_CACHE_SIZE"
    and "i < BLOCK_CACHE_SIZE \<Longrightarrow> e_next (entry c i) = None"
    and "i < BLOCK_CACHE_SIZE \<Longrightarrow> e_prev (entry c i) = None"
    and "lru_head c = lru_tail c"
    and "lru_tail c = Some i \<Longrightarrow> i < BLOCK_CACHE_SIZE"
    and "lru_tail c = Some i \<Longrightarrow> e_valid (entry c i)"
  using assms by (auto simp: lru_inv_def)

lemmas lru_inv_links = lru_invD(2,3)

text \<open>Removing any entry of such a cache empties the list.\<close>

lemma upd_entry_id:
  "i < length (entries c) \<Longrightarrow> f (entry c i) = entry c i \<Longrightarrow> upd_entry i f c = c"
  by (simp add: upd_entry_def entry_def list_update_id)

lemma lru_remove_eq:
  assumes "lru_inv c" "i < BLOCK_CACHE_SIZE"
  shows "lru_remove i c = c\<lparr>lru_head := None, lru_tail := None\<rparr>"
proof -
  have n: "e_next (entry c i) = None" "e_prev (entry c i) = None"
    using assms by (auto dest: lru_invD)
  then have "(entry c i)\<lparr>e_prev := None, e_next := None\<rparr> = entry c i"
    by (cases "entry c i") simp
  then show ?thesis
    using n assms(2) lru_invD(1) [OF assms(1)]
    by (simp add: lru_remove_def Let_def upd_entry_id)
qed

lemma lru_add_front_eq:
  assumes "lru_head c = None" "i < length (entries c)"
    "e_next (entry c i) = None" "e_prev (entry c i) = None"
  shows "lru_add_front i c = c\<lparr>lru_head := Some i, lru_tail := Some i\<rparr>"
proof -
  have "(entry c i)\<lparr>e_prev := None, e_next := None\<rparr> = entry c i"
    using assms by (cases "entry c i") simp
  with assms show ?thesis
    by (simp add: lru_add_front_def Let_def upd_entry_id)
qed

lemma lru_inv_upd_entry:
  assumes "lru_inv c" "i < BLOCK_CACHE_SIZE"
    and "e_next (f (entry c i)) = None" "e_prev (f (entry c i)) = None"
    and "lru_tail c = Some i \<Longrightarrow> e_valid (f (entry c i))"
  shows "lru_inv (upd_entry i f c)"
  using assms by (auto simp: lru_inv_def entry_upd_entry)

lemma lru_inv_other [simp]:
  "lru_inv (c\<lparr>cache_hits := k\<rparr>) = lru_inv c" "lru_inv (c\<lparr>cache_misses := k\<rparr>) = lru_inv c"
  "lru_inv (c\<lparr>cache_device := d\<rparr>) = lru_inv c"
  by (simp_all add: lru_inv_def)

lemma lru_inv_emptied: "lru_inv c \<Longrightarrow> lru_inv (c\<lparr>lru_head := None, lru_tail := None\<rparr>)"
  by (auto simp: lru_inv_def)

lemma lru_inv_single:
  "lru_inv c \<Longrightarrow> i < BLOCK_CACHE_SIZE \<Longrightarrow> e_valid (entry c i) \<Longrightarrow>
    lru_inv (c\<lparr>lru_head := Some i, lru_tail := Some i\<rparr>)"
  by (auto simp: lru_inv_def)

lemma lru_inv_add_front:
  assumes "lru_inv c" "lru_tail c = None" "i < BLOCK_CACHE_SIZE" "e_valid (entry c i)"
  shows "lru_inv (lru_add_front i c)"
  using assms lru_invD [OF assms(1)] by (simp add: lru_add_front_eq lru_inv_single)

lemma cache_victim_SomeD:
  "lru_inv c \<Longrightarrow> cache_victim c = Some i \<Longrightarrow>
    i < BLOCK_CACHE_SIZE \<and> (lru_tail c = Some i \<and> e_valid (entry c i) \<or>
      lru_tail c = None \<and> \<not> e_valid (entry c i))"
  by (auto simp: cache_victim_def cache_find_lru_def find_Some_iff lru_inv_def split: option.splits)

section \<open>The LRU list never grows beyond one entry, whatever the device does\<close>

lemma flush_entry_lru:
  assumes "lru_inv c" "i < BLOCK_CACHE_SIZE"
  shows "wlp (cache_flush_entry i)
    (\<lambda>_ c'. lru_inv c' \<and> lru_tail c' = lru_tail c \<and> (\<forall>j. e_valid (entry c' j) = e_valid (entry c j)))
    (\<lambda>_ c'. lru_inv c' \<and> lru_tail c' = lru_tail c \<and> (\<forall>j. e_valid (entry c' j) = e_valid (entry c j)))
    c"
  using assms lru_invD [OF assms(1)]
  by (auto simp: cache_flush_entry_def wlp_simps entry_upd_entry
      intro!: lru_inv_upd_entry split: option.split)

lemma read_block_lru:
  assumes "lru_inv c" "i < BLOCK_CACHE_SIZE"
  shows "wlp (call_read_block i n)
    (\<lambda>_ c'. lru_inv c' \<and> lru_tail c' = lru_tail c) (\<lambda>_ c'. lru_inv c' \<and> lru_tail c' = lru_tail c) c"
  using assms lru_invD [OF assms(1)]
  by (auto simp: call_read_block_def wlp_simps intro!: lru_inv_upd_entry split: option.split)

lemma evict_lru:
  assumes "lru_inv c" "cache_victim c = Some i"
  shows "wlp (cache_evict i) (\<lambda>_ c'. lru_inv c' \<and> lru_tail c' = None) E c"
proof -
  note v = cache_victim_SomeD [OF assms]
  show ?thesis
    using assms(1) v
    by (auto simp: cache_evict_def wlp_simps lru_remove_eq lru_inv_emptied
        intro!: wlp_conseq [OF flush_entry_lru])
qed

lemma return_block_size_lru:
  "lru_inv c \<Longrightarrow> wlp return_block_size (\<lambda>_. lru_inv) (\<lambda>_. lru_inv) c"
  by (simp add: return_block_size_def wlp_simps)

lemma hit_lru:
  assumes "lru_inv c" "cache_find n c = Some i"
  shows "lru_inv (lru_add_front i (lru_remove i (upd_entry i (\<lambda>e. e\<lparr>e_last_access := now\<rparr>) c)))"
proof -
  note f = cache_find_SomeD [OF assms(2)]
  have "lru_inv (upd_entry i (\<lambda>e. e\<lparr>e_last_access := now\<rparr>) c)" (is "lru_inv ?c")
    using assms f by (intro lru_inv_upd_entry) (simp_all add: lru_inv_links)
  moreover have "e_valid (entry ?c i)"
    using f lru_invD(1) [OF assms(1)] by (simp add: entry_upd_entry)
  ultimately show ?thesis
    using f by (simp add: lru_remove_eq lru_inv_add_front lru_inv_emptied)
qed

lemma install_lru:
  assumes "lru_inv c" "lru_tail c = None" "i < BLOCK_CACHE_SIZE"
    and "e_valid (f (entry c i))" "e_next (f (entry c i)) = None" "e_prev (f (entry c i)) = None"
  shows "lru_inv (lru_add_front i (upd_entry i f c))"
  using assms lru_invD(1) [OF assms(1)]
  by (auto intro!: lru_inv_add_front lru_inv_upd_entry simp: entry_upd_entry)

lemma block_cache_read_lru:
  assumes "lru_inv c"
  shows "wlp (block_cache_read now n buffer) (\<lambda>_. lru_inv) (\<lambda>_. lru_inv) c"
proof (cases buffer)
  case None
  with assms show ?thesis by (simp add: block_cache_read_def wlp_simps)
next
  case (Some buf)
  show ?thesis
  proof (cases "cache_find n c")
    case (Some i)
    with assms \<open>buffer = Some buf\<close> show ?thesis
      by (auto simp: block_cache_read_def wlp_simps return_block_size_def hit_lru
          cache_find_def intro!: hit_lru [where n = n])
  next
    case None
    have v: "cache_victim (c\<lparr>cache_misses := k\<rparr>) = cache_victim c" for k
      by (simp add: cache_victim_def cache_find_lru_def split: option.split)
    show ?thesis
    proof (cases "cache_victim c")
      case None
      with assms \<open>buffer = Some buf\<close> \<open>cache_find n c = None\<close> v show ?thesis
        by (simp add: block_cache_read_def wlp_simps)
    next
      case (Some i)
      note i = cache_victim_SomeD [OF assms Some]
      have rb: "wlp (call_read_block i n)
          (\<lambda>_ s. lru_inv (lru_add_front i (upd_entry i (\<lambda>e. e\<lparr>e_block_num := n, e_valid := True,
             e_dirty := False, e_last_access := now\<rparr>) s))) (\<lambda>_. lru_inv) c'"
        if "lru_inv c'" "lru_tail c' = None" for c'
        using i that
        by (intro wlp_conseq [OF read_block_lru] install_lru) (simp_all add: lru_inv_links)
      show ?thesis
        using assms Some \<open>buffer = Some buf\<close> \<open>cache_find n c = None\<close> v
        by (auto simp: block_cache_read_def wlp_simps return_block_size_def
            intro!: wlp_conseq [OF evict_lru] wlp_conseq [OF rb])
    qed
  qed
qed

lemma block_cache_write_lru:
  assumes "lru_inv c"
  shows "wlp (block_cache_write now n buffer) (\<lambda>_. lru_inv) (\<lambda>_. lru_inv) c"
proof (cases buffer)
  case None
  with assms show ?thesis by (simp add: block_cache_write_def wlp_simps)
next
  case (Some buf)
  have tail: "lru_inv (lru_add_front i (upd_entry i (\<lambda>e. e\<lparr>e_data := d, e_dirty := True,
       e_last_access := now\<rparr>) c'))"
    if "lru_inv c'" "lru_tail c' = None" "i < BLOCK_CACHE_SIZE" "e_valid (entry c' i)" for c' i d
    using that by (intro install_lru) (simp_all add: lru_inv_links)
  show ?thesis
  proof (cases "cache_find n c")
    case (Some i)
    note f = cache_find_SomeD [OF Some]
    with Some assms \<open>buffer = Some buf\<close> show ?thesis
      by (auto simp: block_cache_write_def wlp_simps return_block_size_def lru_remove_eq
          intro!: tail lru_inv_emptied)
  next
    case None
    show ?thesis
    proof (cases "cache_victim c")
      case None
      with assms \<open>buffer = Some buf\<close> \<open>cache_find n c = None\<close> show ?thesis
        by (simp add: block_cache_write_def wlp_simps)
    next
      case (Some i)
      note i = cache_victim_SomeD [OF assms Some]
      have "lru_inv (upd_entry i (\<lambda>e. e\<lparr>e_block_num := n, e_valid := True\<rparr>) c')"
        if "lru_inv c'" "lru_tail c' = None" for c'
        using i that by (intro lru_inv_upd_entry) (simp_all add: lru_inv_links)
      then show ?thesis
        using assms Some i \<open>buffer = Some buf\<close> \<open>cache_find n c = None\<close>
        by (auto simp: block_cache_write_def wlp_simps return_block_size_def entry_upd_entry
            lru_invD(1) intro!: wlp_conseq [OF evict_lru] tail)
    qed
  qed
qed

lemma flush_from_lru:
  "lru_inv c \<Longrightarrow> set is \<subseteq> {0..<BLOCK_CACHE_SIZE} \<Longrightarrow>
    wlp (flush_from is k) (\<lambda>_. lru_inv) (\<lambda>_. lru_inv) c"
proof (induction "is" arbitrary: c k)
  case Nil
  then show ?case by (simp add: wlp_simps)
next
  case (Cons i "is")
  then show ?case
    by (auto simp: wlp_simps intro!: wlp_conseq [OF flush_entry_lru])
qed

lemma block_cache_flush_lru:
  "lru_inv c \<Longrightarrow> wlp block_cache_flush (\<lambda>_. lru_inv) (\<lambda>_. lru_inv) c"
  unfolding block_cache_flush_def wlp_simps
  by (rule wlp_conseq [OF flush_from_lru]) auto

lemma block_cache_invalidate_lru:
  assumes "lru_inv c"
  shows "wlp (block_cache_invalidate n) (\<lambda>_. lru_inv) (\<lambda>_. lru_inv) c"
proof (cases "cache_find n c")
  case None
  with assms show ?thesis by (simp add: block_cache_invalidate_def wlp_simps)
next
  case (Some i)
  note f = cache_find_SomeD [OF Some]
  have *: "lru_inv (upd_entry i (\<lambda>e. e\<lparr>e_valid := False\<rparr>) (lru_remove i c'))" if "lru_inv c'" for c'
    using that f lru_inv_emptied [OF that]
    by (auto simp: lru_remove_eq lru_inv_links intro!: lru_inv_upd_entry)
  with assms Some f show ?thesis
    by (auto simp: block_cache_invalidate_def wlp_simps intro!: wlp_conseq [OF flush_entry_lru])
qed

section \<open>Histories of a cache\<close>

datatype cache_op = Read u64 u64 "bytes option" | Write u64 u64 "bytes option" | Flush | Invalidate u64

text \<open>One call of an operation, and the states a created cache reaches by defined calls.\<close>

fun run_cache_op :: "cache_op \<Rightarrow> ('d block_cache, unit) prog" where
  "run_cache_op (Read now n buf) = bindP (block_cache_read now n buf) (\<lambda>_. ret ())"
| "run_cache_op (Write now n buf) = bindP (block_cache_write now n buf) (\<lambda>_. ret ())"
| "run_cache_op Flush = bindP block_cache_flush (\<lambda>_. ret ())"
| "run_cache_op (Invalidate n) = bindP (block_cache_invalidate n) (\<lambda>_. ret ())"

inductive cache_reach :: "'d block_device option \<Rightarrow> u64 \<Rightarrow> 'd block_cache \<Rightarrow> bool"
  for device :: "'d block_device option" and block_size :: u64 where
  created: "block_cache_create device block_size heap_pos = (Some c, h) \<Longrightarrow>
     cache_reach device block_size c"
| op: "cache_reach device block_size c \<Longrightarrow> run_cache_op op c = (r, c') \<Longrightarrow> r \<noteq> UB \<Longrightarrow>
     cache_reach device block_size c'"

lemma alloc_entries_Some:
  "alloc_entries k block_size heap_pos = (Some es, h) \<Longrightarrow>
    es = replicate k \<lparr>e_block_num = 0, e_data = replicate (unat block_size) 0, e_dirty = False,
      e_valid = False, e_last_access = 0, e_next = None, e_prev = None\<rparr>"
  by (induction k arbitrary: heap_pos es h) (auto split: prod.splits option.splits)

lemma block_cache_create_Some:
  assumes "block_cache_create device block_size heap_pos = (Some c, h)"
  shows "c = \<lparr>entries = replicate BLOCK_CACHE_SIZE \<lparr>e_block_num = 0,
      e_data = replicate (unat block_size) 0, e_dirty = False, e_valid = False, e_last_access = 0,
      e_next = None, e_prev = None\<rparr>, lru_head = None, lru_tail = None, cache_device = device,
      cache_hits = 0, cache_misses = 0, cache_block_size = block_size\<rparr>"
  using assms by (auto simp: block_cache_create_def dest: alloc_entries_Some split: prod.splits option.splits)

lemma create_lru: "block_cache_create device block_size heap_pos = (Some c, h) \<Longrightarrow> lru_inv c"
  by (drule block_cache_create_Some) (simp add: lru_inv_def entry_def)

text \<open>Creation succeeds when the heap has room.\<close>

lemma alloc_entries_succeeds:
  assumes "heap_inv pos" "unat pos + k * (unat block_size + 15) \<le> unat HEAP_SIZE"
  shows "\<exists>es h. alloc_entries k block_size pos = (Some es, h)"
  using assms
proof (induction k arbitrary: pos)
  case 0
  then show ?case by simp
next
  case (Suc k)
  have le: "unat pos + unat block_size \<le> 1048576" "unat block_size \<le> 2 ^ 32"
    using Suc.prems(2) by simp_all
  note m = malloc_cases [OF Suc.prems(1) le(2)]
  have "heap_inv (ALIGN_UP (pos + block_size) 16)"
    using heap_inv_malloc [OF Suc.prems(1), of block_size] m(1) le by simp
  moreover have "unat (ALIGN_UP (pos + block_size) 16) + k * (unat block_size + 15) \<le> unat HEAP_SIZE"
    using Suc.prems(2) m(2) [OF le(1)] by simp
  ultimately obtain es h where "alloc_entries k block_size (ALIGN_UP (pos + block_size) 16) = (Some es, h)"
    using Suc.IH by blast
  with m(1) le show ?case by simp
qed

lemma block_cache_create_succeeds:
  assumes "heap_inv pos" "unat pos + 12351 + BLOCK_CACHE_SIZE * (unat block_size + 15) \<le> unat HEAP_SIZE"
  shows "\<exists>c h. block_cache_create device block_size pos = (Some c, h)"
proof -
  have le: "unat pos + unat sizeof_block_cache \<le> 1048576" "unat sizeof_block_cache \<le> 2 ^ 32"
    using assms(2) by (simp_all add: sizeof_block_cache_def)
  note m = malloc_cases [OF assms(1) le(2)]
  let ?p = "ALIGN_UP (pos + sizeof_block_cache) 16"
  have "heap_inv ?p"
    using heap_inv_malloc [OF assms(1), of sizeof_block_cache] m(1) le by simp
  moreover have "unat ?p + BLOCK_CACHE_SIZE * (unat block_size + 15) \<le> unat HEAP_SIZE"
    using assms(2) m(2) [OF le(1)] by (simp add: sizeof_block_cache_def)
  ultimately obtain es h where "alloc_entries BLOCK_CACHE_SIZE block_size ?p = (Some es, h)"
    using alloc_entries_succeeds by blast
  with m(1) le show ?thesis by (simp add: block_cache_create_def)
qed

lemma run_cache_op_lru: "lru_inv c \<Longrightarrow> wlp (run_cache_op op) (\<lambda>_. lru_inv) (\<lambda>_. lru_inv) c"
  by (cases op) (simp_all add: wlp_simps block_cache_read_lru block_cache_write_lru
      block_cache_flush_lru block_cache_invalidate_lru)

lemma cache_reach_lru: "cache_reach device block_size c \<Longrightarrow> lru_inv c"
proof (induction rule: cache_reach.induct)
  case (created heap_pos c h)
  then show ?case by (rule create_lru)
next
  case (op c op r c')
  then show ?case using wlpD [OF run_cache_op_lru] by blast
qed

text \<open>
  C27.  In every state that a created cache reaches by its operations, on any device and whatever
  its read and write functions return, the LRU list has at most one entry: head and tail are
  the same, and the listed entry is in use and has no neighbours.  So the cache of 256 entries
  evicts the block of the previous access on every miss.
\<close>

theorem cache_holds_one_block:
  assumes "cache_reach device block_size c"
  shows "lru_head c = lru_tail c \<and> length (entries c) = BLOCK_CACHE_SIZE \<and>
    (\<forall>i. lru_tail c = Some i \<longrightarrow> i < BLOCK_CACHE_SIZE \<and> e_valid (entry c i) \<and>
       e_next (entry c i) = None \<and> e_prev (entry c i) = None)"
  using lru_invD [OF cache_reach_lru [OF assms]] by blast

theorem cache_holds_one_block_witness:
  "\<exists>c. cache_reach None 4 (c :: unit block_cache) \<and> lru_head c = lru_tail c \<and>
    length (entries c) = BLOCK_CACHE_SIZE"
proof -
  have "fst (block_cache_create (None :: unit block_device option) 4 0) \<noteq> None" by code_simp
  then obtain c h where "block_cache_create (None :: unit block_device option) 4 0 = (Some c, h)"
    by (cases "block_cache_create (None :: unit block_device option) 4 0") auto
  then have "cache_reach None 4 c" by (rule cache_reach.created)
  with cache_holds_one_block [OF this] show ?thesis by blast
qed

end
