(* ===== verification/Cache_Contract.thy ===== *)
theory Cache_Contract
  imports Block_Cache
begin

text \<open>
  What the block cache promises on top of a device that meets the contract \<open>block_dev\<close>: the
  cache and the device together behave as one array of blocks, the view.  A read returns the
  view's block, a write changes the view at its block only, and after a flush the device holds
  the view.
\<close>

section \<open>Invariant and abstraction\<close>

definition cache_view :: "('d \<Rightarrow> u64 \<Rightarrow> bytes option) \<Rightarrow> 'd block_cache \<Rightarrow> u64 \<Rightarrow> bytes option" where
  "cache_view blk c n = (case cache_find n c of
     Some i \<Rightarrow> Some (e_data (entry c i))
   | None \<Rightarrow> (case cache_device c of None \<Rightarrow> None | Some bd \<Rightarrow> blk (device_data bd) n))"

text \<open>The cache sits on a device with the functions \<open>rd\<close> and \<open>wr\<close> in a good state \<open>d\<close>.\<close>

definition cache_on :: "'d read_fn \<Rightarrow> 'd write_fn \<Rightarrow> nat \<Rightarrow> 'd \<Rightarrow> 'd block_cache \<Rightarrow> bool" where
  "cache_on rd wr bs d c = (lru_inv c \<and> unat (cache_block_size c) = bs \<and> bs < 2 ^ 31 \<and>
     (\<forall>i < BLOCK_CACHE_SIZE. length (e_data (entry c i)) = bs) \<and>
     (case cache_device c of None \<Rightarrow> False | Some bd \<Rightarrow> device_data bd = d \<and>
        (case device_ops bd of None \<Rightarrow> False
         | Some ops \<Rightarrow> op_read_block ops = Some rd \<and> op_write_block ops = Some wr)))"

text \<open>
  The invariant: every entry in use is on the LRU list (so there is at most one), its block
  exists on the device, and a clean entry agrees with the device.
\<close>

definition cache_ok :: "'d read_fn \<Rightarrow> 'd write_fn \<Rightarrow> nat \<Rightarrow> (u64 \<Rightarrow> bool) \<Rightarrow> ('d \<Rightarrow> u64 \<Rightarrow> bytes option) \<Rightarrow>
    ('d \<Rightarrow> bool) \<Rightarrow> 'd block_cache \<Rightarrow> bool" where
  "cache_ok rd wr bs addr blk dinv c = (\<exists>d. cache_on rd wr bs d c \<and> dinv d \<and>
     (\<forall>i < BLOCK_CACHE_SIZE. e_valid (entry c i) \<longrightarrow>
        lru_tail c = Some i \<and> addr (e_block_num (entry c i)) \<and>
        blk d (e_block_num (entry c i)) \<noteq> None \<and>
        (\<not> e_dirty (entry c i) \<longrightarrow> blk d (e_block_num (entry c i)) = Some (e_data (entry c i)))))"

lemma cache_onD:
  assumes "cache_on rd wr bs d c"
  shows "lru_inv c" "unat (cache_block_size c) = bs" "bs < 2 ^ 31"
    and "i < BLOCK_CACHE_SIZE \<Longrightarrow> length (e_data (entry c i)) = bs"
    and "\<exists>bd ops. cache_device c = Some bd \<and> device_data bd = d \<and> device_ops bd = Some ops \<and>
      op_read_block ops = Some rd \<and> op_write_block ops = Some wr"
  using assms by (auto simp: cache_on_def split: option.splits)

lemma cache_on_upd_entry:
  assumes "cache_on rd wr bs d c" "i < BLOCK_CACHE_SIZE" "length (e_data (f (entry c i))) = bs"
    and "e_next (f (entry c i)) = None" "e_prev (f (entry c i)) = None"
    and "lru_tail c = Some i \<Longrightarrow> e_valid (f (entry c i))"
  shows "cache_on rd wr bs d (upd_entry i f c)"
  using assms lru_invD(1) [OF cache_onD(1) [OF assms(1)]]
  by (auto simp: cache_on_def entry_upd_entry intro!: lru_inv_upd_entry)

lemma cache_on_single:
  assumes "cache_on rd wr bs d c" "i < BLOCK_CACHE_SIZE" "e_valid (entry c i)"
  shows "cache_on rd wr bs d (c\<lparr>lru_head := Some i, lru_tail := Some i\<rparr>)"
  using assms by (simp add: cache_on_def lru_inv_single)

lemma cache_on_emptied:
  "cache_on rd wr bs d c \<Longrightarrow> cache_on rd wr bs d (c\<lparr>lru_head := None, lru_tail := None\<rparr>)"
  by (simp add: cache_on_def lru_inv_emptied)

lemma cache_on_other [simp]:
  "cache_on rd wr bs d (c\<lparr>cache_hits := k\<rparr>) = cache_on rd wr bs d c"
  "cache_on rd wr bs d (c\<lparr>cache_misses := k\<rparr>) = cache_on rd wr bs d c"
  by (simp_all add: cache_on_def)

lemma return_block_size_ok:
  assumes "cache_on rd wr bs d c"
  shows "wp return_block_size Q E c = Q (int bs) c"
  using cache_onD(2,3) [OF assms] by (simp add: return_block_size_def wp_simps to_i32_nonneg)

lemma cache_find_single:
  assumes "\<And>i. i < BLOCK_CACHE_SIZE \<Longrightarrow> e_valid (entry c i) \<Longrightarrow> lru_tail c = Some i"
    and "lru_inv c"
  shows "cache_find n c = (case lru_tail c of None \<Rightarrow> None
    | Some i \<Rightarrow> if e_block_num (entry c i) = n then Some i else None)"
proof (cases "cache_find n c")
  case None
  with assms(2) show ?thesis
    by (auto simp: cache_find_None_iff dest: lru_invD split: option.splits)
next
  case (Some i)
  from cache_find_SomeD [OF Some] assms(1) [of i] have "lru_tail c = Some i" "e_block_num (entry c i) = n"
    by auto
  with Some show ?thesis by simp
qed

lemma cache_victim_single:
  assumes "\<And>i. i < BLOCK_CACHE_SIZE \<Longrightarrow> e_valid (entry c i) \<Longrightarrow> lru_tail c = Some i"
  shows "\<exists>i. cache_victim c = Some i"
proof (cases "lru_tail c")
  case None
  have "\<not> e_valid (entry c 0)"
    using assms [of 0] None by (auto simp: BLOCK_CACHE_SIZE_def)
  then have "find (\<lambda>i. \<not> e_valid (entry c i)) [0..<BLOCK_CACHE_SIZE] \<noteq> None"
    by (auto simp: find_None_iff BLOCK_CACHE_SIZE_def intro!: exI [of _ 0])
  with None show ?thesis by (auto simp: cache_victim_def cache_find_lru_def)
next
  case (Some i)
  then show ?thesis by (simp add: cache_victim_def cache_find_lru_def)
qed

section \<open>The cache refines the array of blocks\<close>

context block_dev
begin

abbreviation ok :: "'d block_cache \<Rightarrow> bool" where
  "ok \<equiv> cache_ok rd wr bs addr blk dinv"

abbreviation view :: "'d block_cache \<Rightarrow> u64 \<Rightarrow> bytes option" where
  "view \<equiv> cache_view blk"

abbreviation on :: "'d \<Rightarrow> 'd block_cache \<Rightarrow> bool" where
  "on \<equiv> cache_on rd wr bs"

lemma okE:
  assumes "ok c"
  obtains d where "on d c" "dinv d"
    and "\<And>i. i < BLOCK_CACHE_SIZE \<Longrightarrow> e_valid (entry c i) \<Longrightarrow> lru_tail c = Some i"
    and "\<And>i. lru_tail c = Some i \<Longrightarrow> i < BLOCK_CACHE_SIZE \<and> e_valid (entry c i) \<and>
       addr (e_block_num (entry c i)) \<and> blk d (e_block_num (entry c i)) \<noteq> None \<and>
       (\<not> e_dirty (entry c i) \<longrightarrow> blk d (e_block_num (entry c i)) = Some (e_data (entry c i)))"
proof -
  from assms obtain d where d: "on d c" "dinv d"
    "\<forall>i < BLOCK_CACHE_SIZE. e_valid (entry c i) \<longrightarrow>
        lru_tail c = Some i \<and> addr (e_block_num (entry c i)) \<and>
        blk d (e_block_num (entry c i)) \<noteq> None \<and>
        (\<not> e_dirty (entry c i) \<longrightarrow> blk d (e_block_num (entry c i)) = Some (e_data (entry c i)))"
    by (auto simp: cache_ok_def)
  note inv = lru_invD [OF cache_onD(1) [OF d(1)]]
  show thesis
    by (rule that [OF d(1,2)]) (use d(3) inv in blast)+
qed

lemma view_eq:
  assumes "on d c" "\<And>i. i < BLOCK_CACHE_SIZE \<Longrightarrow> e_valid (entry c i) \<Longrightarrow> lru_tail c = Some i"
  shows "view c = (case lru_tail c of None \<Rightarrow> blk d
    | Some i \<Rightarrow> (blk d)(e_block_num (entry c i) \<mapsto> e_data (entry c i)))"
proof (rule ext)
  fix n
  have "\<exists>bd. cache_device c = Some bd \<and> device_data bd = d"
    using cache_onD(5) [OF assms(1)] by auto
  then show "view c n = (case lru_tail c of None \<Rightarrow> blk d
      | Some i \<Rightarrow> (blk d)(e_block_num (entry c i) \<mapsto> e_data (entry c i))) n"
    using cache_find_single [OF assms(2) cache_onD(1) [OF assms(1)], of n]
    by (auto simp: cache_view_def split: option.splits)
qed

lemma okI:
  assumes "on d c" "dinv d"
    and "\<And>j. j < BLOCK_CACHE_SIZE \<Longrightarrow> e_valid (entry c j) \<Longrightarrow> lru_tail c = Some j"
    and "\<And>i. lru_tail c = Some i \<Longrightarrow> addr (e_block_num (entry c i)) \<and>
       blk d (e_block_num (entry c i)) \<noteq> None \<and>
       (\<not> e_dirty (entry c i) \<longrightarrow> blk d (e_block_num (entry c i)) = Some (e_data (entry c i)))"
  shows "ok c"
  unfolding cache_ok_def using assms by blast

lemma flush_entry_ok:
  assumes "on d c" "dinv d" "i < BLOCK_CACHE_SIZE" "e_valid (entry c i)" "e_dirty (entry c i)"
    and "addr (e_block_num (entry c i))" "blk d (e_block_num (entry c i)) \<noteq> None"
  shows "wp (cache_flush_entry i)
    (\<lambda>_ c'. \<exists>d'. on d' c' \<and> dinv d' \<and>
       blk d' = (blk d)(e_block_num (entry c i) \<mapsto> e_data (entry c i)) \<and>
       lru_tail c' = lru_tail c \<and> cache_hits c' = cache_hits c \<and> cache_misses c' = cache_misses c \<and>
       (\<forall>j. entry c' j = (if j = i then (entry c i)\<lparr>e_dirty := False\<rparr> else entry c j)))
    E c"
proof -
  note c = cache_onD [OF assms(1)]
  obtain bd ops where bd: "cache_device c = Some bd" "device_data bd = d" "device_ops bd = Some ops"
    "op_read_block ops = Some rd" "op_write_block ops = Some wr"
    using c(5) by blast
  obtain r d' where w: "0 \<le> r" "wr d (e_block_num (entry c i)) (Some (e_data (entry c i))) = Some (r, d')"
    "dinv d'" "blk d' = (blk d)(e_block_num (entry c i) \<mapsto> e_data (entry c i))"
    using write_present [OF assms(2,6,7)] c(4) [OF assms(3)] by blast
  define c' where "c' = upd_entry i (\<lambda>e. e\<lparr>e_dirty := False\<rparr>)
    (c\<lparr>cache_device := Some (bd\<lparr>device_data := d'\<rparr>)\<rparr>)"
  have "on d' (c\<lparr>cache_device := Some (bd\<lparr>device_data := d'\<rparr>)\<rparr>)"
    using assms(1) bd by (simp add: cache_on_def)
  then have "on d' c'"
    unfolding c'_def
    by (rule cache_on_upd_entry) (use assms c(4) in \<open>simp_all add: lru_inv_links [OF c(1)]\<close>)
  moreover have "\<forall>j. entry c' j = (if j = i then (entry c i)\<lparr>e_dirty := False\<rparr> else entry c j)"
    using assms(3) lru_invD(1) [OF c(1)] by (simp add: c'_def entry_upd_entry)
  moreover have "lru_tail c' = lru_tail c \<and> cache_hits c' = cache_hits c \<and> cache_misses c' = cache_misses c"
    by (simp add: c'_def upd_entry_def)
  ultimately show ?thesis
    using assms w bd
    by (auto simp: cache_flush_entry_def get_device_ops_def wp_simps c'_def)
qed

text \<open>After an eviction the device holds the view and no entry but the victim is in use.\<close>

lemma evict_ok:
  assumes "ok c" "cache_victim c = Some i"
  shows "wp (cache_evict i)
    (\<lambda>_ c'. \<exists>d'. on d' c' \<and> dinv d' \<and> blk d' = view c \<and> lru_tail c' = None \<and>
       (\<forall>j < BLOCK_CACHE_SIZE. j \<noteq> i \<longrightarrow> \<not> e_valid (entry c' j))) E c"
proof -
  from assms(1) obtain d where d: "on d c" "dinv d"
    and one: "\<And>i. i < BLOCK_CACHE_SIZE \<Longrightarrow> e_valid (entry c i) \<Longrightarrow> lru_tail c = Some i"
    and tl: "\<And>i. lru_tail c = Some i \<Longrightarrow> i < BLOCK_CACHE_SIZE \<and> e_valid (entry c i) \<and>
       addr (e_block_num (entry c i)) \<and> blk d (e_block_num (entry c i)) \<noteq> None \<and>
       (\<not> e_dirty (entry c i) \<longrightarrow> blk d (e_block_num (entry c i)) = Some (e_data (entry c i)))"
    by (rule okE) blast
  note v = cache_victim_SomeD [OF cache_onD(1) [OF d(1)] assms(2)]
  note vw = view_eq [OF d(1) one]
  show ?thesis
  proof (cases "e_valid (entry c i)")
    case False
    with v one d vw show ?thesis by (auto simp: cache_evict_def wp_simps)
  next
    case True
    with v have t: "lru_tail c = Some i" and i: "i < BLOCK_CACHE_SIZE" by auto
    have rm: "on d' (lru_remove i c') \<and> lru_tail (lru_remove i c') = None \<and>
        (\<forall>j. entry (lru_remove i c') j = entry c' j)" if "on d' c'" for d' c'
      using that i cache_onD(1) [OF that] by (simp add: lru_remove_eq cache_on_emptied)
    have others: "\<not> e_valid (entry c j)" if "j < BLOCK_CACHE_SIZE" "j \<noteq> i" for j
      using one [of j] t that by auto
    show ?thesis
    proof (cases "e_dirty (entry c i)")
      case False
      with tl [OF t] have "blk d = view c" by (simp add: vw t fun_upd_idem)
      with False True d rm [OF d(1)] others show ?thesis
        by (auto simp: cache_evict_def wp_simps)
    next
      case dirty: True
      have "wp (cache_flush_entry i)
        (\<lambda>_ c'. \<exists>d'. on d' (lru_remove i c') \<and> dinv d' \<and> blk d' = view c \<and>
           lru_tail (lru_remove i c') = None \<and>
           (\<forall>j < BLOCK_CACHE_SIZE. j \<noteq> i \<longrightarrow> \<not> e_valid (entry (lru_remove i c') j)))
        (\<lambda>_ _. False) c"
        using tl [OF t] dirty rm others
        by (intro wp_conseq [OF flush_entry_ok [OF d i True dirty]]) (fastforce simp: vw t)+
      then show ?thesis
        using True dirty by (auto simp: cache_evict_def wp_simps elim!: wp_conseq)
    qed
  qed
qed

text \<open>Filling the free entry \<open>i\<close> and listing it.\<close>

lemma install_ok:
  assumes "on d c" "dinv d" "lru_tail c = None" "i < BLOCK_CACHE_SIZE"
    and "\<forall>j < BLOCK_CACHE_SIZE. j \<noteq> i \<longrightarrow> \<not> e_valid (entry c j)"
    and "length (e_data (f (entry c i))) = bs" "e_valid (f (entry c i))"
    and "e_next (f (entry c i)) = None" "e_prev (f (entry c i)) = None"
    and "e_block_num (f (entry c i)) = n" "addr n" "blk d n \<noteq> None"
    and "\<not> e_dirty (f (entry c i)) \<Longrightarrow> blk d n = Some (e_data (f (entry c i)))"
  shows "ok (lru_add_front i (upd_entry i f c)) \<and>
    view (lru_add_front i (upd_entry i f c)) = (blk d)(n \<mapsto> e_data (f (entry c i))) \<and>
    on d (lru_add_front i (upd_entry i f c)) \<and>
    entry (lru_add_front i (upd_entry i f c)) i = f (entry c i)"
proof -
  define c' where "c' = (upd_entry i f c)\<lparr>lru_head := Some i, lru_tail := Some i\<rparr>"
  note c = cache_onD [OF assms(1)]
  have len: "i < length (entries c)"
    using assms(4) lru_invD(1) [OF c(1)] by simp
  have ent: "entry (upd_entry i f c) j = (if j = i then f (entry c i) else entry c j)" for j
    using len by (simp add: entry_upd_entry)
  have on_c: "on d (upd_entry i f c)"
    using assms by (intro cache_on_upd_entry) simp_all
  have add: "lru_add_front i (upd_entry i f c) = c'"
    unfolding c'_def using assms(3,8,9) len lru_invD(4) [OF c(1)] ent
    by (intro lru_add_front_eq) simp_all
  have on_c': "on d c'"
    unfolding c'_def using on_c assms(4,7) ent by (intro cache_on_single) simp_all
  have tail: "lru_tail c' = Some i" by (simp add: c'_def)
  have ent': "entry c' j = (if j = i then f (entry c i) else entry c j)" for j
    by (simp add: c'_def ent)
  have one: "lru_tail c' = Some j" if "j < BLOCK_CACHE_SIZE" "e_valid (entry c' j)" for j
    using that assms(5) by (auto simp: tail ent' split: if_splits)
  have "ok c'"
    by (rule okI [OF on_c' assms(2) one]) (use assms(10-13) in \<open>auto simp: tail ent'\<close>)
  moreover have "view c' = (blk d)(n \<mapsto> e_data (f (entry c i)))"
    by (subst view_eq [OF on_c']) (use one assms(10) in \<open>simp_all add: tail ent'\<close>)
  ultimately show ?thesis by (simp add: add on_c' ent')
qed

lemma call_read_ok:
  assumes "on d c" "dinv d" "i < BLOCK_CACHE_SIZE" "addr n" "blk d n = Some b" "lru_tail c = None"
  shows "wp (call_read_block i n)
    (\<lambda>_ c'. on d c' \<and> lru_tail c' = None \<and>
       (\<forall>j. entry c' j = (if j = i then (entry c i)\<lparr>e_data := b\<rparr> else entry c j))) E c"
proof -
  note c = cache_onD [OF assms(1)]
  obtain bd ops where bd: "cache_device c = Some bd" "device_data bd = d" "device_ops bd = Some ops"
    "op_read_block ops = Some rd" "op_write_block ops = Some wr"
    using c(5) by blast
  obtain r where r: "0 \<le> r" "rd d n (Some (e_data (entry c i))) = Some (r, Some b)"
    using read_present [OF assms(2,4,5)] c(4) [OF assms(3)] by blast
  have "on d (upd_entry i (\<lambda>e. e\<lparr>e_data := b\<rparr>) c)"
    using assms blk_length [OF assms(2,5)]
    by (intro cache_on_upd_entry) (simp_all add: lru_inv_links [OF c(1)])
  with r bd assms(3,6) lru_invD(1) [OF c(1)] show ?thesis
    by (simp add: call_read_block_def get_device_ops_def wp_simps entry_upd_entry)
qed

lemma view_length:
  assumes "ok c" "view c n = Some b"
  shows "length b = bs"
proof -
  obtain d where d: "on d c" "dinv d"
    and one: "\<And>i. i < BLOCK_CACHE_SIZE \<Longrightarrow> e_valid (entry c i) \<Longrightarrow> lru_tail c = Some i"
    by (rule okE [OF assms(1)]) blast
  note inv = cache_onD [OF d(1)]
  show ?thesis
  proof (cases "cache_find n c")
    case None
    with assms(2) d(2) inv(5) show ?thesis by (auto simp: cache_view_def intro: blk_length)
  next
    case (Some i)
    with assms(2) inv(4) cache_find_SomeD [OF Some] show ?thesis by (auto simp: cache_view_def)
  qed
qed

lemma ok_other [simp]:
  "ok (c\<lparr>cache_hits := k\<rparr>) = ok c" "ok (c\<lparr>cache_misses := k\<rparr>) = ok c"
  by (simp_all add: cache_ok_def)

lemma view_other [simp]:
  "view (c\<lparr>cache_hits := k\<rparr>) = view c" "view (c\<lparr>cache_misses := k\<rparr>) = view c"
  by (simp_all add: cache_view_def cache_find_def fun_eq_iff split: option.split)

text \<open>
  The two halves of an access: the entry \<open>i\<close> comes off the list with its data in place, and
  is listed again with new contents.
\<close>

lemma relist_ok:
  assumes "ok c" "cache_find n c = Some i"
    and "\<And>e. e_next (f e) = e_next e \<and> e_prev (f e) = e_prev e \<and> e_valid (f e) = e_valid e \<and>
      e_block_num (f e) = e_block_num e"
    and "length (e_data (f (entry c i))) = bs"
    and "e_dirty (f (entry c i)) \<or> f (entry c i) = (entry c i)\<lparr>e_last_access := now\<rparr>"
  shows "ok (lru_add_front i (upd_entry i f (c\<lparr>lru_head := None, lru_tail := None\<rparr>))) \<and>
    view (lru_add_front i (upd_entry i f (c\<lparr>lru_head := None, lru_tail := None\<rparr>))) =
      (view c)(n \<mapsto> e_data (f (entry c i))) \<and>
    (\<exists>d. on d (lru_add_front i (upd_entry i f (c\<lparr>lru_head := None, lru_tail := None\<rparr>))))"
proof -
  from assms(1) obtain d where d: "on d c" "dinv d"
    and one: "\<And>i. i < BLOCK_CACHE_SIZE \<Longrightarrow> e_valid (entry c i) \<Longrightarrow> lru_tail c = Some i"
    and tl: "\<And>i. lru_tail c = Some i \<Longrightarrow> i < BLOCK_CACHE_SIZE \<and> e_valid (entry c i) \<and>
       addr (e_block_num (entry c i)) \<and> blk d (e_block_num (entry c i)) \<noteq> None \<and>
       (\<not> e_dirty (entry c i) \<longrightarrow> blk d (e_block_num (entry c i)) = Some (e_data (entry c i)))"
    by (rule okE) blast
  note f = cache_find_SomeD [OF assms(2)]
  with one have t: "lru_tail c = Some i" by blast
  have vw: "view c = (blk d)(n \<mapsto> e_data (entry c i))"
    by (subst view_eq [OF d(1) one]) (simp_all add: t f)
  have others: "\<forall>j < BLOCK_CACHE_SIZE. j \<noteq> i \<longrightarrow> \<not> e_valid (entry c j)"
    using one t by auto
  have links: "e_next (entry c i) = None" "e_prev (entry c i) = None"
    using f by (simp_all add: lru_inv_links [OF cache_onD(1) [OF d(1)]])
  have clean: "blk d n = Some (e_data (f (entry c i)))" if "\<not> e_dirty (f (entry c i))"
    using that assms(5) tl [OF t] f by auto
  show ?thesis
    using install_ok [OF cache_on_emptied [OF d(1)] d(2), of i f n] f others links clean tl [OF t] assms(3,4)
    by (auto simp: vw)
qed

text \<open>Reading a block that exists returns it and leaves the view as it is.\<close>

lemma upd_entry_emptied:
  "(upd_entry i f c)\<lparr>lru_head := h, lru_tail := t\<rparr> = upd_entry i f (c\<lparr>lru_head := h, lru_tail := t\<rparr>)"
  by (simp add: upd_entry_def)

lemma read_hit_ok:
  assumes "ok c" "view c n = Some b" "length buf = bs" "cache_find n c = Some i"
  shows "wp (block_cache_read now n (Some buf))
    (\<lambda>(r, b') c'. r = int bs \<and> b' = b \<and> ok c' \<and> view c' = view c) E c"
proof -
  let ?f = "\<lambda>e. e\<lparr>e_last_access := now\<rparr>"
  define c1 where "c1 = c\<lparr>cache_hits := cache_hits c + 1\<rparr>"
  have b: "e_data (entry c i) = b" "length b = bs"
    using assms(2,4) view_length [OF assms(1,2)] by (simp_all add: cache_view_def)
  have c1: "ok c1" "view c1 = view c" "cache_find n c1 = Some i" "entry c1 i = entry c i"
    using assms by (simp_all add: c1_def cache_find_def)
  obtain d where d: "on d c1" by (rule okE [OF c1(1)])
  note on = cache_onD [OF d] and i = cache_find_SomeD [OF c1(3)]
  have "lru_inv (upd_entry i ?f c1)"
    using i on(1) by (intro lru_inv_upd_entry) (simp_all add: lru_inv_links)
  then have rm: "lru_remove i (upd_entry i ?f c1) = upd_entry i ?f (c1\<lparr>lru_head := None, lru_tail := None\<rparr>)"
    using i by (simp add: lru_remove_eq upd_entry_emptied)
  have cp: "memcpy buf 0 b 0 (unat (cache_block_size c)) = Some b"
    using b assms(3) on(2) by (simp add: c1_def memcpy_block buffer_simps)
  have new: "ok (lru_add_front i (lru_remove i (upd_entry i ?f c1)))"
    "view (lru_add_front i (lru_remove i (upd_entry i ?f c1))) = view c"
    "\<exists>d. on d (lru_add_front i (lru_remove i (upd_entry i ?f c1)))"
    using relist_ok [OF c1(1,3), of ?f now] b c1 assms(2) unfolding rm by (simp_all add: fun_upd_idem)
  then show ?thesis
    using assms(4) b c1(4) cp
    by (auto simp: block_cache_read_def wp_simps c1_def [symmetric] return_block_size_ok)
qed

lemma read_miss_ok:
  assumes "ok c" "addr n" "view c n = Some b" "length buf = bs" "cache_find n c = None"
  shows "wp (block_cache_read now n (Some buf))
    (\<lambda>(r, b') c'. r = int bs \<and> b' = b \<and> ok c' \<and> view c' = view c) E c"
proof -
  let ?f = "\<lambda>e. e\<lparr>e_block_num := n, e_valid := True, e_dirty := False, e_last_access := now\<rparr>"
  define c1 where "c1 = c\<lparr>cache_misses := cache_misses c + 1\<rparr>"
  have c1: "ok c1" "view c1 = view c" using assms by (simp_all add: c1_def)
  obtain i where i: "cache_victim c1 = Some i"
    by (rule okE [OF c1(1)]) (use cache_victim_single in blast)
  have lt: "i < BLOCK_CACHE_SIZE"
    by (rule okE [OF c1(1)]) (use cache_victim_SomeD [OF cache_onD(1) i] in blast)
  have lb: "length b = bs" by (rule view_length [OF assms(1,3)])
  have fill: "wp (call_read_block i n) (\<lambda>_ s.
      ok (lru_add_front i (upd_entry i ?f s)) \<and> view (lru_add_front i (upd_entry i ?f s)) = view c \<and>
      (\<exists>d. on d (lru_add_front i (upd_entry i ?f s))) \<and>
      e_data (entry (lru_add_front i (upd_entry i ?f s)) i) = b) E s"
    if s: "on d s" "dinv d" "blk d = view c1" "lru_tail s = None"
      "\<forall>j < BLOCK_CACHE_SIZE. j \<noteq> i \<longrightarrow> \<not> e_valid (entry s j)" for d s E
  proof (rule wp_conseq [OF call_read_ok [OF s(1,2) lt assms(2) _ s(4)]])
    show db: "blk d n = Some b" using s(3) c1(2) assms(3) by simp
    fix x s'
    assume s': "on d s' \<and> lru_tail s' = None \<and>
      (\<forall>j. entry s' j = (if j = i then (entry s i)\<lparr>e_data := b\<rparr> else entry s j))"
    have "e_next (entry s i) = None" "e_prev (entry s i) = None"
      using lt by (simp_all add: lru_inv_links [OF cache_onD(1) [OF s(1)]])
    then show "ok (lru_add_front i (upd_entry i ?f s')) \<and>
      view (lru_add_front i (upd_entry i ?f s')) = view c \<and>
      (\<exists>d. on d (lru_add_front i (upd_entry i ?f s'))) \<and>
      e_data (entry (lru_add_front i (upd_entry i ?f s')) i) = b"
      using install_ok [OF _ s(2) _ lt, of s' ?f n] s' s(3,5) lb db assms(2,3) c1(2)
      by (auto simp: fun_upd_idem)
  qed simp
  have cp: "memcpy buf 0 x 0 (unat (cache_block_size s)) = Some x" if "on d s" "length x = bs" for d s x
    using that(2) assms(4) cache_onD(2) [OF that(1)] by (simp add: memcpy_block buffer_simps)
  show ?thesis
    using assms(5) i lb
    by (auto simp: block_cache_read_def wp_simps c1_def [symmetric] return_block_size_ok cp
        intro!: wp_conseq [OF evict_ok [OF c1(1) i]] wp_conseq [OF fill])
qed

lemma read_ok:
  assumes "ok c" "addr n" "view c n = Some b" "length buf = bs"
  shows "wp (block_cache_read now n (Some buf))
    (\<lambda>(r, b') c'. r = int bs \<and> b' = b \<and> ok c' \<and> view c' = view c) E c"
  using assms read_hit_ok read_miss_ok by (cases "cache_find n c") blast+

text \<open>Writing a block that exists changes the view at this block only.\<close>

lemma write_hit_ok:
  assumes "ok c" "length b = bs" "cache_find n c = Some i"
  shows "wp (block_cache_write now n (Some b))
    (\<lambda>r c'. r = int bs \<and> ok c' \<and> view c' = (view c)(n \<mapsto> b)) E c"
proof -
  let ?f = "\<lambda>e. e\<lparr>e_data := b, e_dirty := True, e_last_access := now\<rparr>"
  obtain d where d: "on d c" by (rule okE [OF assms(1)])
  note on = cache_onD [OF d] and i = cache_find_SomeD [OF assms(3)]
  have cp: "memcpy (e_data (entry c i)) 0 b 0 (unat (cache_block_size c)) = Some b"
    using assms(2) on(2) on(4) [of i] i by (simp add: memcpy_block buffer_simps)
  show ?thesis
    using relist_ok [OF assms(1,3), of ?f now] assms(2,3) i cp
    by (auto simp: block_cache_write_def wp_simps lru_remove_eq [OF on(1)] return_block_size_ok)
qed

lemma write_miss_ok:
  assumes "ok c" "addr n" "view c n \<noteq> None" "length b = bs" "cache_find n c = None"
  shows "wp (block_cache_write now n (Some b))
    (\<lambda>r c'. r = int bs \<and> ok c' \<and> view c' = (view c)(n \<mapsto> b)) E c"
proof -
  let ?g = "\<lambda>e. e\<lparr>e_block_num := n, e_valid := True\<rparr>"
  let ?f = "\<lambda>e. e\<lparr>e_data := b, e_dirty := True, e_last_access := now\<rparr>"
  obtain i where i: "cache_victim c = Some i"
    by (rule okE [OF assms(1)]) (use cache_victim_single in blast)
  have lt: "i < BLOCK_CACHE_SIZE"
    by (rule okE [OF assms(1)]) (use cache_victim_SomeD [OF cache_onD(1) i] in blast)
  have fill: "ok (lru_add_front i (upd_entry i ?f (upd_entry i ?g s))) \<and>
      view (lru_add_front i (upd_entry i ?f (upd_entry i ?g s))) = (view c)(n \<mapsto> b) \<and>
      on d (lru_add_front i (upd_entry i ?f (upd_entry i ?g s))) \<and>
      memcpy (e_data (entry (upd_entry i ?g s) i)) 0 b 0 (unat (cache_block_size s)) = Some b"
    if s: "on d s" "dinv d" "blk d = view c" "lru_tail s = None"
      "\<forall>j < BLOCK_CACHE_SIZE. j \<noteq> i \<longrightarrow> \<not> e_valid (entry s j)" for d s
  proof -
    note on = cache_onD [OF s(1)]
    have ent: "entry (upd_entry i ?g s) j = (if j = i then ?g (entry s i) else entry s j)" for j
      using lt lru_invD(1) [OF on(1)] by (simp add: entry_upd_entry)
    have "on d (upd_entry i ?g s)"
      using s lt on(4) [OF lt] by (intro cache_on_upd_entry) (simp_all add: lru_inv_links [OF on(1)])
    from install_ok [OF this s(2) _ lt, of ?f n] show ?thesis
      using s(3-5) assms(2-4) lt on(2) on(4) [OF lt]
      by (simp add: ent lru_inv_links [OF on(1)] memcpy_block buffer_simps)
  qed
  have "wp (cache_evict i) (\<lambda>_ s. \<exists>d. ok (lru_add_front i (upd_entry i ?f (upd_entry i ?g s))) \<and>
      view (lru_add_front i (upd_entry i ?f (upd_entry i ?g s))) = (view c)(n \<mapsto> b) \<and>
      on d (lru_add_front i (upd_entry i ?f (upd_entry i ?g s))) \<and>
      memcpy (e_data (entry (upd_entry i ?g s) i)) 0 b 0 (unat (cache_block_size s)) = Some b)
      (\<lambda>_ _. False) c"
    by (rule wp_conseq [OF evict_ok [OF assms(1) i, where E = "\<lambda>_ _. False"]]) (use fill in blast)+
  then show ?thesis
    using assms(5) i
    by (auto simp: block_cache_write_def wp_simps return_block_size_ok elim!: wp_conseq)
qed

lemma write_ok:
  assumes "ok c" "addr n" "view c n \<noteq> None" "length b = bs"
  shows "wp (block_cache_write now n (Some b))
    (\<lambda>r c'. r = int bs \<and> ok c' \<and> view c' = (view c)(n \<mapsto> b)) E c"
  using assms write_hit_ok write_miss_ok by (cases "cache_find n c") blast+

text \<open>A flush writes every dirty entry back: the device then holds the view.\<close>

lemma flush_step_ok:
  assumes "ok c" "i < BLOCK_CACHE_SIZE" "e_valid (entry c i)" "e_dirty (entry c i)"
  shows "wp (cache_flush_entry i) (\<lambda>_ c'. ok c' \<and> view c' = view c \<and>
    (\<forall>j. e_valid (entry c' j) = e_valid (entry c j) \<and>
       e_dirty (entry c' j) = (j \<noteq> i \<and> e_dirty (entry c j)))) E c"
proof -
  from assms(1) obtain d where d: "on d c" "dinv d"
    and one: "\<And>i. i < BLOCK_CACHE_SIZE \<Longrightarrow> e_valid (entry c i) \<Longrightarrow> lru_tail c = Some i"
    and tl: "\<And>i. lru_tail c = Some i \<Longrightarrow> i < BLOCK_CACHE_SIZE \<and> e_valid (entry c i) \<and>
       addr (e_block_num (entry c i)) \<and> blk d (e_block_num (entry c i)) \<noteq> None \<and>
       (\<not> e_dirty (entry c i) \<longrightarrow> blk d (e_block_num (entry c i)) = Some (e_data (entry c i)))"
    by (rule okE) blast
  have t: "lru_tail c = Some i" using one assms(2,3) by blast
  have vw: "view c = (blk d)(e_block_num (entry c i) \<mapsto> e_data (entry c i))"
    by (subst view_eq [OF d(1) one]) (simp_all add: t)
  have kept: "ok c' \<and> view c' = view c \<and> (\<forall>j. e_valid (entry c' j) = e_valid (entry c j) \<and>
       e_dirty (entry c' j) = (j \<noteq> i \<and> e_dirty (entry c j)))"
    if c': "on d' c'" "dinv d'" "blk d' = view c" "lru_tail c' = lru_tail c"
      "\<forall>j. entry c' j = (if j = i then (entry c i)\<lparr>e_dirty := False\<rparr> else entry c j)" for c' d'
  proof -
    have one': "lru_tail c' = Some j" if "j < BLOCK_CACHE_SIZE" "e_valid (entry c' j)" for j
      using that one [of j] c'(4,5) t by (auto split: if_splits)
    have "ok c'"
      by (rule okI [OF c'(1,2) one']) (use c' t tl [OF t] in \<open>auto simp: vw\<close>)
    moreover have "view c' = view c"
      by (subst view_eq [OF c'(1) one']) (use c' t in \<open>simp_all add: vw\<close>)
    ultimately show ?thesis using c'(5) by simp
  qed
  have pre: "addr (e_block_num (entry c i))" "blk d (e_block_num (entry c i)) \<noteq> None"
    using tl [OF t] by simp_all
  show ?thesis
    by (rule wp_conseq [OF flush_entry_ok [OF d assms(2-4) pre, where E = "\<lambda>_ _. False"]])
      (use kept vw in \<open>metis+\<close>)
qed

lemma flush_from_ok:
  assumes "ok c" "set is \<subseteq> {0..<BLOCK_CACHE_SIZE}"
  shows "wp (flush_from is k) (\<lambda>r c'. r = k \<and> ok c' \<and> view c' = view c \<and>
    (\<forall>i. e_valid (entry c' i) \<and> e_dirty (entry c' i) \<longrightarrow>
       i \<notin> set is \<and> e_valid (entry c i) \<and> e_dirty (entry c i))) (\<lambda>_ _. False) c"
  using assms
proof (induction "is" arbitrary: c k)
  case Nil
  then show ?case by (simp add: wp_simps)
next
  case (Cons i "is")
  note rest = Cons.IH [THEN wp_conseq]
  show ?case
  proof (cases "e_valid (entry c i) \<and> e_dirty (entry c i)")
    case False
    then show ?thesis
      using Cons.prems by (auto simp: wp_simps intro!: rest)
  next
    case True
    have "wp (cache_flush_entry i) (\<lambda>_ c'. wp (flush_from is k) (\<lambda>r c'. r = k \<and> ok c' \<and> view c' = view c \<and>
       (\<forall>j. e_valid (entry c' j) \<and> e_dirty (entry c' j) \<longrightarrow>
          j \<notin> set (i # is) \<and> e_valid (entry c j) \<and> e_dirty (entry c j))) (\<lambda>_ _. False) c') (\<lambda>_ _. False) c"
      by (rule wp_conseq [OF flush_step_ok [of c i "\<lambda>_ _. False"]])
        (use Cons.prems True in \<open>auto intro!: rest\<close>)
    with True show ?thesis by (auto simp: wp_simps elim!: wp_conseq)
  qed
qed

lemma clean_view:
  assumes "ok c" "\<forall>i < BLOCK_CACHE_SIZE. \<not> (e_valid (entry c i) \<and> e_dirty (entry c i))"
  shows "\<exists>bd. cache_device c = Some bd \<and> dinv (device_data bd) \<and> blk (device_data bd) = view c"
proof -
  from assms(1) obtain d where d: "on d c" "dinv d"
    and one: "\<And>i. i < BLOCK_CACHE_SIZE \<Longrightarrow> e_valid (entry c i) \<Longrightarrow> lru_tail c = Some i"
    and tl: "\<And>i. lru_tail c = Some i \<Longrightarrow> i < BLOCK_CACHE_SIZE \<and> e_valid (entry c i) \<and>
       addr (e_block_num (entry c i)) \<and> blk d (e_block_num (entry c i)) \<noteq> None \<and>
       (\<not> e_dirty (entry c i) \<longrightarrow> blk d (e_block_num (entry c i)) = Some (e_data (entry c i)))"
    by (rule okE) blast
  have "view c = blk d"
    by (subst view_eq [OF d(1) one]) (use tl assms(2) in \<open>auto simp: fun_upd_idem split: option.split\<close>)
  with d(2) cache_onD(5) [OF d(1)] show ?thesis by auto
qed

lemma flush_ok:
  assumes "ok c"
  shows "wp block_cache_flush (\<lambda>r c'. r = ERR_SUCCESS \<and> ok c' \<and> view c' = view c \<and>
    (\<exists>bd. cache_device c' = Some bd \<and> dinv (device_data bd) \<and> blk (device_data bd) = view c)) E c"
proof -
  have "wp (flush_from [0..<BLOCK_CACHE_SIZE] 0) (\<lambda>r c'. r = 0 \<and> ok c' \<and> view c' = view c \<and>
    (\<exists>bd. cache_device c' = Some bd \<and> dinv (device_data bd) \<and> blk (device_data bd) = view c))
    (\<lambda>_ _. False) c"
  proof (rule wp_conseq [OF flush_from_ok [OF assms, of "[0..<BLOCK_CACHE_SIZE]" 0]], goal_cases)
    case (2 r c')
    moreover from 2 have "\<exists>bd. cache_device c' = Some bd \<and> dinv (device_data bd) \<and> blk (device_data bd) = view c'"
      by (intro clean_view) auto
    ultimately show ?case by simp
  qed auto
  then show ?thesis
    by (auto simp: block_cache_flush_def wp_simps elim!: wp_conseq)
qed

text \<open>Invalidating a block writes it back first, so that the view is kept.\<close>

lemma drop_ok:
  assumes "ok c" "i < BLOCK_CACHE_SIZE" "e_valid (entry c i)" "\<not> e_dirty (entry c i)"
  shows "ok (upd_entry i (\<lambda>e. e\<lparr>e_valid := False\<rparr>) (lru_remove i c)) \<and>
    view (upd_entry i (\<lambda>e. e\<lparr>e_valid := False\<rparr>) (lru_remove i c)) = view c"
proof -
  from assms(1) obtain d where d: "on d c" "dinv d"
    and one: "\<And>i. i < BLOCK_CACHE_SIZE \<Longrightarrow> e_valid (entry c i) \<Longrightarrow> lru_tail c = Some i"
    and tl: "\<And>i. lru_tail c = Some i \<Longrightarrow> i < BLOCK_CACHE_SIZE \<and> e_valid (entry c i) \<and>
       addr (e_block_num (entry c i)) \<and> blk d (e_block_num (entry c i)) \<noteq> None \<and>
       (\<not> e_dirty (entry c i) \<longrightarrow> blk d (e_block_num (entry c i)) = Some (e_data (entry c i)))"
    by (rule okE) blast
  define c' where "c' = upd_entry i (\<lambda>e. e\<lparr>e_valid := False\<rparr>) (lru_remove i c)"
  note on = cache_onD [OF d(1)]
  have t: "lru_tail c = Some i" using one assms(2,3) by blast
  have rm: "lru_remove i c = c\<lparr>lru_head := None, lru_tail := None\<rparr>"
    using assms(2) on(1) by (simp add: lru_remove_eq)
  have on_c': "on d c'"
    unfolding c'_def rm using assms(2) on(4) cache_on_emptied [OF d(1)]
    by (intro cache_on_upd_entry) (simp_all add: lru_inv_links [OF on(1)])
  have none: "\<not> e_valid (entry c' j)" "lru_tail c' = None" if "j < BLOCK_CACHE_SIZE" for j
    using that one [of j] assms(2) lru_invD(1) [OF on(1)] t by (auto simp: c'_def rm entry_upd_entry)
  have tl': "lru_tail c' = None" by (simp add: c'_def rm)
  have "view c' = blk d"
    by (subst view_eq [OF on_c']) (use none in \<open>simp_all add: tl'\<close>)
  moreover have "view c = blk d"
    by (subst view_eq [OF d(1) one]) (use tl [OF t] assms(4) in \<open>simp_all add: t fun_upd_idem\<close>)
  moreover have "ok c'"
    by (rule okI [OF on_c' d(2)]) (use none tl' in auto)
  ultimately show ?thesis by (simp add: c'_def)
qed

lemma invalidate_ok:
  assumes "ok c"
  shows "wp (block_cache_invalidate n)
    (\<lambda>r c'. r = ERR_SUCCESS \<and> ok c' \<and> view c' = view c) E c"
proof (cases "cache_find n c")
  case None
  with assms show ?thesis by (simp add: block_cache_invalidate_def wp_simps)
next
  case (Some i)
  note i = cache_find_SomeD [OF Some]
  show ?thesis
  proof (cases "e_dirty (entry c i)")
    case False
    with Some i drop_ok [OF assms, of i] show ?thesis
      by (simp add: block_cache_invalidate_def wp_simps)
  next
    case True
    have "wp (cache_flush_entry i) (\<lambda>_ c'.
        ok (upd_entry i (\<lambda>e. e\<lparr>e_valid := False\<rparr>) (lru_remove i c')) \<and>
        view (upd_entry i (\<lambda>e. e\<lparr>e_valid := False\<rparr>) (lru_remove i c')) = view c) (\<lambda>_ _. False) c"
      by (rule wp_conseq [OF flush_step_ok [of c i "\<lambda>_ _. False"]])
        (use assms i True drop_ok in auto)
    with Some True show ?thesis
      by (auto simp: block_cache_invalidate_def wp_simps elim!: wp_conseq)
  qed
qed

text \<open>A new cache shows the device.\<close>

lemma create_ok:
  assumes "block_cache_create (Some bd) block_size heap_pos = (Some c, h)"
    and "device_ops bd = Some ops" "op_read_block ops = Some rd" "op_write_block ops = Some wr"
    and "dinv (device_data bd)" "unat block_size = bs" "bs < 2 ^ 31"
  shows "ok c \<and> view c = blk (device_data bd)"
proof -
  have c: "cache_device c = Some bd" "lru_tail c = None" "cache_block_size c = block_size"
    and e: "\<And>i. i < BLOCK_CACHE_SIZE \<Longrightarrow> \<not> e_valid (entry c i) \<and> length (e_data (entry c i)) = bs"
    using block_cache_create_Some [OF assms(1)] assms(6) by (simp_all add: entry_def)
  have on_c: "on (device_data bd) c"
    using assms(2-7) c e create_lru [OF assms(1)] by (simp add: cache_on_def)
  have "ok c" by (rule okI [OF on_c assms(5)]) (use c e in auto)
  moreover have "view c = blk (device_data bd)"
    by (subst view_eq [OF on_c]) (use c e in auto)
  ultimately show ?thesis ..
qed

end

end
