(* ===== verification/Cache_History.thy ===== *)
theory Cache_History
  imports Cache_Contract
begin

text \<open>
  The block cache on the RAM disk: the contract of \<open>Cache_Contract\<close> taken at the interpretation
  \<open>ram\<close> of \<open>Block_Device\<close>, for whole histories of calls.
\<close>

section \<open>Histories of calls on a RAM disk\<close>

text \<open>The array of blocks a history of calls should leave behind.\<close>

fun array_op :: "cache_op \<Rightarrow> (u64 \<Rightarrow> bytes option) \<Rightarrow> (u64 \<Rightarrow> bytes option)" where
  "array_op (Write now n (Some b)) v = v(n \<mapsto> b)"
| "array_op _ v = v"

text \<open>Calls with a block-sized buffer on a block of the disk.\<close>

fun legal_op :: "nat \<Rightarrow> (u64 \<Rightarrow> bytes option) \<Rightarrow> cache_op \<Rightarrow> bool" where
  "legal_op bs v (Read now n (Some buf)) = (rd_addr bs n \<and> v n \<noteq> None \<and> length buf = bs)"
| "legal_op bs v (Write now n (Some buf)) = (rd_addr bs n \<and> v n \<noteq> None \<and> length buf = bs)"
| "legal_op bs v (Read now n None) = False"
| "legal_op bs v (Write now n None) = False"
| "legal_op bs v Flush = True"
| "legal_op bs v (Invalidate n) = True"

fun run_cache_ops :: "cache_op list \<Rightarrow> ('d block_cache, unit) prog" where
  "run_cache_ops [] = ret ()"
| "run_cache_ops (op # ops) = bindP (run_cache_op op) (\<lambda>_. run_cache_ops ops)"

abbreviation ram_ok :: "nat \<Rightarrow> ramdisk option block_cache \<Rightarrow> bool" where
  "ram_ok bs \<equiv> cache_ok ramdisk_read_block ramdisk_write_block bs (rd_addr bs) (rd_blk bs) (rd_inv bs)"

abbreviation ram_view :: "nat \<Rightarrow> ramdisk option block_cache \<Rightarrow> u64 \<Rightarrow> bytes option" where
  "ram_view bs \<equiv> cache_view (rd_blk bs)"

lemma run_cache_op_ok:
  assumes "ram_ok bs c" "legal_op bs (ram_view bs c) op"
  shows "wp (run_cache_op op) (\<lambda>_ c'. ram_ok bs c' \<and> ram_view bs c' = array_op op (ram_view bs c)) E c"
proof (cases op)
  case (Read now n buf)
  with assms show ?thesis
    by (cases buf) (auto simp: wp_simps intro!: wp_conseq [OF ram.read_ok])
next
  case (Write now n buf)
  with assms show ?thesis
    by (cases buf) (auto simp: wp_simps intro!: wp_conseq [OF ram.write_ok])
qed (use assms in \<open>auto simp: wp_simps intro!: wp_conseq [OF ram.flush_ok] wp_conseq [OF ram.invalidate_ok]\<close>)

lemma legal_op_dom: "dom v = dom v' \<Longrightarrow> legal_op bs v op = legal_op bs v' op"
  by (cases "(bs, v, op)" rule: legal_op.cases) (auto simp: dom_def set_eq_iff)

lemma array_op_dom: "legal_op bs v op \<Longrightarrow> dom (array_op op v) = dom v"
  by (cases "(op, v)" rule: array_op.cases) (auto simp: insert_absorb)

lemma run_cache_ops_ok:
  assumes "ram_ok bs c" "\<forall>op \<in> set ops. legal_op bs (ram_view bs c) op"
  shows "wp (run_cache_ops ops) (\<lambda>_ c'. ram_ok bs c' \<and> ram_view bs c' = fold array_op ops (ram_view bs c)) E c"
  using assms
proof (induction ops arbitrary: c)
  case Nil
  then show ?case by (simp add: wp_simps)
next
  case (Cons op ops)
  then have op: "legal_op bs (ram_view bs c) op" by simp
  have "wp (run_cache_ops ops) (\<lambda>_ c''. ram_ok bs c'' \<and>
      ram_view bs c'' = fold array_op (op # ops) (ram_view bs c)) E c'"
    if "ram_ok bs c' \<and> ram_view bs c' = array_op op (ram_view bs c)" for c'
    using that Cons.IH [of c'] Cons.prems(2) legal_op_dom [OF array_op_dom [OF op]] by simp
  then show ?case
    by (auto simp: wp_simps intro: wp_conseq [OF run_cache_op_ok [OF Cons.prems(1) op, where E = E]])
qed

lemma ram_create:
  assumes "block_cache_create (Some bd) block_size heap_pos = (Some c, h)"
    and "device_ops bd = Some ops"
    and "op_read_block ops = Some ramdisk_read_block" "op_write_block ops = Some ramdisk_write_block"
    and "rd_inv (unat block_size) (device_data bd)"
  shows "ram_ok (unat block_size) c \<and>
    ram_view (unat block_size) c = rd_blk (unat block_size) (device_data bd)"
  by (rule ram.create_ok [OF assms refl])
    (use assms(5) in \<open>auto simp: rd_inv_def split: option.splits\<close>)

text \<open>
  C1.  A block cache created on a RAM disk, after any history of reads, writes, flushes and
  invalidations of blocks of the disk and a final flush, has run without an error and without
  undefined behaviour, and the disk holds exactly the array of blocks that results from the
  writes in their order: no write is lost and no other block changes, although the cache
  writes back late and evicts on almost every miss.
\<close>

theorem cache_history_durable:
  assumes "block_cache_create (Some bd) block_size heap_pos = (Some c, h)"
    and "device_ops bd = Some ops"
    and "op_read_block ops = Some ramdisk_read_block" "op_write_block ops = Some ramdisk_write_block"
    and "rd_inv (unat block_size) (device_data bd)"
    and "\<forall>op \<in> set hist. legal_op (unat block_size) (rd_blk (unat block_size) (device_data bd)) op"
  shows "\<exists>c' bd'. run_cache_ops (hist @ [Flush]) c = (Val (), c') \<and> cache_device c' = Some bd' \<and>
    rd_inv (unat block_size) (device_data bd') \<and>
    rd_blk (unat block_size) (device_data bd') =
      fold array_op hist (rd_blk (unat block_size) (device_data bd))"
proof -
  from ram_create [OF assms(1-5)]
  have c: "ram_ok (unat block_size) c"
    "ram_view (unat block_size) c = rd_blk (unat block_size) (device_data bd)" by simp_all
  have app: "run_cache_ops (hist @ [Flush]) = bindP (run_cache_ops hist) (\<lambda>_. run_cache_ops [Flush])"
    by (induction hist) (simp_all add: bindP_def fun_eq_iff exec_simps split: prod.split outcome.split)
  have "wp (run_cache_ops (hist @ [Flush])) (\<lambda>_ c'. \<exists>bd'. cache_device c' = Some bd' \<and>
      rd_inv (unat block_size) (device_data bd') \<and> rd_blk (unat block_size) (device_data bd') =
      fold array_op hist (rd_blk (unat block_size) (device_data bd))) (\<lambda>_ _. False) c"
    using c assms(6) unfolding app
    by (auto simp: wp_simps intro!: wp_conseq [OF run_cache_ops_ok] wp_conseq [OF ram.flush_ok])
  then show ?thesis by (elim wp_Val_exists) auto
qed

text \<open>A RAM disk of four blocks of four bytes, and a history on it.\<close>

definition demo_device :: "ramdisk option block_device" where
  "demo_device = \<lparr>device_data = Some \<lparr>rd_size = 16, rd_data = replicate 16 0, rd_block_size = 4\<rparr>,
     device_ops = Some \<lparr>op_read_block = Some ramdisk_read_block, op_write_block = Some ramdisk_write_block,
       op_get_block_size = None, op_get_num_blocks = None\<rparr>\<rparr>"

definition demo_history :: "cache_op list" where
  "demo_history = [Write 1 2 (Some [1, 2, 3, 4]), Read 2 0 (Some [9, 9, 9, 9]),
     Write 3 0 (Some [5, 6, 7, 8]), Invalidate 0, Read 4 2 (Some [0, 0, 0, 0])]"

lemma demo_create: "fst (block_cache_create (Some demo_device) 4 0) \<noteq> None"
  by code_simp

lemma demo_facts:
  "device_ops demo_device = Some \<lparr>op_read_block = Some ramdisk_read_block,
     op_write_block = Some ramdisk_write_block, op_get_block_size = None, op_get_num_blocks = None\<rparr>"
  "rd_inv (unat (4 :: u64)) (device_data demo_device)"
  "\<forall>op \<in> set demo_history. legal_op (unat (4 :: u64)) (rd_blk (unat (4 :: u64)) (device_data demo_device)) op"
  "fold array_op demo_history (rd_blk (unat (4 :: u64)) (device_data demo_device)) 2 = Some [1, 2, 3, 4]"
  by (simp_all add: demo_device_def demo_history_def rd_inv_def rd_blk_def rd_addr_def)

theorem cache_history_durable_witness:
  "\<exists>c c' bd'. fst (block_cache_create (Some demo_device) 4 0) = Some c \<and>
    run_cache_ops (demo_history @ [Flush]) c = (Val (), c') \<and> cache_device c' = Some bd' \<and>
    rd_blk 4 (device_data bd') 2 = Some [1, 2, 3, 4]"
proof -
  obtain c h where c: "block_cache_create (Some demo_device) 4 0 = (Some c, h)"
    using demo_create by (cases "block_cache_create (Some demo_device) 4 0") auto
  show ?thesis
    using cache_history_durable [OF c demo_facts(1) _ _ demo_facts(2,3)] demo_facts(4) c
    by auto
qed

text \<open>
  C6.  Reading a block after such a history returns the block of the array, whatever is cached
  at that moment: the return value is the block size, and the buffer holds the last contents
  written to this block, or those of the disk when it was not written.
\<close>

theorem cache_history_read:
  assumes "block_cache_create (Some bd) block_size heap_pos = (Some c, h)"
    and "device_ops bd = Some ops"
    and "op_read_block ops = Some ramdisk_read_block" "op_write_block ops = Some ramdisk_write_block"
    and "rd_inv (unat block_size) (device_data bd)"
    and "\<forall>op \<in> set hist. legal_op (unat block_size) (rd_blk (unat block_size) (device_data bd)) op"
    and "rd_addr (unat block_size) n" "length buf = unat block_size"
    and "fold array_op hist (rd_blk (unat block_size) (device_data bd)) n = Some b"
  shows "\<exists>c' c''. run_cache_ops hist c = (Val (), c') \<and>
    block_cache_read now n (Some buf) c' = (Val (int (unat block_size), b), c'')"
proof -
  from ram_create [OF assms(1-5)]
  have c: "ram_ok (unat block_size) c"
    "ram_view (unat block_size) c = rd_blk (unat block_size) (device_data bd)" by simp_all
  obtain c' where c': "run_cache_ops hist c = (Val (), c')" "ram_ok (unat block_size) c'"
    "ram_view (unat block_size) c' = fold array_op hist (rd_blk (unat block_size) (device_data bd))"
    using run_cache_ops_ok [of "unat block_size" c hist "\<lambda>_ _. False"] c assms(6)
    by (auto elim: wp_Val_exists)
  from ram.read_ok [OF c'(2) assms(7) _ assms(8), of b now "\<lambda>_ _. False"] c'(3) assms(9)
  have "wp (block_cache_read now n (Some buf)) (\<lambda>(r, b') _. r = int (unat block_size) \<and> b' = b)
      (\<lambda>_ _. False) c'"
    by (auto elim!: wp_conseq)
  then show ?thesis using c'(1) by (elim wp_Val_exists) auto
qed

theorem cache_history_read_witness:
  "\<exists>c c' c''. fst (block_cache_create (Some demo_device) 4 0) = Some c \<and>
    run_cache_ops demo_history c = (Val (), c') \<and>
    block_cache_read 9 2 (Some [0, 0, 0, 0]) c' = (Val (4, [1, 2, 3, 4]), c'')"
proof -
  obtain c h where c: "block_cache_create (Some demo_device) 4 0 = (Some c, h)"
    using demo_create by (cases "block_cache_create (Some demo_device) 4 0") auto
  show ?thesis
    using cache_history_read [OF c demo_facts(1) _ _ demo_facts(2,3), of 2 "[0, 0, 0, 0]"] demo_facts(4) c
    by (auto simp: rd_addr_def)
qed

end
