(* ===== verification/Ext2_Format.thy ===== *)
theory Ext2_Format
  imports Prelude
begin

text \<open>
  The on-disk format of ext2, \<^verbatim>\<open>src/include/ext2.h\<close>.  The structures are packed, so that a
  structure in memory is the concatenation of its fields in little-endian order; an array of
  bytes is kept as it is.  Every structure has an encoder and a decoder, and the round trips
  show that both know the same layout.
\<close>

section \<open>Constants\<close>

definition EXT2_MAGIC :: u16 where "EXT2_MAGIC = 0xEF53"
definition EXT2_ROOT_INO :: u32 where "EXT2_ROOT_INO = 2"
definition EXT2_NAME_LEN :: nat where "EXT2_NAME_LEN = 255"
definition EXT2_FT_REG_FILE :: u8 where "EXT2_FT_REG_FILE = 1"
definition EXT2_FT_DIR :: u8 where "EXT2_FT_DIR = 2"
definition EXT2_S_IFREG :: u16 where "EXT2_S_IFREG = 0x8000"
definition EXT2_S_IFDIR :: u16 where "EXT2_S_IFDIR = 0x4000"

section \<open>Structures\<close>

text \<open>The superblock, 1024 bytes.\<close>

record ext2_superblock =
  s_inodes_count :: u32
  s_blocks_count :: u32
  s_r_blocks_count :: u32
  s_free_blocks_count :: u32
  s_free_inodes_count :: u32
  s_first_data_block :: u32
  s_log_block_size :: u32
  s_log_frag_size :: u32
  s_blocks_per_group :: u32
  s_frags_per_group :: u32
  s_inodes_per_group :: u32
  s_mtime :: u32
  s_wtime :: u32
  s_mnt_count :: u16
  s_max_mnt_count :: u16
  s_magic :: u16
  s_state :: u16
  s_errors :: u16
  s_minor_rev_level :: u16
  s_lastcheck :: u32
  s_checkinterval :: u32
  s_creator_os :: u32
  s_rev_level :: u32
  s_def_resuid :: u16
  s_def_resgid :: u16
  s_first_ino :: u32
  s_inode_size :: u16
  s_block_group_nr :: u16
  s_feature_compat :: u32
  s_feature_incompat :: u32
  s_feature_ro_compat :: u32
  s_uuid :: bytes
  s_volume_name :: bytes
  s_last_mounted :: bytes
  s_algo_bitmap :: u32
  s_prealloc_blocks :: u8
  s_prealloc_dir_blocks :: u8
  s_padding1 :: u16
  s_journal_uuid :: bytes
  s_journal_inum :: u32
  s_journal_dev :: u32
  s_last_orphan :: u32
  s_hash_seed :: "u32 list"
  s_def_hash_version :: u8
  s_reserved_char_pad :: u8
  s_reserved_word_pad :: u16
  s_default_mount_opts :: u32
  s_first_meta_bg :: u32
  s_reserved :: bytes

text \<open>The block group descriptor, 32 bytes.\<close>

record ext2_block_group_desc =
  bg_block_bitmap :: u32
  bg_inode_bitmap :: u32
  bg_inode_table :: u32
  bg_free_blocks_count :: u16
  bg_free_inodes_count :: u16
  bg_used_dirs_count :: u16
  bg_pad :: u16
  bg_reserved :: bytes

text \<open>The inode, 128 bytes.\<close>

record ext2_inode =
  i_mode :: u16
  i_uid :: u16
  i_size :: u32
  i_atime :: u32
  i_ctime :: u32
  i_mtime :: u32
  i_dtime :: u32
  i_gid :: u16
  i_links_count :: u16
  i_blocks :: u32
  i_flags :: u32
  i_osd1 :: u32
  i_block :: "u32 list"
  i_generation :: u32
  i_file_acl :: u32
  i_dir_acl :: u32
  i_faddr :: u32
  i_osd2 :: bytes

section \<open>Encoders and decoders\<close>

definition encode_superblock :: "ext2_superblock \<Rightarrow> bytes" where
  "encode_superblock sb =
     le32 (s_inodes_count sb) @ le32 (s_blocks_count sb) @ le32 (s_r_blocks_count sb) @
     le32 (s_free_blocks_count sb) @ le32 (s_free_inodes_count sb) @
     le32 (s_first_data_block sb) @ le32 (s_log_block_size sb) @ le32 (s_log_frag_size sb) @
     le32 (s_blocks_per_group sb) @ le32 (s_frags_per_group sb) @ le32 (s_inodes_per_group sb) @
     le32 (s_mtime sb) @ le32 (s_wtime sb) @ le16 (s_mnt_count sb) @ le16 (s_max_mnt_count sb) @
     le16 (s_magic sb) @ le16 (s_state sb) @ le16 (s_errors sb) @ le16 (s_minor_rev_level sb) @
     le32 (s_lastcheck sb) @ le32 (s_checkinterval sb) @ le32 (s_creator_os sb) @
     le32 (s_rev_level sb) @ le16 (s_def_resuid sb) @ le16 (s_def_resgid sb) @
     le32 (s_first_ino sb) @ le16 (s_inode_size sb) @ le16 (s_block_group_nr sb) @
     le32 (s_feature_compat sb) @ le32 (s_feature_incompat sb) @ le32 (s_feature_ro_compat sb) @
     s_uuid sb @ s_volume_name sb @ s_last_mounted sb @ le32 (s_algo_bitmap sb) @
     [s_prealloc_blocks sb] @ [s_prealloc_dir_blocks sb] @ le16 (s_padding1 sb) @
     s_journal_uuid sb @ le32 (s_journal_inum sb) @ le32 (s_journal_dev sb) @
     le32 (s_last_orphan sb) @ concat (map le32 (s_hash_seed sb)) @ [s_def_hash_version sb] @
     [s_reserved_char_pad sb] @ le16 (s_reserved_word_pad sb) @ le32 (s_default_mount_opts sb) @
     le32 (s_first_meta_bg sb) @ s_reserved sb"

definition decode_superblock :: "bytes \<Rightarrow> ext2_superblock" where
  "decode_superblock b0 = (
     let (s_inodes_count', b1) = take_u32 b0 in
     let (s_blocks_count', b2) = take_u32 b1 in
     let (s_r_blocks_count', b3) = take_u32 b2 in
     let (s_free_blocks_count', b4) = take_u32 b3 in
     let (s_free_inodes_count', b5) = take_u32 b4 in
     let (s_first_data_block', b6) = take_u32 b5 in
     let (s_log_block_size', b7) = take_u32 b6 in
     let (s_log_frag_size', b8) = take_u32 b7 in
     let (s_blocks_per_group', b9) = take_u32 b8 in
     let (s_frags_per_group', b10) = take_u32 b9 in
     let (s_inodes_per_group', b11) = take_u32 b10 in
     let (s_mtime', b12) = take_u32 b11 in
     let (s_wtime', b13) = take_u32 b12 in
     let (s_mnt_count', b14) = take_u16 b13 in
     let (s_max_mnt_count', b15) = take_u16 b14 in
     let (s_magic', b16) = take_u16 b15 in
     let (s_state', b17) = take_u16 b16 in
     let (s_errors', b18) = take_u16 b17 in
     let (s_minor_rev_level', b19) = take_u16 b18 in
     let (s_lastcheck', b20) = take_u32 b19 in
     let (s_checkinterval', b21) = take_u32 b20 in
     let (s_creator_os', b22) = take_u32 b21 in
     let (s_rev_level', b23) = take_u32 b22 in
     let (s_def_resuid', b24) = take_u16 b23 in
     let (s_def_resgid', b25) = take_u16 b24 in
     let (s_first_ino', b26) = take_u32 b25 in
     let (s_inode_size', b27) = take_u16 b26 in
     let (s_block_group_nr', b28) = take_u16 b27 in
     let (s_feature_compat', b29) = take_u32 b28 in
     let (s_feature_incompat', b30) = take_u32 b29 in
     let (s_feature_ro_compat', b31) = take_u32 b30 in
     let (s_uuid', b32) = take_raw 16 b31 in
     let (s_volume_name', b33) = take_raw 16 b32 in
     let (s_last_mounted', b34) = take_raw 64 b33 in
     let (s_algo_bitmap', b35) = take_u32 b34 in
     let (s_prealloc_blocks', b36) = take_u8 b35 in
     let (s_prealloc_dir_blocks', b37) = take_u8 b36 in
     let (s_padding1', b38) = take_u16 b37 in
     let (s_journal_uuid', b39) = take_raw 16 b38 in
     let (s_journal_inum', b40) = take_u32 b39 in
     let (s_journal_dev', b41) = take_u32 b40 in
     let (s_last_orphan', b42) = take_u32 b41 in
     let (s_hash_seed', b43) = take_u32s 4 b42 in
     let (s_def_hash_version', b44) = take_u8 b43 in
     let (s_reserved_char_pad', b45) = take_u8 b44 in
     let (s_reserved_word_pad', b46) = take_u16 b45 in
     let (s_default_mount_opts', b47) = take_u32 b46 in
     let (s_first_meta_bg', b48) = take_u32 b47 in
     let (s_reserved', b49) = take_raw 760 b48 in
     \<lparr>s_inodes_count = s_inodes_count', s_blocks_count = s_blocks_count',
       s_r_blocks_count = s_r_blocks_count', s_free_blocks_count = s_free_blocks_count',
       s_free_inodes_count = s_free_inodes_count',
       s_first_data_block = s_first_data_block', s_log_block_size = s_log_block_size',
       s_log_frag_size = s_log_frag_size', s_blocks_per_group = s_blocks_per_group',
       s_frags_per_group = s_frags_per_group', s_inodes_per_group = s_inodes_per_group',
       s_mtime = s_mtime', s_wtime = s_wtime', s_mnt_count = s_mnt_count',
       s_max_mnt_count = s_max_mnt_count', s_magic = s_magic', s_state = s_state',
       s_errors = s_errors', s_minor_rev_level = s_minor_rev_level',
       s_lastcheck = s_lastcheck', s_checkinterval = s_checkinterval',
       s_creator_os = s_creator_os', s_rev_level = s_rev_level',
       s_def_resuid = s_def_resuid', s_def_resgid = s_def_resgid',
       s_first_ino = s_first_ino', s_inode_size = s_inode_size',
       s_block_group_nr = s_block_group_nr', s_feature_compat = s_feature_compat',
       s_feature_incompat = s_feature_incompat',
       s_feature_ro_compat = s_feature_ro_compat', s_uuid = s_uuid',
       s_volume_name = s_volume_name', s_last_mounted = s_last_mounted',
       s_algo_bitmap = s_algo_bitmap', s_prealloc_blocks = s_prealloc_blocks',
       s_prealloc_dir_blocks = s_prealloc_dir_blocks', s_padding1 = s_padding1',
       s_journal_uuid = s_journal_uuid', s_journal_inum = s_journal_inum',
       s_journal_dev = s_journal_dev', s_last_orphan = s_last_orphan',
       s_hash_seed = s_hash_seed', s_def_hash_version = s_def_hash_version',
       s_reserved_char_pad = s_reserved_char_pad',
       s_reserved_word_pad = s_reserved_word_pad',
       s_default_mount_opts = s_default_mount_opts', s_first_meta_bg = s_first_meta_bg',
       s_reserved = s_reserved'\<rparr>)"

definition encode_bg_desc :: "ext2_block_group_desc \<Rightarrow> bytes" where
  "encode_bg_desc bg =
     le32 (bg_block_bitmap bg) @ le32 (bg_inode_bitmap bg) @ le32 (bg_inode_table bg) @
     le16 (bg_free_blocks_count bg) @ le16 (bg_free_inodes_count bg) @
     le16 (bg_used_dirs_count bg) @ le16 (bg_pad bg) @ bg_reserved bg"

definition decode_bg_desc :: "bytes \<Rightarrow> ext2_block_group_desc" where
  "decode_bg_desc b0 = (
     let (bg_block_bitmap', b1) = take_u32 b0 in
     let (bg_inode_bitmap', b2) = take_u32 b1 in
     let (bg_inode_table', b3) = take_u32 b2 in
     let (bg_free_blocks_count', b4) = take_u16 b3 in
     let (bg_free_inodes_count', b5) = take_u16 b4 in
     let (bg_used_dirs_count', b6) = take_u16 b5 in
     let (bg_pad', b7) = take_u16 b6 in
     let (bg_reserved', b8) = take_raw 12 b7 in
     \<lparr>bg_block_bitmap = bg_block_bitmap', bg_inode_bitmap = bg_inode_bitmap',
       bg_inode_table = bg_inode_table', bg_free_blocks_count = bg_free_blocks_count',
       bg_free_inodes_count = bg_free_inodes_count',
       bg_used_dirs_count = bg_used_dirs_count', bg_pad = bg_pad',
       bg_reserved = bg_reserved'\<rparr>)"

definition encode_inode :: "ext2_inode \<Rightarrow> bytes" where
  "encode_inode i =
     le16 (i_mode i) @ le16 (i_uid i) @ le32 (i_size i) @ le32 (i_atime i) @ le32 (i_ctime i) @
     le32 (i_mtime i) @ le32 (i_dtime i) @ le16 (i_gid i) @ le16 (i_links_count i) @
     le32 (i_blocks i) @ le32 (i_flags i) @ le32 (i_osd1 i) @ concat (map le32 (i_block i)) @
     le32 (i_generation i) @ le32 (i_file_acl i) @ le32 (i_dir_acl i) @ le32 (i_faddr i) @
     i_osd2 i"

definition decode_inode :: "bytes \<Rightarrow> ext2_inode" where
  "decode_inode b0 = (
     let (i_mode', b1) = take_u16 b0 in
     let (i_uid', b2) = take_u16 b1 in
     let (i_size', b3) = take_u32 b2 in
     let (i_atime', b4) = take_u32 b3 in
     let (i_ctime', b5) = take_u32 b4 in
     let (i_mtime', b6) = take_u32 b5 in
     let (i_dtime', b7) = take_u32 b6 in
     let (i_gid', b8) = take_u16 b7 in
     let (i_links_count', b9) = take_u16 b8 in
     let (i_blocks', b10) = take_u32 b9 in
     let (i_flags', b11) = take_u32 b10 in
     let (i_osd1', b12) = take_u32 b11 in
     let (i_block', b13) = take_u32s 15 b12 in
     let (i_generation', b14) = take_u32 b13 in
     let (i_file_acl', b15) = take_u32 b14 in
     let (i_dir_acl', b16) = take_u32 b15 in
     let (i_faddr', b17) = take_u32 b16 in
     let (i_osd2', b18) = take_raw 12 b17 in
     \<lparr>i_mode = i_mode', i_uid = i_uid', i_size = i_size', i_atime = i_atime',
       i_ctime = i_ctime', i_mtime = i_mtime', i_dtime = i_dtime', i_gid = i_gid',
       i_links_count = i_links_count', i_blocks = i_blocks', i_flags = i_flags',
       i_osd1 = i_osd1', i_block = i_block', i_generation = i_generation',
       i_file_acl = i_file_acl', i_dir_acl = i_dir_acl', i_faddr = i_faddr',
       i_osd2 = i_osd2'\<rparr>)"

text \<open>The arrays of a structure have their declared lengths.\<close>

definition superblock_wf :: "ext2_superblock \<Rightarrow> bool" where
  "superblock_wf sb = (length (s_uuid sb) = 16 \<and>
     length (s_volume_name sb) = 16 \<and>
     length (s_last_mounted sb) = 64 \<and>
     length (s_journal_uuid sb) = 16 \<and>
     length (s_hash_seed sb) = 4 \<and>
     length (s_reserved sb) = 760)"

definition bg_desc_wf :: "ext2_block_group_desc \<Rightarrow> bool" where
  "bg_desc_wf bg = (length (bg_reserved bg) = 12)"

definition inode_wf :: "ext2_inode \<Rightarrow> bool" where
  "inode_wf i = (length (i_block i) = 15 \<and>
     length (i_osd2 i) = 12)"

section \<open>Sizes and round trips\<close>

lemma length_encode_superblock: "superblock_wf sb \<Longrightarrow> length (encode_superblock sb) = 1024"
  by (simp add: encode_superblock_def superblock_wf_def)

lemma length_encode_bg_desc: "bg_desc_wf bg \<Longrightarrow> length (encode_bg_desc bg) = 32"
  by (simp add: encode_bg_desc_def bg_desc_wf_def)

lemma length_encode_inode: "inode_wf i \<Longrightarrow> length (encode_inode i) = 128"
  by (simp add: encode_inode_def inode_wf_def)

lemma decode_encode_inode:
  assumes "inode_wf i"
  shows "decode_inode (encode_inode i @ r) = i"
  using assms by (simp add: decode_inode_def encode_inode_def inode_wf_def codec_simps)

lemma decode_encode_bg_desc:
  assumes "bg_desc_wf bg"
  shows "decode_bg_desc (encode_bg_desc bg @ r) = bg"
  using assms by (simp add: decode_bg_desc_def encode_bg_desc_def bg_desc_wf_def codec_simps)

lemma decode_encode_superblock:
  assumes "superblock_wf sb"
  shows "decode_superblock (encode_superblock sb @ r) = sb"
  using assms by (simp add: decode_superblock_def encode_superblock_def superblock_wf_def codec_simps)

text \<open>What a decoder returns on a buffer that is long enough has arrays of the declared lengths.\<close>

lemma take_u32s_result:
  "length (fst (take_u32s n b)) = n \<and> snd (take_u32s n b) = drop (4 * n) b"
proof (induction n arbitrary: b)
  case 0
  then show ?case by simp
next
  case (Suc n)
  then show ?case by (simp add: take_u32_def split_def Let_def add.commute)
qed

lemmas take_results = take_u8_def take_u16_def take_u32_def take_raw_def take_u32s_result

lemma decode_inode_wf: "128 \<le> length b \<Longrightarrow> inode_wf (decode_inode b)"
  by (simp add: decode_inode_def inode_wf_def split_def Let_def take_results)

lemma decode_bg_desc_wf: "32 \<le> length b \<Longrightarrow> bg_desc_wf (decode_bg_desc b)"
  by (simp add: decode_bg_desc_def bg_desc_wf_def split_def Let_def take_results)

lemma decode_superblock_wf: "1024 \<le> length b \<Longrightarrow> superblock_wf (decode_superblock b)"
  by (simp add: decode_superblock_def superblock_wf_def split_def Let_def take_results)

end
