(* ===== verification/Ext2_Super.thy ===== *)
theory Ext2_Super
  imports Cache_History Ext2_Format
begin

text \<open>
  The state of a mounted ext2 file system, and superblock and group descriptors:
  \<^verbatim>\<open>src/fs/ext2/superblock.c\<close> and \<^verbatim>\<open>src/fs/ext2/ext2.c\<close>.

  The kernel state has the block cache, the position of the heap, the variable
  \<^verbatim>\<open>system_time\<close> and the structure \<^verbatim>\<open>ext2_fs_t\<close>; the pointer
  \<^verbatim>\<open>fs->block_device\<close> is always the cache.  A buffer on the stack is not initialised by C:
  its first contents are an argument \<open>stk\<close> of the functions that have one, and the facts hold
  for every value of it.  Messages on the console are left out.
\<close>

section \<open>State\<close>

record ext2_fs =
  fs_superblock :: ext2_superblock
  fs_block_groups :: "ext2_block_group_desc list"
  fs_block_size :: u32
  fs_num_block_groups :: u32
  fs_dirty :: bool

record 'd kstate =
  k_cache :: "'d block_cache"
  k_heap :: u64
  k_time :: u64
  k_fs :: ext2_fs

definition upd_fs :: "(ext2_fs \<Rightarrow> ext2_fs) \<Rightarrow> 'd kstate \<Rightarrow> 'd kstate" where
  "upd_fs f s = s\<lparr>k_fs := f (k_fs s)\<rparr>"

definition on_cache :: "('d block_cache, 'a) prog \<Rightarrow> ('d kstate, 'a) prog" where
  "on_cache m = zoom k_cache (\<lambda>c s. s\<lparr>k_cache := c\<rparr>) m"

definition cache_read :: "u64 \<Rightarrow> bytes \<Rightarrow> ('d kstate, i32 \<times> bytes) prog" where
  "cache_read n buf = bindP (gets k_time) (\<lambda>now. on_cache (block_cache_read now n (Some buf)))"

definition cache_write :: "u64 \<Rightarrow> bytes \<Rightarrow> ('d kstate, i32) prog" where
  "cache_write n buf = bindP (gets k_time) (\<lambda>now. on_cache (block_cache_write now n (Some buf)))"

text \<open>\<^verbatim>\<open>malloc\<close> of a buffer: \<open>None\<close> is the null pointer.\<close>

definition k_malloc :: "u64 \<Rightarrow> ('d kstate, bytes option) prog" where
  "k_malloc sz = (\<lambda>s. case malloc sz (k_heap s) of
     (p, h) \<Rightarrow> (Val (map_option (\<lambda>_. replicate (unat sz) 0) p), s\<lparr>k_heap := h\<rparr>))"

text \<open>The frequent \<^verbatim>\<open>p = malloc(n); if (!p) return ERR_NO_MEMORY;\<close>.\<close>

definition alloc_buffer :: "u64 \<Rightarrow> ('d kstate, bytes) prog" where
  "alloc_buffer sz = bindP (k_malloc sz) (\<lambda>p. case p of None \<Rightarrow> throw ERR_NO_MEMORY | Some b \<Rightarrow> ret b)"

section \<open>Superblock\<close>

definition ext2_read_superblock :: "bytes \<Rightarrow> ('d kstate, ext2_superblock) prog" where
  "ext2_read_superblock stk =
     bindP (cache_read 1 stk) (\<lambda>(_, buffer).
     bindP (guard (1024 \<le> length buffer)) (\<lambda>_.
     ret (decode_superblock buffer)))"

definition ext2_write_superblock :: "bytes \<Rightarrow> ext2_superblock \<Rightarrow> ('d kstate, i32) prog" where
  "ext2_write_superblock stk sb =
     bindP (the_or_ub (memcpy stk 0 (encode_superblock sb) 0 1024)) (\<lambda>buffer.
     bindP (cache_write 1 buffer) (\<lambda>_. ret ERR_SUCCESS))"

definition ext2_validate_superblock :: "ext2_superblock \<Rightarrow> bool" where
  "ext2_validate_superblock sb =
     (if s_magic sb \<noteq> EXT2_MAGIC then False
      else if s_inodes_count sb = 0 \<or> s_blocks_count sb = 0 then False
      else if s_blocks_per_group sb = 0 \<or> s_inodes_per_group sb = 0 then False
      else True)"

section \<open>Block group descriptors\<close>

text \<open>
  The values of the loop variable of \<^verbatim>\<open>for (i = 0; i < n; i += 32)\<close>.  The variable cannot
  wrap around: the descriptors before \<open>i\<close> fill memory of the heap of 1 MB.
\<close>

definition group_starts :: "nat \<Rightarrow> nat list" where
  "group_starts n = map (\<lambda>k. 32 * k) [0..<(n + 31) div 32]"

fun read_groups_from :: "nat list \<Rightarrow> nat \<Rightarrow> u32 \<Rightarrow> bytes \<Rightarrow> bytes \<Rightarrow> ('d kstate, bytes) prog" where
  "read_groups_from [] num_bg bg_block buffer bg = ret bg"
| "read_groups_from (i # is) num_bg bg_block buffer bg =
     bindP (cache_read (ucast bg_block) buffer) (\<lambda>(_, buffer').
     bindP (the_or_ub (memcpy bg (i * 32) buffer' 0 (min (num_bg - i) 32 * 32))) (\<lambda>bg'.
     read_groups_from is num_bg (bg_block + 1) buffer' bg'))"

definition ext2_read_block_groups ::
  "bytes \<Rightarrow> ext2_superblock \<Rightarrow> ('d kstate, ext2_block_group_desc list \<times> u32) prog" where
  "ext2_read_block_groups stk sb =
     bindP (guard (s_blocks_per_group sb \<noteq> 0)) (\<lambda>_.
     let num_bg = (s_blocks_count sb + s_blocks_per_group sb - 1) div s_blocks_per_group sb;
         bg_size = num_bg * 32
     in bindP (alloc_buffer (ucast bg_size)) (\<lambda>bg.
        bindP (read_groups_from (group_starts (unat num_bg)) (unat num_bg) 2 stk bg) (\<lambda>bg'.
        ret (map (\<lambda>k. decode_bg_desc (get_bytes bg' (32 * k) 32)) [0..<unat num_bg], num_bg))))"

fun write_groups_from :: "nat list \<Rightarrow> nat \<Rightarrow> u32 \<Rightarrow> bytes \<Rightarrow> bytes \<Rightarrow> ('d kstate, i32) prog" where
  "write_groups_from [] num_groups bg_block buffer bg = ret ERR_SUCCESS"
| "write_groups_from (i # is) num_groups bg_block buffer bg =
     bindP (the_or_ub (memcpy buffer 0 bg (i * 32) (min (num_groups - i) 32 * 32))) (\<lambda>buffer'.
     bindP (cache_write (ucast bg_block) buffer') (\<lambda>_.
     write_groups_from is num_groups (bg_block + 1) buffer' bg))"

definition ext2_write_block_groups ::
  "bytes \<Rightarrow> ext2_block_group_desc list \<Rightarrow> u32 \<Rightarrow> ('d kstate, i32) prog" where
  "ext2_write_block_groups stk bg num_groups =
     write_groups_from (group_starts (unat num_groups)) (unat num_groups) 2 stk
       (concat (map encode_bg_desc bg))"

definition ext2_get_block_group :: "ext2_superblock \<Rightarrow> u32 \<Rightarrow> u32 option" where
  "ext2_get_block_group sb block_num =
     (if s_blocks_per_group sb = 0 then None
      else Some ((block_num - s_first_data_block sb) div s_blocks_per_group sb))"

definition ext2_get_inode_group :: "ext2_superblock \<Rightarrow> u32 \<Rightarrow> u32 option" where
  "ext2_get_inode_group sb ino =
     (if s_inodes_per_group sb = 0 then None else Some ((ino - 1) div s_inodes_per_group sb))"

section \<open>Mounting, syncing and unmounting\<close>

definition sizeof_ext2_fs :: u64 where "sizeof_ext2_fs = 40"
definition sizeof_superblock :: u64 where "sizeof_superblock = 1024"

text \<open>
  The result of \<^verbatim>\<open>ext2_mount\<close> is whether the pointer it returns is not null; it is then a
  pointer to \<open>k_fs\<close>.  The argument is whether \<^verbatim>\<open>block_device\<close> is not null.  Shifting the
  \<^verbatim>\<open>int\<close> 1024 left by 21 or more overflows, which is undefined.
\<close>

definition ext2_mount :: "bytes \<Rightarrow> bool \<Rightarrow> ('d kstate, bool) prog" where
  "ext2_mount stk block_device =
     (if \<not> block_device then ret False else
      catch
       (bindP (alloc_buffer sizeof_ext2_fs) (\<lambda>_.
        bindP (alloc_buffer sizeof_superblock) (\<lambda>_.
        bindP (ext2_read_superblock stk) (\<lambda>sb.
        if \<not> ext2_validate_superblock sb then ret False else
        bindP (guard (s_log_block_size sb < 21)) (\<lambda>_.
        bindP (ext2_read_block_groups stk sb) (\<lambda>(bg, num_bg).
        bindP (modify (\<lambda>s. s\<lparr>k_fs := \<lparr>fs_superblock = sb, fs_block_groups = bg,
            fs_block_size = push_bit (unat (s_log_block_size sb)) 1024,
            fs_num_block_groups = num_bg, fs_dirty = False\<rparr>\<rparr>)) (\<lambda>_.
        ret True)))))))
       (\<lambda>_. ret False))"

definition ext2_sync :: "bytes \<Rightarrow> bool \<Rightarrow> ('d kstate, i32) prog" where
  "ext2_sync stk fs =
     bindP (gets k_fs) (\<lambda>f.
     if \<not> fs \<or> \<not> fs_dirty f then ret ERR_SUCCESS else
     bindP (ext2_write_superblock stk (fs_superblock f)) (\<lambda>_.
     bindP (ext2_write_block_groups stk (fs_block_groups f) (fs_num_block_groups f)) (\<lambda>_.
     bindP (on_cache block_cache_flush) (\<lambda>_.
     bindP (modify (upd_fs (\<lambda>f. f\<lparr>fs_dirty := False\<rparr>))) (\<lambda>_.
     ret ERR_SUCCESS)))))"

definition ext2_umount :: "bytes \<Rightarrow> bool \<Rightarrow> ('d kstate, i32) prog" where
  "ext2_umount stk fs =
     (if \<not> fs then throw ERR_INVALID
      else bindP (ignoreP (ext2_sync stk fs)) (\<lambda>_. ret ERR_SUCCESS))"

section \<open>Buffers and the cache\<close>

lemma upd_fs_fields [simp]:
  "k_cache (upd_fs f s) = k_cache s" "k_heap (upd_fs f s) = k_heap s"
  "k_time (upd_fs f s) = k_time s" "k_fs (upd_fs f s) = f (k_fs s)"
  by (simp_all add: upd_fs_def)

lemma wp_alloc_buffer [wp_simps]:
  "wp (alloc_buffer sz) Q E = (\<lambda>s. case malloc sz (k_heap s) of
     (None, h) \<Rightarrow> E ERR_NO_MEMORY (s\<lparr>k_heap := h\<rparr>)
   | (Some _, h) \<Rightarrow> Q (replicate (unat sz) 0) (s\<lparr>k_heap := h\<rparr>))"
  by (rule ext) (simp add: wp_def alloc_buffer_def bindP_def k_malloc_def ret_def throw_def
      split: prod.split option.split)

lemma alloc_buffer_rule:
  assumes "\<And>h. Q (replicate (unat sz) 0) (s\<lparr>k_heap := h\<rparr>)"
    and "HEAP_SIZE < k_heap s + sz \<Longrightarrow> E ERR_NO_MEMORY s"
  shows "wp (alloc_buffer sz) Q E s"
  using assms by (simp add: wp_simps malloc_def)

text \<open>Block numbers.\<close>

definition blkno :: "nat \<Rightarrow> u64" where
  "blkno m = word_of_nat m"

lemma ucast_blkno: "m < 2 ^ 32 \<Longrightarrow> (ucast (word_of_nat m :: u32) :: u64) = blkno m"
  by (simp add: blkno_def word_unat_eq_iff unsigned_ucast_eq unat_of_nat take_bit_nat_eq_self_iff)

lemma ucast_unat_blkno: "ucast (w :: u32) = blkno (unat w)"
  by (simp add: blkno_def)

lemma blkno_inject [simp]:
  "m < 2 ^ 32 \<Longrightarrow> n < 2 ^ 32 \<Longrightarrow> (blkno m = blkno n) = (m = n)"
  by (simp add: blkno_def word_unat_eq_iff unat_of_nat)

lemma cache_write_1: "cache_write 1 = cache_write (blkno 1)" and cache_read_1: "cache_read 1 = cache_read (blkno 1)"
  by (simp_all add: blkno_def)

lemma table_start: "(2 :: u32) = word_of_nat (2 + 0)"
  by simp

text \<open>The descriptor of group \<open>k\<close> as it is on the disk, and its bytes.\<close>

definition desc_bytes :: "(u64 \<Rightarrow> bytes option) \<Rightarrow> nat \<Rightarrow> bytes" where
  "desc_bytes v k = get_bytes (the (v (blkno (2 + k div 32)))) (32 * (k mod 32)) 32"

definition desc_at :: "(u64 \<Rightarrow> bytes option) \<Rightarrow> nat \<Rightarrow> ext2_block_group_desc" where
  "desc_at v k = decode_bg_desc (desc_bytes v k)"

lemma group_block_bytes:
  assumes "k < n" "length bg = 32 * n" "length buf = 1024" "j = k div 32"
  shows "get_bytes (put_bytes buf 0 (get_bytes bg (1024 * j) (min (n - 32 * j) 32 * 32)))
    (32 * (k mod 32)) 32 = get_bytes bg (32 * k) 32"
proof -
  define r where "r = k mod 32"
  have k: "k = 32 * j + r" "r < 32" using assms(4) by (simp_all add: r_def)
  let ?len = "min (n - 32 * j) 32 * 32"
  have "1024 * j + ?len \<le> length bg" "32 * r + 32 \<le> ?len" "?len \<le> 1024" "1024 * j + 32 * r = 32 * k"
    using k assms(1,2) by linarith+
  with assms(3) show ?thesis
    by (simp add: get_put_inside get_get_bytes length_get_bytes flip: r_def)
qed

lemma wp_the_or_ub_Some: "wp (the_or_ub (Some x)) Q E = Q x"
  by (rule ext) (simp add: wp_simps)

text \<open>The heap has room for \<open>n\<close> more bytes.\<close>

definition fits :: "nat \<Rightarrow> 'd kstate \<Rightarrow> bool" where
  "fits n s = (heap_inv (k_heap s) \<and> unat (k_heap s) + n \<le> unat HEAP_SIZE)"

lemma alloc_fits:
  assumes "fits (unat sz + 15 + n) s"
    and "\<And>h. fits n (s\<lparr>k_heap := h\<rparr>) \<Longrightarrow> Q (replicate (unat sz) 0) (s\<lparr>k_heap := h\<rparr>)"
  shows "wp (alloc_buffer sz) Q E s"
proof -
  have h: "heap_inv (k_heap s)" "unat (k_heap s) + unat sz + 15 + n \<le> 1048576"
    using assms(1) by (simp_all add: fits_def)
  then have sz: "unat sz \<le> 2 ^ 32" by simp
  note m = malloc_cases [OF h(1) sz]
  have "fits n (s\<lparr>k_heap := ALIGN_UP (k_heap s + sz) 16\<rparr>)"
    using h m heap_inv_malloc [OF h(1), of sz] by (simp add: fits_def)
  then show ?thesis
    using assms(2) m(1) h by (simp add: wp_simps)
qed

lemma fits_mono: "fits n s \<Longrightarrow> m \<le> n \<Longrightarrow> fits m s"
  by (simp add: fits_def)

lemma fits_cache [simp]: "fits n (s\<lparr>k_cache := c\<rparr>) = fits n s" "fits n (upd_fs f s) = fits n s"
  by (simp_all add: fits_def)

text \<open>The number of groups of a file system and of blocks of the descriptor table.\<close>

definition num_groups :: "ext2_superblock \<Rightarrow> u32" where
  "num_groups sb = (s_blocks_count sb + s_blocks_per_group sb - 1) div s_blocks_per_group sb"

definition table_blocks :: "nat \<Rightarrow> nat" where
  "table_blocks n = (n + 31) div 32"

lemma table_blocks_bounds: "n \<le> 32 * table_blocks n" "32 * table_blocks n < n + 32"
  unfolding table_blocks_def by linarith+

lemma group_starts_table: "group_starts n = map (\<lambda>k. 32 * k) [0..<table_blocks n]"
  by (simp add: group_starts_def table_blocks_def)

lemma table_blocks_u32: "2 + table_blocks (unat (n :: u32)) < 2 ^ 32"
proof -
  have "unat n < 2 ^ 32" by (rule order.strict_trans2 [OF unsigned_less]) simp
  then show ?thesis using table_blocks_bounds(2) [of "unat n"] by simp
qed

text \<open>Superblock \<open>sb\<close> and descriptors \<open>bg\<close> are on the disk.\<close>

definition meta_on_disk :: "(u64 \<Rightarrow> bytes option) \<Rightarrow> ext2_superblock \<Rightarrow> ext2_block_group_desc list \<Rightarrow> bool" where
  "meta_on_disk v sb bg = (v (blkno 1) = Some (encode_superblock sb) \<and>
     (\<forall>i < table_blocks (length bg). v (blkno (2 + i)) \<noteq> None) \<and>
     (\<forall>k < length bg. desc_at v k = bg ! k))"

lemma get_concat_chunk:
  "(\<forall>x \<in> set xs. length (f x) = m) \<Longrightarrow> k < length xs \<Longrightarrow>
    get_bytes (concat (map f xs)) (m * k) m = f (xs ! k)"
proof (induction xs arbitrary: k)
  case Nil
  then show ?case by simp
next
  case (Cons x xs)
  then show ?case by (cases k) (simp_all add: get_bytes_def)
qed

lemma length_concat_chunks:
  "\<forall>x \<in> set xs. length (f x) = m \<Longrightarrow> length (concat (map f xs)) = m * length xs"
  by (induction xs) simp_all

context block_dev
begin

lemma cache_read_rule:
  assumes "ok (k_cache s)" "addr n" "view (k_cache s) n = Some b" "length buf = bs"
    and "\<And>c. ok c \<Longrightarrow> view c = view (k_cache s) \<Longrightarrow> Q (int bs, b) (s\<lparr>k_cache := c\<rparr>)"
  shows "wp (cache_read n buf) Q E s"
  using assms(5)
  by (auto simp: cache_read_def on_cache_def wp_simps
      intro!: wp_conseq [OF read_ok [OF assms(1-4), where E = "\<lambda>_ _. False"]])

lemma cache_write_rule:
  assumes "ok (k_cache s)" "addr n" "view (k_cache s) n \<noteq> None" "length b = bs"
    and "\<And>c. ok c \<Longrightarrow> view c = (view (k_cache s))(n \<mapsto> b) \<Longrightarrow> Q (int bs) (s\<lparr>k_cache := c\<rparr>)"
  shows "wp (cache_write n b) Q E s"
  using assms(5)
  by (auto simp: cache_write_def on_cache_def wp_simps
      intro!: wp_conseq [OF write_ok [OF assms(1-4), where E = "\<lambda>_ _. False"]])

text \<open>Blocks of the disk.\<close>

definition present :: "(u64 \<Rightarrow> bytes option) \<Rightarrow> nat \<Rightarrow> bool" where
  "present v m = (addr (blkno m) \<and> v (blkno m) \<noteq> None)"

lemma write_groups_ok:
  assumes "ok (k_cache s)" "bs = 1024" "length buf = 1024" "length bg = 32 * n"
    and "j \<le> K" "2 + K < 2 ^ 32"
    and "\<forall>i < K. present (view (k_cache s)) (2 + i)" "n \<le> 32 * K" "32 * K < n + 32"
  shows "wp (write_groups_from (map (\<lambda>k. 32 * k) [j..<K]) n (word_of_nat (2 + j)) buf bg)
    (\<lambda>r s'. r = ERR_SUCCESS \<and> (\<exists>c. s' = s\<lparr>k_cache := c\<rparr> \<and> ok c \<and>
       (\<forall>m. (\<forall>i. j \<le> i \<and> i < K \<longrightarrow> m \<noteq> blkno (2 + i)) \<longrightarrow>
          view c m = view (k_cache s) m) \<and>
       (\<forall>k. 32 * j \<le> k \<and> k < n \<longrightarrow> desc_bytes (view c) k = get_bytes bg (32 * k) 32) \<and>
       (\<forall>i < K. present (view c) (2 + i)))) E s"
  using assms
proof (induction "K - j" arbitrary: j buf s)
  case 0
  then have "j = K" by simp
  moreover have "\<not> (32 * K \<le> k \<and> k < n)" for k using "0.prems"(8) by linarith
  ultimately show ?case using "0.prems" by (auto simp: wp_simps intro!: exI [of _ "k_cache s"])
next
  case (Suc d)
  have j: "j < K" using Suc.hyps(2) by linarith
  let ?len = "min (n - 32 * j) 32 * 32"
  let ?b = "put_bytes buf 0 (get_bytes bg (1024 * j) ?len)"
  have jn: "32 * j < n" using j Suc.prems(9) by linarith
  have in_bg: "1024 * j + ?len \<le> length bg" using jn Suc.prems(4) by linarith
  have len: "length (get_bytes bg (1024 * j) ?len) = ?len"
    using in_bg by (simp add: length_get_bytes)
  have lb: "length ?b = 1024" using len Suc.prems(3) by (simp add: buffer_simps min_def)
  have cp: "memcpy buf 0 bg (32 * j * 32) ?len = Some ?b"
    using in_bg Suc.prems(3) by (subst memcpy_block) (simp_all add: mult.commute min_def)
  have blk: "(ucast (word_of_nat (2 + j) :: u32) :: u64) = blkno (2 + j)"
    using j Suc.prems(6) by (intro ucast_blkno) linarith
  have pj: "addr (blkno (2 + j))" "view (k_cache s) (blkno (2 + j)) \<noteq> None"
    using Suc.prems(7) j by (auto simp: present_def)
  have step: "wp (write_groups_from (map (\<lambda>k. 32 * k) [Suc j..<K]) n (word_of_nat (2 + Suc j)) ?b bg)
     (\<lambda>r s'. r = ERR_SUCCESS \<and> (\<exists>c. s' = s\<lparr>k_cache := c\<rparr> \<and> ok c \<and>
       (\<forall>m. (\<forall>i. j \<le> i \<and> i < K \<longrightarrow> m \<noteq> blkno (2 + i)) \<longrightarrow> view c m = view (k_cache s) m) \<and>
       (\<forall>k. 32 * j \<le> k \<and> k < n \<longrightarrow> desc_bytes (view c) k = get_bytes bg (32 * k) 32) \<and>
       (\<forall>i < K. present (view c) (2 + i)))) E (s\<lparr>k_cache := c1\<rparr>)"
    if c1: "ok c1" "view c1 = (view (k_cache s))(blkno (2 + j) \<mapsto> ?b)" for c1
  proof (rule wp_conseq [OF Suc.hyps(1) [of "Suc j" "s\<lparr>k_cache := c1\<rparr>" ?b]], goal_cases)
    case (11 r s')
    then obtain c where c: "r = ERR_SUCCESS" "s' = s\<lparr>k_cache := c\<rparr>" "ok c"
      "\<And>m. (\<forall>i. Suc j \<le> i \<and> i < K \<longrightarrow> m \<noteq> blkno (2 + i)) \<Longrightarrow> view c m = view c1 m"
      "\<forall>k. 32 * Suc j \<le> k \<and> k < n \<longrightarrow> desc_bytes (view c) k = get_bytes bg (32 * k) 32"
      "\<forall>i < K. present (view c) (2 + i)" by auto
    have ne: "blkno (2 + j) \<noteq> blkno (2 + i)" if "Suc j \<le> i \<and> i < K" for i
      using that j Suc.prems(6) by (subst blkno_inject) linarith+
    have "view c (blkno (2 + j)) = view c1 (blkno (2 + j))"
      by (rule c(4)) (use ne in blast)
    then have "view c (blkno (2 + j)) = Some ?b" by (simp only: c1(2) fun_upd_same)
    then have here: "desc_bytes (view c) k = get_bytes bg (32 * k) 32"
      if "32 * j \<le> k" "k < 32 * Suc j" "k < n" for k
    proof -
      have kj: "k div 32 = j" using that(1,2) by (intro div_nat_eqI)
      have "desc_bytes (view c) k = get_bytes ?b (32 * (k mod 32)) 32"
        by (simp only: desc_bytes_def kj \<open>view c (blkno (2 + j)) = Some ?b\<close> option.sel)
      also have "\<dots> = get_bytes bg (32 * k) 32"
        by (rule group_block_bytes [OF that(3) Suc.prems(4,3) kj [symmetric]])
      finally show ?thesis .
    qed
    have "desc_bytes (view c) k = get_bytes bg (32 * k) 32" if "32 * j \<le> k \<and> k < n" for k
      using that here c(5) by (cases "k < 32 * Suc j") auto
    moreover have "view c m = view (k_cache s) m" if "\<forall>i. j \<le> i \<and> i < K \<longrightarrow> m \<noteq> blkno (2 + i)" for m
      using that c(4) [of m] j c1(2) by auto
    ultimately show ?case
      using c(1-3,6) by blast
  qed (use Suc.hyps(2) Suc.prems lb c1 j in \<open>auto simp: present_def\<close>)
  have split: "map (\<lambda>k. 32 * k) [j..<K] = 32 * j # map (\<lambda>k. 32 * k) [Suc j..<K]"
    using j by (simp add: upt_conv_Cons)
  have nxt: "word_of_nat (2 + j) + 1 = (word_of_nat (2 + Suc j) :: u32)" by simp
  have lb': "length ?b = bs" using lb Suc.prems(2) by simp
  show ?case
    unfolding split write_groups_from.simps blk nxt wp_bindP wp_the_or_ub_Some cp
    by (rule cache_write_rule [OF Suc.prems(1) pj lb']) (rule step)
qed

lemma read_groups_ok:
  assumes "ok (k_cache s)" "bs = 1024" "length buf = 1024" "length bg = 32 * n"
    and "j \<le> K" "2 + K < 2 ^ 32"
    and "\<forall>i < K. present (view (k_cache s)) (2 + i)"
    and "\<forall>k < n. k < 32 * j \<longrightarrow> get_bytes bg (32 * k) 32 = desc_bytes (view (k_cache s)) k"
    and "n \<le> 32 * K" "32 * K < n + 32"
  shows "wp (read_groups_from (map (\<lambda>k. 32 * k) [j..<K]) n (word_of_nat (2 + j)) buf bg)
    (\<lambda>bg' s'. (\<exists>c. s' = s\<lparr>k_cache := c\<rparr> \<and> ok c \<and> view c = view (k_cache s)) \<and>
       (\<forall>k < n. get_bytes bg' (32 * k) 32 = desc_bytes (view (k_cache s)) k)) E s"
  using assms
proof (induction "K - j" arbitrary: j buf bg s)
  case 0
  then have "j = K" by simp
  moreover have "k < 32 * K" if "k < n" for k using that "0.prems"(9) by linarith
  ultimately show ?case using "0.prems" by (auto simp: wp_simps intro!: exI [of _ "k_cache s"])
next
  case (Suc d)
  let ?len = "min (n - 32 * j) 32 * 32"
  have j: "j < K" using Suc.hyps(2) by linarith
  then have jn: "32 * j < n" using Suc.prems(10) by linarith
  obtain b where b: "addr (blkno (2 + j))" "view (k_cache s) (blkno (2 + j)) = Some b"
    using Suc.prems(7) j by (auto simp: present_def)
  have lb: "length b = 1024"
    using view_length [OF Suc.prems(1) b(2)] Suc.prems(2) by simp
  have in_bg: "1024 * j + ?len \<le> length bg" "?len \<le> 1024" using jn Suc.prems(4) by linarith+
  let ?bg = "put_bytes bg (1024 * j) (get_bytes b 0 ?len)"
  have lg: "length (get_bytes b 0 ?len) = ?len" using in_bg lb by (simp add: length_get_bytes)
  have lbg: "length ?bg = 32 * n" using lg in_bg Suc.prems(4) by (simp add: length_put_bytes)
  have cp: "memcpy bg (32 * j * 32) b 0 ?len = Some ?bg"
    using in_bg lb by (subst memcpy_block) (simp_all add: mult.commute)
  have blk: "(ucast (word_of_nat (2 + j) :: u32) :: u64) = blkno (2 + j)"
    using j Suc.prems(6) by (intro ucast_blkno) linarith
  have got: "get_bytes ?bg (32 * k) 32 = desc_bytes (view (k_cache s)) k" if k: "k < n" "k < 32 * Suc j" for k
  proof (cases "k < 32 * j")
    case True
    then have "get_bytes ?bg (32 * k) 32 = get_bytes bg (32 * k) 32"
      using k in_bg lg Suc.prems(4) by (intro get_put_other) auto
    with Suc.prems(8) True k show ?thesis by simp
  next
    case False
    define r where "r = k - 32 * j"
    have r: "k = 32 * j + r" "r < 32" using False k by (simp_all add: r_def)
    then have kj: "k div 32 = j" "k mod 32 = r" by simp_all
    have "32 * r + 32 \<le> ?len" using r k by linarith
    then have "get_bytes ?bg (1024 * j + 32 * r) 32 = get_bytes b (32 * r) 32"
      using in_bg lg by (simp add: get_put_inside get_get_bytes)
    with r b show ?thesis by (simp add: desc_bytes_def kj)
  qed
  have step: "wp (read_groups_from (map (\<lambda>k. 32 * k) [Suc j..<K]) n (word_of_nat (2 + Suc j)) b ?bg)
     (\<lambda>bg' s'. (\<exists>c. s' = s\<lparr>k_cache := c\<rparr> \<and> ok c \<and> view c = view (k_cache s)) \<and>
       (\<forall>k < n. get_bytes bg' (32 * k) 32 = desc_bytes (view (k_cache s)) k)) E (s\<lparr>k_cache := c1\<rparr>)"
    if c1: "ok c1" "view c1 = view (k_cache s)" for c1
    by (rule wp_conseq [OF Suc.hyps(1) [of "Suc j" "s\<lparr>k_cache := c1\<rparr>" b ?bg]])
      (use Suc.hyps(2) Suc.prems lb lbg c1 j got in auto)
  have split: "map (\<lambda>k. 32 * k) [j..<K] = 32 * j # map (\<lambda>k. 32 * k) [Suc j..<K]"
    using j by (simp add: upt_conv_Cons)
  have nxt: "word_of_nat (2 + j) + 1 = (word_of_nat (2 + Suc j) :: u32)" by simp
  have lbuf: "length buf = bs" using Suc.prems(2,3) by simp
  show ?case
    unfolding split read_groups_from.simps blk nxt wp_bindP
    by (rule cache_read_rule [OF Suc.prems(1) b lbuf])
      (simp only: prod.case wp_bindP wp_the_or_ub_Some cp, rule step)
qed

lemma sync_ok:
  assumes "ok (k_cache s)" "bs = 1024" "length stk = 1024"
    and "fs_dirty (k_fs s)" "superblock_wf (fs_superblock (k_fs s))"
    and "\<forall>bg \<in> set (fs_block_groups (k_fs s)). bg_desc_wf bg"
    and "length (fs_block_groups (k_fs s)) = unat (fs_num_block_groups (k_fs s))"
    and "\<forall>m. 1 \<le> m \<and> m < 2 + table_blocks (length (fs_block_groups (k_fs s))) \<longrightarrow> present (view (k_cache s)) m"
  shows "wp (ext2_sync stk True)
    (\<lambda>r s'. r = ERR_SUCCESS \<and> (\<exists>c. s' = upd_fs (\<lambda>f. f\<lparr>fs_dirty := False\<rparr>) (s\<lparr>k_cache := c\<rparr>) \<and> ok c \<and>
       (\<exists>bd. cache_device c = Some bd \<and> dinv (device_data bd) \<and> blk (device_data bd) = view c) \<and>
       meta_on_disk (view c) (fs_superblock (k_fs s)) (fs_block_groups (k_fs s)) \<and>
       (\<forall>m. m \<noteq> blkno 1 \<and> (\<forall>i < table_blocks (length (fs_block_groups (k_fs s))). m \<noteq> blkno (2 + i)) \<longrightarrow>
          view c m = view (k_cache s) m))) E s"
proof -
  let ?f = "k_fs s" and ?n = "unat (fs_num_block_groups (k_fs s))"
  let ?K = "table_blocks ?n" and ?sb = "encode_superblock (fs_superblock (k_fs s))"
  let ?bg = "concat (map encode_bg_desc (fs_block_groups (k_fs s)))"
  have lsb: "length ?sb = 1024" using assms(5) by (rule length_encode_superblock)
  have each: "\<forall>x \<in> set (fs_block_groups ?f). length (encode_bg_desc x) = 32"
    using assms(6) length_encode_bg_desc by blast
  have lbg: "length ?bg = 32 * ?n" using length_concat_chunks [OF each] assms(7) by simp
  have cp: "memcpy stk 0 ?sb 0 1024 = Some ?sb"
    using lsb assms(3) by (simp add: memcpy_block buffer_simps)
  have K: "2 + ?K < 2 ^ 32" by (rule table_blocks_u32)
  have p1: "addr (blkno 1)" "view (k_cache s) (blkno 1) \<noteq> None" "length ?sb = bs"
    using assms(2,8) lsb by (auto simp: present_def)
  have flush: "wp (on_cache block_cache_flush) (\<lambda>_ s'. \<exists>c'. s' = s\<lparr>k_cache := c'\<rparr> \<and> ok c' \<and>
      view c' = view c \<and> (\<exists>bd. cache_device c' = Some bd \<and> dinv (device_data bd) \<and>
      blk (device_data bd) = view c')) E (s\<lparr>k_cache := c\<rparr>)" if "ok c" for c E
    using that by (auto simp: on_cache_def wp_simps intro!: wp_conseq [OF flush_ok])
  have final: "meta_on_disk (view c) (fs_superblock ?f) (fs_block_groups ?f)"
    if c: "\<And>m. (\<forall>i < ?K. m \<noteq> blkno (2 + i)) \<Longrightarrow> view c m = ((view (k_cache s))(blkno 1 \<mapsto> ?sb)) m"
      "\<forall>k < ?n. desc_bytes (view c) k = get_bytes ?bg (32 * k) 32"
      "\<forall>i < ?K. present (view c) (2 + i)" for c
  proof -
    have "view c (blkno 1) = Some ?sb" using c(1) [of "blkno 1"] K by simp
    moreover have "desc_at (view c) k = fs_block_groups ?f ! k" if "k < ?n" for k
      using that c(2) each assms(6,7) get_concat_chunk [OF each, of k] decode_encode_bg_desc [of "fs_block_groups ?f ! k" "[]"]
      by (simp add: desc_at_def)
    ultimately show ?thesis using assms(7) c(3) by (simp add: meta_on_disk_def present_def)
  qed
  let ?Q = "\<lambda>c. ok c \<and>
     (\<exists>bd. cache_device c = Some bd \<and> dinv (device_data bd) \<and> blk (device_data bd) = view c) \<and>
     meta_on_disk (view c) (fs_superblock ?f) (fs_block_groups ?f) \<and>
     (\<forall>m. m \<noteq> blkno 1 \<and> (\<forall>i < ?K. m \<noteq> blkno (2 + i)) \<longrightarrow> view c m = view (k_cache s) m)"
  have tail: "wp (on_cache block_cache_flush) (\<lambda>_ s'. \<exists>c. s' = s\<lparr>k_cache := c\<rparr> \<and> ?Q c) E (s\<lparr>k_cache := c\<rparr>)"
    if "ok c" and c: "\<And>m. (\<forall>i < ?K. m \<noteq> blkno (2 + i)) \<Longrightarrow> view c m = ((view (k_cache s))(blkno 1 \<mapsto> ?sb)) m"
      "\<forall>k < ?n. desc_bytes (view c) k = get_bytes ?bg (32 * k) 32"
      "\<forall>i < ?K. present (view c) (2 + i)" for c
    by (rule wp_conseq [OF flush [OF that(1), where E = "\<lambda>_ _. False"]]) (use final [OF c] c(1) in auto)
  have groups: "wp (write_groups_from (map (\<lambda>k. 32 * k) [0..<?K]) ?n (word_of_nat (2 + 0)) stk ?bg)
      (\<lambda>_. wp (on_cache block_cache_flush) (\<lambda>_ s'. \<exists>c. s' = s\<lparr>k_cache := c\<rparr> \<and> ?Q c) E) E (s\<lparr>k_cache := c1\<rparr>)"
    if c1: "ok c1" "view c1 = (view (k_cache s))(blkno 1 \<mapsto> ?sb)" for c1
  proof (rule wp_conseq [OF write_groups_ok [of "s\<lparr>k_cache := c1\<rparr>" stk ?bg ?n 0 ?K "\<lambda>_ _. False"]], goal_cases)
    case (7)
    show ?case using assms(7,8) c1(2) by (auto simp: present_def)
  next
    case (10 r s')
    then obtain c where c: "s' = s\<lparr>k_cache := c\<rparr>" "ok c"
      "\<forall>m. (\<forall>i. 0 \<le> i \<and> i < ?K \<longrightarrow> m \<noteq> blkno (2 + i)) \<longrightarrow> view c m = view c1 m"
      "\<forall>k. 32 * 0 \<le> k \<and> k < ?n \<longrightarrow> desc_bytes (view c) k = get_bytes ?bg (32 * k) 32"
      "\<forall>i < ?K. present (view c) (2 + i)"
      by auto
    then show ?case unfolding c(1) using c1(2) by (intro tail) auto
  qed (use assms c1 lbg K table_blocks_bounds [of ?n] in simp_all)
  have "wp (ext2_sync stk True) (\<lambda>r s'. r = ERR_SUCCESS \<and>
      (\<exists>c. s' = upd_fs (\<lambda>f. f\<lparr>fs_dirty := False\<rparr>) (s\<lparr>k_cache := c\<rparr>) \<and> ?Q c)) E s"
    unfolding ext2_sync_def ext2_write_superblock_def ext2_write_block_groups_def group_starts_table
      table_start cache_write_1
    by (simp only: wp_bindP wp_gets wp_if assms(4) simp_thms if_False cp wp_the_or_ub_Some wp_ret wp_modify)
      (rule cache_write_rule [OF assms(1) p1], rule wp_conseq [OF groups], auto elim!: wp_conseq)
  then show ?thesis by (simp only: assms(7))
qed

lemma read_block_groups_ok:
  assumes "ok (k_cache s)" "bs = 1024" "length stk = 1024" "s_blocks_per_group sb \<noteq> 0"
    and "fits (32 * unat (num_groups sb) + 15) s"
    and "\<forall>i < table_blocks (unat (num_groups sb)). present (view (k_cache s)) (2 + i)"
  shows "wp (ext2_read_block_groups stk sb)
    (\<lambda>(bg, num) s'. num = num_groups sb \<and> bg = map (desc_at (view (k_cache s))) [0..<unat num] \<and>
       (\<exists>c h. s' = s\<lparr>k_heap := h, k_cache := c\<rparr> \<and> ok c \<and> view c = view (k_cache s))) E s"
proof -
  let ?n = "num_groups sb" and ?K = "table_blocks (unat (num_groups sb))"
  have "32 * unat ?n \<le> 1048576" using assms(5) by (simp add: fits_def)
  then have sz: "unat (ucast (?n * 32) :: u64) = 32 * unat ?n"
    by (simp add: unsigned_ucast_eq unat_word_ariths take_bit_nat_eq_self)
  have loop: "wp (read_groups_from (map (\<lambda>k. 32 * k) [0..<?K]) (unat ?n) (word_of_nat (2 + 0)) stk
      (replicate (unat (ucast (?n * 32) :: u64)) 0))
    (\<lambda>bg' s'. (\<exists>c h. s' = s\<lparr>k_heap := h, k_cache := c\<rparr> \<and> ok c \<and> view c = view (k_cache s)) \<and>
       map (\<lambda>k. decode_bg_desc (get_bytes bg' (32 * k) 32)) [0..<unat ?n] =
         map (desc_at (view (k_cache s))) [0..<unat ?n]) E (s\<lparr>k_heap := h\<rparr>)" for h E
    by (rule wp_conseq [OF read_groups_ok [of "s\<lparr>k_heap := h\<rparr>" stk _ "unat ?n" 0 ?K "\<lambda>_ _. False"]])
      (use assms table_blocks_bounds [of "unat ?n"] table_blocks_u32 [of ?n] sz in
        \<open>auto simp: desc_at_def\<close>)
  show ?thesis
    unfolding ext2_read_block_groups_def Let_def num_groups_def [symmetric] group_starts_table table_start
    by (simp only: wp_bindP wp_guard assms(4) simp_thms)
      (rule alloc_fits [where n = 0], use assms(5) sz in simp, rule wp_conseq [OF loop], auto simp: wp_simps)
qed

lemma mount_ok:
  assumes "ok (k_cache s)" "bs = 1024" "length stk = 1024"
    and "view (k_cache s) (blkno 1) = Some (encode_superblock sb)" "addr (blkno 1)" "superblock_wf sb"
    and "ext2_validate_superblock sb" "s_log_block_size sb < 21"
    and "fits (32 * unat (num_groups sb) + 1109) s"
    and "\<forall>i < table_blocks (unat (num_groups sb)). present (view (k_cache s)) (2 + i)"
  shows "wp (ext2_mount stk True)
    (\<lambda>r s'. r \<and> ok (k_cache s') \<and> view (k_cache s') = view (k_cache s) \<and>
       k_fs s' = \<lparr>fs_superblock = sb, fs_block_groups = map (desc_at (view (k_cache s))) [0..<unat (num_groups sb)],
         fs_block_size = push_bit (unat (s_log_block_size sb)) 1024,
         fs_num_block_groups = num_groups sb, fs_dirty = False\<rparr>) E s"
proof -
  have bpg: "s_blocks_per_group sb \<noteq> 0"
    using assms(7) by (auto simp: ext2_validate_superblock_def split: if_splits)
  have len: "length (encode_superblock sb) = 1024" using assms(6) by (rule length_encode_superblock)
  have dec: "decode_superblock (encode_superblock sb) = sb"
    using decode_encode_superblock [OF assms(6), of "[]"] by simp
  have sb: "wp (ext2_read_superblock stk) Q E' t"
    if "ok (k_cache t)" "view (k_cache t) = view (k_cache s)"
      and "\<And>c. ok c \<Longrightarrow> view c = view (k_cache s) \<Longrightarrow> Q sb (t\<lparr>k_cache := c\<rparr>)" for Q E' t
    unfolding ext2_read_superblock_def cache_read_1 wp_bindP
    by (rule cache_read_rule [of _ _ "encode_superblock sb"])
      (use that assms(2-5) len dec in \<open>simp_all add: wp_simps\<close>)
  show ?thesis
    unfolding ext2_mount_def
    apply (simp only: simp_thms if_False wp_catch wp_bindP)
    apply (rule alloc_fits [where n = "32 * unat (num_groups sb) + 1054"])
    subgoal by (rule fits_mono [OF assms(9)]) (simp add: sizeof_ext2_fs_def)
    apply (rule alloc_fits [where n = "32 * unat (num_groups sb) + 15"])
    subgoal by (erule fits_mono) (simp add: sizeof_superblock_def)
    apply (rule sb)
    subgoal using assms(1) by simp
    subgoal by simp
    apply (simp only: assms(7,8) simp_thms if_False wp_bindP wp_guard)
    apply (rule wp_conseq [OF read_block_groups_ok [where E = "\<lambda>_ _. False"]])
    using assms(2,3,10) bpg by (auto simp: wp_simps)
qed

end

section \<open>Syncing and mounting again\<close>

lemma unat_blkno [simp]: "m < 2 ^ 32 \<Longrightarrow> unat (blkno m) = m"
  by (simp add: blkno_def unat_of_nat take_bit_nat_eq_self)

lemma rd_addr_blkno: "m < 2 ^ 32 \<Longrightarrow> bs \<le> 2 ^ 20 \<Longrightarrow> rd_addr bs (blkno m)"
proof -
  assume m: "m < 2 ^ 32" "bs \<le> 2 ^ 20"
  then have u: "unat (blkno m) = m" by simp
  have "m * bs \<le> m * 2 ^ 20" using m(2) by simp
  also have "\<dots> < 2 ^ 64" using m(1) by simp
  finally show ?thesis unfolding rd_addr_def u .
qed

lemma ram_present: "m < 2 ^ 32 \<Longrightarrow> bs \<le> 2 ^ 20 \<Longrightarrow> ram.present bs v m = (v (blkno m) \<noteq> None)"
  by (simp add: ram.present_def rd_addr_blkno)

text \<open>
  C12.  Syncing a dirty file system on a RAM disk succeeds, and what is on the disk afterwards can be
  mounted again: a mount through any other cache that shows this disk returns a file system
  with the same superblock and the same block group descriptors, in a clean state.
\<close>

theorem sync_mount_roundtrip:
  assumes "ram_ok 1024 (k_cache s)" "length stk = 1024" "length stk' = 1024"
    and "fs_dirty (k_fs s)" "superblock_wf (fs_superblock (k_fs s))"
    and "ext2_validate_superblock (fs_superblock (k_fs s))"
    and "s_log_block_size (fs_superblock (k_fs s)) < 21"
    and "fs_num_block_groups (k_fs s) = num_groups (fs_superblock (k_fs s))"
    and "length (fs_block_groups (k_fs s)) = unat (fs_num_block_groups (k_fs s))"
    and "\<forall>bg \<in> set (fs_block_groups (k_fs s)). bg_desc_wf bg"
    and "\<forall>m. 1 \<le> m \<and> m < 2 + table_blocks (length (fs_block_groups (k_fs s))) \<longrightarrow>
      ram_view 1024 (k_cache s) (blkno m) \<noteq> None"
  shows "\<exists>s' bd. ext2_sync stk True s = (Val ERR_SUCCESS, s') \<and> cache_device (k_cache s') = Some bd \<and>
    (\<forall>t. ram_ok 1024 (k_cache t) \<and> ram_view 1024 (k_cache t) = rd_blk 1024 (device_data bd) \<and>
       fits (32 * length (fs_block_groups (k_fs s)) + 1109) t \<longrightarrow>
       (\<exists>t'. ext2_mount stk' True t = (Val True, t') \<and>
         fs_superblock (k_fs t') = fs_superblock (k_fs s) \<and>
         fs_block_groups (k_fs t') = fs_block_groups (k_fs s) \<and>
         fs_num_block_groups (k_fs t') = fs_num_block_groups (k_fs s) \<and> \<not> fs_dirty (k_fs t')))"
proof -
  let ?f = "k_fs s" and ?K = "table_blocks (length (fs_block_groups (k_fs s)))"
  have K: "2 + ?K < 2 ^ 32" using table_blocks_u32 assms(9) by simp
  have pres: "ram.present 1024 (ram_view 1024 (k_cache s)) m" if "1 \<le> m \<and> m < 2 + ?K" for m
    using that K assms(11) by (subst ram_present) auto
  obtain s' c bd where s': "ext2_sync stk True s = (Val ERR_SUCCESS, s')" "k_cache s' = c"
    "cache_device c = Some bd" "rd_blk 1024 (device_data bd) = ram_view 1024 c"
    "meta_on_disk (ram_view 1024 c) (fs_superblock ?f) (fs_block_groups ?f)"
    using ram.sync_ok [OF assms(1) refl assms(2,4,5,10,9), where E = "\<lambda>_ _. False"] pres
    by (auto elim!: wp_Val_exists)
  have "\<exists>t'. ext2_mount stk' True t = (Val True, t') \<and>
      fs_superblock (k_fs t') = fs_superblock ?f \<and> fs_block_groups (k_fs t') = fs_block_groups ?f \<and>
      fs_num_block_groups (k_fs t') = fs_num_block_groups ?f \<and> \<not> fs_dirty (k_fs t')"
    if t: "ram_ok 1024 (k_cache t)" "ram_view 1024 (k_cache t) = rd_blk 1024 (device_data bd)"
      "fits (32 * length (fs_block_groups ?f) + 1109) t" for t
  proof -
    have v: "ram_view 1024 (k_cache t) = ram_view 1024 c" using t(2) s'(4) by simp
    have n: "unat (num_groups (fs_superblock ?f)) = length (fs_block_groups ?f)" using assms(8,9) by simp
    have tab: "map (desc_at (ram_view 1024 c)) [0..<length (fs_block_groups ?f)] = fs_block_groups ?f"
      using s'(5) by (auto simp: meta_on_disk_def intro!: nth_equalityI)
    have "\<forall>i < table_blocks (unat (num_groups (fs_superblock ?f))).
        ram.present 1024 (ram_view 1024 (k_cache t)) (2 + i)"
      using s'(5) K unfolding v n by (auto simp: meta_on_disk_def ram_present)
    with ram.mount_ok [OF t(1) refl assms(3) _ _ assms(5,6,7), where E = "\<lambda>_ _. False"] t(3) s'(5)
    have "wp (ext2_mount stk' True) (\<lambda>r t'. r \<and> fs_superblock (k_fs t') = fs_superblock ?f \<and>
        fs_block_groups (k_fs t') = fs_block_groups ?f \<and>
        fs_num_block_groups (k_fs t') = fs_num_block_groups ?f \<and> \<not> fs_dirty (k_fs t')) (\<lambda>_ _. False) t"
      by (auto simp: tab n v assms(8) meta_on_disk_def rd_addr_blkno elim!: wp_conseq)
    then show ?thesis by (elim wp_Val_exists) auto
  qed
  with s' show ?thesis by blast
qed

text \<open>A file system with one block group on a RAM disk of 16 blocks.\<close>

definition demo_superblock :: ext2_superblock where
  "demo_superblock = \<lparr>s_inodes_count = 8, s_blocks_count = 16, s_r_blocks_count = 0,
     s_free_blocks_count = 9, s_free_inodes_count = 6, s_first_data_block = 1, s_log_block_size = 0,
     s_log_frag_size = 0, s_blocks_per_group = 32, s_frags_per_group = 32, s_inodes_per_group = 8,
     s_mtime = 0, s_wtime = 0, s_mnt_count = 0, s_max_mnt_count = 20, s_magic = EXT2_MAGIC, s_state = 1,
     s_errors = 1, s_minor_rev_level = 0, s_lastcheck = 0, s_checkinterval = 0, s_creator_os = 0,
     s_rev_level = 0, s_def_resuid = 0, s_def_resgid = 0, s_first_ino = 11, s_inode_size = 128,
     s_block_group_nr = 0, s_feature_compat = 0, s_feature_incompat = 0, s_feature_ro_compat = 0,
     s_uuid = replicate 16 0, s_volume_name = replicate 16 0, s_last_mounted = replicate 64 0,
     s_algo_bitmap = 0, s_prealloc_blocks = 0, s_prealloc_dir_blocks = 0, s_padding1 = 0,
     s_journal_uuid = replicate 16 0, s_journal_inum = 0, s_journal_dev = 0, s_last_orphan = 0,
     s_hash_seed = replicate 4 0, s_def_hash_version = 0, s_reserved_char_pad = 0,
     s_reserved_word_pad = 0, s_default_mount_opts = 0, s_first_meta_bg = 0, s_reserved = replicate 760 0\<rparr>"

definition demo_group :: ext2_block_group_desc where
  "demo_group = \<lparr>bg_block_bitmap = 3, bg_inode_bitmap = 4, bg_inode_table = 5, bg_free_blocks_count = 9,
     bg_free_inodes_count = 6, bg_used_dirs_count = 1, bg_pad = 0, bg_reserved = replicate 12 0\<rparr>"

definition demo_disk :: "ramdisk option block_device" where
  "demo_disk = \<lparr>device_data = Some \<lparr>rd_size = 16384, rd_data = replicate 16384 0, rd_block_size = 1024\<rparr>,
     device_ops = Some \<lparr>op_read_block = Some ramdisk_read_block, op_write_block = Some ramdisk_write_block,
       op_get_block_size = None, op_get_num_blocks = None\<rparr>\<rparr>"

definition demo_fs :: "bool \<Rightarrow> ext2_fs" where
  "demo_fs dirty = \<lparr>fs_superblock = demo_superblock, fs_block_groups = [demo_group], fs_block_size = 1024,
     fs_num_block_groups = 1, fs_dirty = dirty\<rparr>"

lemma demo_fs_facts:
  "superblock_wf demo_superblock" "ext2_validate_superblock demo_superblock"
  "s_log_block_size demo_superblock < 21" "num_groups demo_superblock = 1" "bg_desc_wf demo_group"
  "table_blocks (Suc 0) = 1"
  by (simp_all add: demo_superblock_def demo_group_def superblock_wf_def bg_desc_wf_def
      ext2_validate_superblock_def num_groups_def table_blocks_def)

lemma demo_cache:
  "\<exists>c h. block_cache_create (Some demo_disk) 1024 0 = (Some c, h) \<and> ram_ok 1024 c \<and>
    ram_view 1024 c = rd_blk 1024 (device_data demo_disk)"
proof -
  obtain c h where c: "block_cache_create (Some demo_disk) 1024 0 = (Some c, h)"
    using block_cache_create_succeeds [of 0 1024 "Some demo_disk"] by (auto simp: BLOCK_CACHE_SIZE_def)
  have inv: "rd_inv (unat (1024 :: u64)) (device_data demo_disk)"
    by (simp add: demo_disk_def rd_inv_def)
  from ram_create [OF c _ _ _ inv] c show ?thesis by (simp add: demo_disk_def)
qed

lemma demo_view: "m < 16 \<Longrightarrow> \<exists>b. rd_blk 1024 (device_data demo_disk) (blkno m) = Some b"
  by (simp add: demo_disk_def rd_blk_def rd_addr_blkno)

theorem sync_mount_roundtrip_witness:
  "\<exists>(s :: ramdisk option kstate) s' bd. fs_superblock (k_fs s) = demo_superblock \<and> fs_block_groups (k_fs s) = [demo_group] \<and>
    ext2_sync (replicate 1024 7) True s = (Val ERR_SUCCESS, s') \<and> cache_device (k_cache s') = Some bd"
proof -
  obtain c where c: "ram_ok 1024 c" "ram_view 1024 c = rd_blk 1024 (device_data demo_disk)"
    using demo_cache by blast
  let ?s = "\<lparr>k_cache = c, k_heap = 0, k_time = 5, k_fs = demo_fs True\<rparr>"
  have "\<forall>m. 1 \<le> m \<and> m < 2 + table_blocks (length (fs_block_groups (k_fs ?s))) \<longrightarrow>
      ram_view 1024 (k_cache ?s) (blkno m) \<noteq> None"
    using demo_view c(2) by (auto simp: demo_fs_def demo_fs_facts)
  with sync_mount_roundtrip [of ?s "replicate 1024 7" "replicate 1024 7"] c(1) demo_fs_facts
  obtain s' bd where "ext2_sync (replicate 1024 7) True ?s = (Val ERR_SUCCESS, s')"
    "cache_device (k_cache s') = Some bd" by (auto simp: demo_fs_def)
  moreover have "fs_superblock (k_fs ?s) = demo_superblock" "fs_block_groups (k_fs ?s) = [demo_group]"
    by (simp_all add: demo_fs_def)
  ultimately show ?thesis by blast
qed

end
