(* ===== verification/Ext2_Alloc.thy ===== *)
theory Ext2_Alloc
  imports Ext2_Super
begin

unbundle bit_operations_syntax

text \<open>
  The block and inode allocators, \<^verbatim>\<open>src/fs/ext2/alloc.c\<close>.  Both search the groups for a
  bitmap with a clear bit.  The warnings about freeing a free block are left out.
\<close>

section \<open>Bitmaps\<close>

definition first_zero_in :: "u8 \<Rightarrow> nat option" where
  "first_zero_in b = find (\<lambda>j. b AND push_bit j 1 = 0) [0..<8]"

text \<open>The loop over the bytes from index \<open>i\<close>; running out of the array is undefined.\<close>

fun zero_bit_from :: "bytes \<Rightarrow> nat \<Rightarrow> nat \<Rightarrow> i32 option" where
  "zero_bit_from bitmap 0 i = Some (-1)"
| "zero_bit_from [] (Suc n) i = None"
| "zero_bit_from (b # bs) (Suc n) i =
     (if b \<noteq> 0xFF then
        (case first_zero_in b of
           Some j \<Rightarrow> Some (to_i32 (word_of_nat (i * 8 + j)))
         | None \<Rightarrow> zero_bit_from bs n (Suc i))
      else zero_bit_from bs n (Suc i))"

definition find_first_zero_bit :: "bytes \<Rightarrow> nat \<Rightarrow> i32 option" where
  "find_first_zero_bit bitmap sz = zero_bit_from bitmap sz 0"

definition bm_set :: "bytes \<Rightarrow> nat \<Rightarrow> bytes" where
  "bm_set bitmap k = bitmap[k div 8 := bitmap ! (k div 8) OR push_bit (k mod 8) 1]"

definition bm_clear :: "bytes \<Rightarrow> nat \<Rightarrow> bytes" where
  "bm_clear bitmap k = bitmap[k div 8 := bitmap ! (k div 8) AND NOT (push_bit (k mod 8) 1)]"

definition set_bit_at :: "bytes \<Rightarrow> nat \<Rightarrow> bytes option" where
  "set_bit_at bitmap k = (if k div 8 < length bitmap then Some (bm_set bitmap k) else None)"

definition clear_bit_at :: "bytes \<Rightarrow> nat \<Rightarrow> bytes option" where
  "clear_bit_at bitmap k = (if k div 8 < length bitmap then Some (bm_clear bitmap k) else None)"

definition test_bit_at :: "bytes \<Rightarrow> nat \<Rightarrow> bool option" where
  "test_bit_at bitmap k = (if k div 8 < length bitmap
     then Some (bitmap ! (k div 8) AND push_bit (k mod 8) 1 \<noteq> 0) else None)"

section \<open>Allocation and release\<close>

definition bg_at :: "nat \<Rightarrow> ext2_fs \<Rightarrow> ext2_block_group_desc option" where
  "bg_at g f = (if g < length (fs_block_groups f) then Some (fs_block_groups f ! g) else None)"

definition upd_bg :: "nat \<Rightarrow> (ext2_block_group_desc \<Rightarrow> ext2_block_group_desc) \<Rightarrow> ext2_fs \<Rightarrow> ext2_fs" where
  "upd_bg g h f = f\<lparr>fs_block_groups := (fs_block_groups f)[g := h (fs_block_groups f ! g)]\<rparr>"

text \<open>
  The part that the two allocators share: read the bitmap, find a clear bit below the limit,
  set it and write the bitmap back.  \<open>None\<close> stands for \<^verbatim>\<open>continue\<close>.
\<close>

definition alloc_in_bitmap :: "u32 \<Rightarrow> u32 \<Rightarrow> ('d kstate, nat option) prog" where
  "alloc_in_bitmap bitmap_block limit =
     bindP (gets (\<lambda>s. fs_block_size (k_fs s))) (\<lambda>block_size.
     bindP (alloc_buffer (ucast block_size)) (\<lambda>buf.
     bindP (cache_read (ucast bitmap_block) buf) (\<lambda>(_, bitmap).
     bindP (the_or_ub (find_first_zero_bit bitmap (unat block_size))) (\<lambda>k.
     if k < 0 \<or> k \<ge> sint limit then ret None
     else
       bindP (the_or_ub (set_bit_at bitmap (nat k))) (\<lambda>bitmap'.
       bindP (cache_write (ucast bitmap_block) bitmap') (\<lambda>_.
       ret (Some (nat k))))))))"

definition took_block :: "nat \<Rightarrow> ext2_fs \<Rightarrow> ext2_fs" where
  "took_block g f = (upd_bg g (\<lambda>b. b\<lparr>bg_free_blocks_count := bg_free_blocks_count b - 1\<rparr>) f)
     \<lparr>fs_superblock := (fs_superblock f)\<lparr>s_free_blocks_count := s_free_blocks_count (fs_superblock f) - 1\<rparr>,
      fs_dirty := True\<rparr>"

fun alloc_block_from :: "nat list \<Rightarrow> ('d kstate, u32) prog" where
  "alloc_block_from [] = throw ERR_NO_MEMORY"
| "alloc_block_from (g # gs) =
     bindP (gets k_fs) (\<lambda>f.
     bindP (the_or_ub (bg_at g f)) (\<lambda>bg.
     if bg_free_blocks_count bg = 0 then alloc_block_from gs else
     bindP (alloc_in_bitmap (bg_block_bitmap bg) (s_blocks_per_group (fs_superblock f))) (\<lambda>r.
     case r of
       None \<Rightarrow> alloc_block_from gs
     | Some k \<Rightarrow>
         bindP (modify (upd_fs (took_block g))) (\<lambda>_.
         ret (s_first_data_block (fs_superblock f) +
              word_of_nat g * s_blocks_per_group (fs_superblock f) + word_of_nat k)))))"

definition ext2_alloc_block :: "('d kstate, u32) prog" where
  "ext2_alloc_block = bindP (gets (\<lambda>s. fs_num_block_groups (k_fs s))) (\<lambda>n. alloc_block_from [0..<unat n])"

text \<open>The part that the two release functions share.\<close>

definition free_in_bitmap :: "u32 \<Rightarrow> u32 \<Rightarrow> ('d kstate, unit) prog" where
  "free_in_bitmap bitmap_block k =
     bindP (gets (\<lambda>s. fs_block_size (k_fs s))) (\<lambda>block_size.
     bindP (alloc_buffer (ucast block_size)) (\<lambda>buf.
     bindP (cache_read (ucast bitmap_block) buf) (\<lambda>(_, bitmap).
     bindP (the_or_ub (test_bit_at bitmap (unat k))) (\<lambda>_.
     bindP (the_or_ub (clear_bit_at bitmap (unat k))) (\<lambda>bitmap'.
     bindP (cache_write (ucast bitmap_block) bitmap') (\<lambda>_.
     ret ()))))))"

definition gave_block :: "nat \<Rightarrow> ext2_fs \<Rightarrow> ext2_fs" where
  "gave_block g f = (upd_bg g (\<lambda>b. b\<lparr>bg_free_blocks_count := bg_free_blocks_count b + 1\<rparr>) f)
     \<lparr>fs_superblock := (fs_superblock f)\<lparr>s_free_blocks_count := s_free_blocks_count (fs_superblock f) + 1\<rparr>,
      fs_dirty := True\<rparr>"

definition ext2_free_block :: "u32 \<Rightarrow> ('d kstate, i32) prog" where
  "ext2_free_block block_num =
     bindP (gets k_fs) (\<lambda>f. let sb = fs_superblock f in
     if block_num < s_first_data_block sb \<or> block_num \<ge> s_blocks_count sb then throw ERR_INVALID else
     bindP (the_or_ub (ext2_get_block_group sb block_num)) (\<lambda>group.
     if group \<ge> fs_num_block_groups f then throw ERR_INVALID else
     bindP (the_or_ub (bg_at (unat group) f)) (\<lambda>bg.
     bindP (free_in_bitmap (bg_block_bitmap bg) ((block_num - s_first_data_block sb) mod s_blocks_per_group sb)) (\<lambda>_.
     bindP (modify (upd_fs (gave_block (unat group)))) (\<lambda>_.
     ret ERR_SUCCESS)))))"

definition took_inode :: "nat \<Rightarrow> ext2_fs \<Rightarrow> ext2_fs" where
  "took_inode g f = (upd_bg g (\<lambda>b. b\<lparr>bg_free_inodes_count := bg_free_inodes_count b - 1\<rparr>) f)
     \<lparr>fs_superblock := (fs_superblock f)\<lparr>s_free_inodes_count := s_free_inodes_count (fs_superblock f) - 1\<rparr>,
      fs_dirty := True\<rparr>"

fun alloc_inode_from :: "nat list \<Rightarrow> ('d kstate, u32) prog" where
  "alloc_inode_from [] = throw ERR_NO_MEMORY"
| "alloc_inode_from (g # gs) =
     bindP (gets k_fs) (\<lambda>f.
     bindP (the_or_ub (bg_at g f)) (\<lambda>bg.
     if bg_free_inodes_count bg = 0 then alloc_inode_from gs else
     bindP (alloc_in_bitmap (bg_inode_bitmap bg) (s_inodes_per_group (fs_superblock f))) (\<lambda>r.
     case r of
       None \<Rightarrow> alloc_inode_from gs
     | Some k \<Rightarrow>
         bindP (modify (upd_fs (took_inode g))) (\<lambda>_.
         ret (word_of_nat g * s_inodes_per_group (fs_superblock f) + word_of_nat k + 1)))))"

definition ext2_alloc_inode :: "('d kstate, u32) prog" where
  "ext2_alloc_inode = bindP (gets (\<lambda>s. fs_num_block_groups (k_fs s))) (\<lambda>n. alloc_inode_from [0..<unat n])"

definition gave_inode :: "nat \<Rightarrow> ext2_fs \<Rightarrow> ext2_fs" where
  "gave_inode g f = (upd_bg g (\<lambda>b. b\<lparr>bg_free_inodes_count := bg_free_inodes_count b + 1\<rparr>) f)
     \<lparr>fs_superblock := (fs_superblock f)\<lparr>s_free_inodes_count := s_free_inodes_count (fs_superblock f) + 1\<rparr>,
      fs_dirty := True\<rparr>"

definition ext2_free_inode :: "u32 \<Rightarrow> ('d kstate, i32) prog" where
  "ext2_free_inode ino =
     bindP (gets k_fs) (\<lambda>f. let sb = fs_superblock f in
     if ino = 0 \<or> ino > s_inodes_count sb then throw ERR_INVALID else
     bindP (the_or_ub (ext2_get_inode_group sb ino)) (\<lambda>group.
     if group \<ge> fs_num_block_groups f then throw ERR_INVALID else
     bindP (the_or_ub (bg_at (unat group) f)) (\<lambda>bg.
     bindP (free_in_bitmap (bg_inode_bitmap bg) ((ino - 1) mod s_inodes_per_group sb)) (\<lambda>_.
     bindP (modify (upd_fs (gave_inode (unat group)))) (\<lambda>_.
     ret ERR_SUCCESS)))))"

section \<open>Bitmaps as sets of bits\<close>

definition bit_of :: "bytes \<Rightarrow> nat \<Rightarrow> bool" where
  "bit_of bitmap k = bit (bitmap ! (k div 8)) (k mod 8)"

lemma and_bit_zero: "j < 8 \<Longrightarrow> ((b :: u8) AND push_bit j 1 = 0) = (\<not> bit b j)"
  by (rule iffI, drule arg_cong [where f = "\<lambda>w. bit w j"])
    (auto simp: bit_simps intro!: bit_word_eqI)

lemma length_bm [simp]: "length (bm_set bitmap k) = length bitmap" "length (bm_clear bitmap k) = length bitmap"
  by (simp_all add: bm_set_def bm_clear_def)

lemma same_bit: "(i :: nat) div 8 = k div 8 \<Longrightarrow> (i mod 8 = k mod 8) = (i = k)"
  by (metis div_mult_mod_eq)

lemma bit_of_bm_set:
  "k < 8 * length bitmap \<Longrightarrow> bit_of (bm_set bitmap k) i = (i = k \<or> bit_of bitmap i)"
  by (cases "i div 8 = k div 8")
    (auto simp: bit_of_def bm_set_def bit_simps nth_list_update dest: same_bit)

lemma bit_of_bm_clear:
  "k < 8 * length bitmap \<Longrightarrow> bit_of (bm_clear bitmap k) i = (i \<noteq> k \<and> bit_of bitmap i)"
  by (cases "i div 8 = k div 8")
    (auto simp: bit_of_def bm_clear_def bit_simps nth_list_update dest: same_bit)

lemma bm_clear_set:
  assumes "k < 8 * length bitmap" "\<not> bit_of bitmap k"
  shows "bm_clear (bm_set bitmap k) k = bitmap"
proof -
  have "bit (bitmap ! (k div 8)) (k mod 8) = False" using assms(2) by (simp add: bit_of_def)
  then have "(bitmap ! (k div 8) OR push_bit (k mod 8) 1) AND NOT (push_bit (k mod 8) 1) = bitmap ! (k div 8)"
    by (auto simp: bit_simps intro!: bit_word_eqI)
  then show ?thesis using assms(1) by (simp add: bm_clear_def bm_set_def)
qed

lemma bit_at_in_range:
  assumes "k < 8 * length bitmap"
  shows "set_bit_at bitmap k = Some (bm_set bitmap k)" "clear_bit_at bitmap k = Some (bm_clear bitmap k)"
    and "test_bit_at bitmap k = Some (bit_of bitmap k)"
proof -
  have "k div 8 < length bitmap" using assms by simp
  then show "set_bit_at bitmap k = Some (bm_set bitmap k)" "clear_bit_at bitmap k = Some (bm_clear bitmap k)"
    and "test_bit_at bitmap k = Some (bit_of bitmap k)"
    using and_bit_zero [of "k mod 8" "bitmap ! (k div 8)"]
    by (simp_all add: set_bit_at_def clear_bit_at_def test_bit_at_def bit_of_def)
qed

lemma and_exp_zero: "j < 8 \<Longrightarrow> ((b :: u8) AND 2 ^ j = 0) = (\<not> bit b j)"
  using and_bit_zero [of j b] by simp

text \<open>The search returns the first clear bit.\<close>

lemma first_zero_in_Some:
  "first_zero_in b = Some j \<Longrightarrow> j < 8 \<and> \<not> bit b j \<and> (\<forall>i < j. bit b i)"
  by (auto simp: first_zero_in_def find_Some_iff and_exp_zero)

lemma first_zero_in_None: "first_zero_in b = None \<Longrightarrow> \<forall>j < 8. bit b j"
  by (auto simp: first_zero_in_def find_None_iff and_exp_zero)

lemma full_byte:
  assumes "j < 8"
  shows "bit (0xFF :: u8) j"
proof -
  have "\<forall>j \<in> set [0..<8]. bit (0xFF :: u8) j" by code_simp
  with assms show ?thesis by simp
qed

lemma bit_of_Cons: "bit_of (b # bs) k = (if k < 8 then bit b k else bit_of bs (k - 8))"
proof (cases "k < 8")
  case False
  then have "k div 8 = Suc ((k - 8) div 8)" "k mod 8 = (k - 8) mod 8" by (simp_all add: div_if mod_if)
  with False show ?thesis by (simp add: bit_of_def)
qed (simp add: bit_of_def)

lemma to_i32_of_nat:
  assumes "m < 2 ^ 31"
  shows "to_i32 (word_of_nat m) = int m"
proof -
  have "unat (word_of_nat m :: u64) = m" using assms by (simp add: unat_of_nat take_bit_nat_eq_self)
  with assms show ?thesis by (subst to_i32_nonneg) simp_all
qed

lemma zero_bit_from_spec:
  assumes "length bitmap = n" "8 * (i + n) < 2 ^ 31"
  shows "(zero_bit_from bitmap n i = Some (-1) \<and> (\<forall>k < 8 * n. bit_of bitmap k)) \<or>
    (\<exists>k < 8 * n. zero_bit_from bitmap n i = Some (int (8 * i + k)) \<and> \<not> bit_of bitmap k \<and> (\<forall>j < k. bit_of bitmap j))"
  using assms
proof (induction bitmap arbitrary: n i)
  case Nil
  then show ?case by simp
next
  case (Cons b bs)
  obtain m where m: "n = Suc m" "length bs = m" using Cons.prems(1) by (cases n) auto
  have IH: "(zero_bit_from bs m (Suc i) = Some (-1) \<and> (\<forall>k < 8 * m. bit_of bs k)) \<or>
    (\<exists>k < 8 * m. zero_bit_from bs m (Suc i) = Some (int (8 * Suc i + k)) \<and> \<not> bit_of bs k \<and> (\<forall>j < k. bit_of bs j))"
    using Cons.prems(2) m by (intro Cons.IH) auto
  show ?case
  proof (cases "first_zero_in b")
    case (Some j)
    note j = first_zero_in_Some [OF Some]
    have "b \<noteq> 0xFF" using j full_byte [of j] by auto
    moreover have "to_i32 (word_of_nat (i * 8 + j)) = int (8 * i + j)"
      using j Cons.prems(2) m by (subst to_i32_of_nat) simp_all
    ultimately show ?thesis
      using Some j m by (auto simp: bit_of_Cons intro!: exI [of _ j])
  next
    case None
    have full: "bit b j" if "j < 8" for j using first_zero_in_None [OF None] that by simp
    have step: "zero_bit_from (b # bs) n i = zero_bit_from bs m (Suc i)"
      using None m by simp
    from IH show ?thesis
    proof
      assume "zero_bit_from bs m (Suc i) = Some (-1) \<and> (\<forall>k < 8 * m. bit_of bs k)"
      then show ?thesis using full m unfolding step by (auto simp: bit_of_Cons)
    next
      assume "\<exists>k < 8 * m. zero_bit_from bs m (Suc i) = Some (int (8 * Suc i + k)) \<and> \<not> bit_of bs k \<and> (\<forall>j < k. bit_of bs j)"
      then obtain k where "k < 8 * m" "zero_bit_from bs m (Suc i) = Some (int (8 * Suc i + k))"
        "\<not> bit_of bs k" "\<forall>j < k. bit_of bs j" by blast
      then show ?thesis
        using full m unfolding step by (intro disjI2 exI [of _ "k + 8"]) (auto simp: bit_of_Cons)
    qed
  qed
qed

lemma find_first_zero_bit_cases:
  assumes "length bitmap = n" "8 * n < 2 ^ 31"
  obtains (full) "find_first_zero_bit bitmap n = Some (-1)" "\<forall>k < 8 * n. bit_of bitmap k"
  | (found) k where "find_first_zero_bit bitmap n = Some (int k)" "k < 8 * n" "\<not> bit_of bitmap k"
      "\<forall>j < k. bit_of bitmap j"
  using zero_bit_from_spec [OF assms(1), of 0] assms(2) by (auto simp: find_first_zero_bit_def)

section \<open>Geometry\<close>

text \<open>
  The part of the state that the operations never change: sizes and the places of bitmaps and
  inode tables, as natural numbers.
\<close>

record geom =
  g_bs :: nat
  g_n :: nat
  g_first :: nat
  g_bpg :: nat
  g_ipg :: nat
  g_blocks :: nat
  g_inodes :: nat
  g_isize :: nat
  g_bbm :: "nat list"
  g_ibm :: "nat list"
  g_itab :: "nat list"

definition inode_size_of :: "ext2_superblock \<Rightarrow> u32" where
  "inode_size_of sb = (if s_inode_size sb \<noteq> 0 then ucast (s_inode_size sb) else 128)"

definition geom_of :: "ext2_fs \<Rightarrow> geom" where
  "geom_of f = \<lparr>g_bs = unat (fs_block_size f), g_n = unat (fs_num_block_groups f),
     g_first = unat (s_first_data_block (fs_superblock f)),
     g_bpg = unat (s_blocks_per_group (fs_superblock f)), g_ipg = unat (s_inodes_per_group (fs_superblock f)),
     g_blocks = unat (s_blocks_count (fs_superblock f)), g_inodes = unat (s_inodes_count (fs_superblock f)),
     g_isize = unat (inode_size_of (fs_superblock f)),
     g_bbm = map (\<lambda>b. unat (bg_block_bitmap b)) (fs_block_groups f),
     g_ibm = map (\<lambda>b. unat (bg_inode_bitmap b)) (fs_block_groups f),
     g_itab = map (\<lambda>b. unat (bg_inode_table b)) (fs_block_groups f)\<rparr>"

definition itab_len :: "geom \<Rightarrow> nat" where
  "itab_len G = (g_ipg G + g_bs G div g_isize G - 1) div (g_bs G div g_isize G)"

text \<open>The blocks of superblock, descriptor table, bitmaps and inode tables.\<close>

definition meta :: "geom \<Rightarrow> nat list" where
  "meta G = [1..<2 + table_blocks (g_n G)] @ g_bbm G @ g_ibm G @
     concat (map (\<lambda>t. [t..<t + itab_len G]) (g_itab G))"

definition geom_ok :: "geom \<Rightarrow> bool" where
  "geom_ok G = (128 \<le> g_isize G \<and> g_isize G \<le> g_bs G \<and> g_bs G \<le> 2 ^ 20 \<and>
     length (g_bbm G) = g_n G \<and> length (g_ibm G) = g_n G \<and> length (g_itab G) = g_n G \<and>
     0 < g_bpg G \<and> g_bpg G \<le> 8 * g_bs G \<and> 0 < g_ipg G \<and> g_ipg G \<le> 8 * g_bs G \<and>
     0 < g_first G \<and> g_first G \<le> g_blocks G \<and> g_blocks G \<le> g_first G + g_n G * g_bpg G \<and> g_first G + g_n G * g_bpg G < 2 ^ 32 \<and>
     g_inodes G \<le> g_n G * g_ipg G \<and> g_n G * g_ipg G + 1 < 2 ^ 32 \<and>
     distinct (meta G) \<and> (\<forall>m \<in> set (meta G). g_first G \<le> m \<and> m < g_blocks G))"

text \<open>Whether a block and an inode are marked as used in the bitmaps of a disk.\<close>

definition bused :: "geom \<Rightarrow> (u64 \<Rightarrow> bytes option) \<Rightarrow> nat \<Rightarrow> bool" where
  "bused G v m = bit_of (the (v (blkno (g_bbm G ! ((m - g_first G) div g_bpg G))))) ((m - g_first G) mod g_bpg G)"

definition iused :: "geom \<Rightarrow> (u64 \<Rightarrow> bytes option) \<Rightarrow> nat \<Rightarrow> bool" where
  "iused G v i = bit_of (the (v (blkno (g_ibm G ! ((i - 1) div g_ipg G))))) ((i - 1) mod g_ipg G)"

text \<open>
  A disk that fits the geometry has all blocks; the blocks of the metadata and those past the
  end of the disk are marked as used.
\<close>

definition disk_ok :: "geom \<Rightarrow> (u64 \<Rightarrow> bytes option) \<Rightarrow> bool" where
  "disk_ok G v = ((\<forall>m < g_blocks G. \<exists>b. v (blkno m) = Some b \<and> length b = g_bs G) \<and>
     (\<forall>m \<in> set (meta G). bused G v m) \<and>
     (\<forall>m. g_blocks G \<le> m \<and> m < g_first G + g_n G * g_bpg G \<longrightarrow> bused G v m))"

lemma sint_u32_nonneg:
  assumes "unat (w :: u32) < 2 ^ 31"
  shows "sint w = int (unat w)"
proof -
  have "int (unat w) < int (2 ^ 31)" using assms by (simp only: of_nat_less_iff)
  then have lt: "uint w < 2147483648" by simp
  have "- (2 ^ 31) \<le> uint w" by (rule order_trans [of _ 0]) simp_all
  with lt have "signed_take_bit 31 (uint w) = uint w"
    by (intro signed_take_bit_int_eq_self) simp_all
  then show ?thesis by (simp add: sint_uint)
qed

lemma map_upd_same:
  assumes "\<And>x. f (h x) = f x"
  shows "map f (xs[g := h (xs ! g)]) = map f xs"
proof (cases "g < length xs")
  case True
  then have "(map f xs)[g := f (xs ! g)] = map f xs" by (metis list_update_id nth_map)
  with assms show ?thesis by (simp add: map_update)
qed (simp add: list_update_beyond)

lemma geom_of_simps [simp]:
  "geom_of (took_block g f) = geom_of f" "geom_of (gave_block g f) = geom_of f"
  "geom_of (took_inode g f) = geom_of f" "geom_of (gave_inode g f) = geom_of f"
  "geom_of (f\<lparr>fs_dirty := d\<rparr>) = geom_of f"
  by (simp_all add: geom_of_def took_block_def gave_block_def took_inode_def gave_inode_def upd_bg_def
      inode_size_of_def map_upd_same)

lemma in_meta:
  assumes "g < g_n G" "geom_ok G"
  shows "g_bbm G ! g \<in> set (meta G)" "g_ibm G ! g \<in> set (meta G)"
  using assms by (auto simp: meta_def geom_ok_def)

lemma unat_u32_lt: "unat (w :: u32) < 2 ^ 32"
  by (rule order.strict_trans2 [OF unsigned_less]) simp

lemma unat_ucast32 [simp]: "unat (ucast (w :: u32) :: u64) = unat w"
  unfolding ucast_unat_blkno by (rule unat_blkno) (rule unat_u32_lt)

text \<open>At most \<open>c\<close> bytes of the heap are used up between two states.\<close>

definition spent :: "nat \<Rightarrow> 'd kstate \<Rightarrow> 'd kstate \<Rightarrow> bool" where
  "spent c s s' = (\<forall>n. fits (c + n) s \<longrightarrow> fits n s')"

lemma spent_trans: "spent a s t \<Longrightarrow> spent b t u \<Longrightarrow> spent (a + b) s u"
  by (simp add: spent_def add.assoc)

lemma spent_mono:
  assumes "spent a s t" "a \<le> b"
  shows "spent b s t"
  unfolding spent_def
proof (intro allI impI)
  fix n
  assume "fits (b + n) s"
  then have "fits (b - a + n) t" using assms by (simp add: spent_def)
  then show "fits n t" by (rule fits_mono) simp
qed

lemma spent_refl: "spent c s s"
  by (simp add: spent_def fits_mono)

lemma spent_upd [simp]:
  "spent c s (s'\<lparr>k_cache := x\<rparr>) = spent c s s'" "spent c s (upd_fs f s') = spent c s s'"
  by (simp_all add: spent_def)

lemma alloc_spent_rule:
  assumes "\<And>h. spent (unat sz + 15) s (s\<lparr>k_heap := h\<rparr>) \<Longrightarrow> Q (replicate (unat sz) 0) (s\<lparr>k_heap := h\<rparr>)"
    and "\<not> fits (unat sz + 15) s \<Longrightarrow> E ERR_NO_MEMORY s"
  shows "wp (alloc_buffer sz) Q E s"
proof (cases "HEAP_SIZE < k_heap s + sz")
  case True
  have "\<not> fits (unat sz + 15 + 0) s"
    using alloc_fits [of sz 0 s "\<lambda>_ _. True" "\<lambda>_ _. False"] True by (auto simp: wp_simps malloc_def)
  with True assms(2) show ?thesis by (simp add: wp_simps malloc_def)
next
  case False
  have "fits n (s\<lparr>k_heap := ALIGN_UP (k_heap s + sz) 16\<rparr>)" if "fits (unat sz + 15 + n) s" for n
    using alloc_fits [OF that, of "\<lambda>_ s'. fits n s'" "\<lambda>_ _. False"] False by (simp add: wp_simps malloc_def)
  then show ?thesis using assms(1) False by (simp add: wp_simps malloc_def spent_def)
qed

context block_dev
begin

text \<open>
  The state is as before but for the internal state of the cache and at most \<open>c\<close> bytes of the heap.
\<close>

definition same :: "nat \<Rightarrow> 'd kstate \<Rightarrow> 'd kstate \<Rightarrow> bool" where
  "same c s s' = (ok (k_cache s') \<and> view (k_cache s') = view (k_cache s) \<and> k_fs s' = k_fs s \<and>
     k_time s' = k_time s \<and> spent c s s')"

text \<open>The only error of the operations below: the heap has no room for what they allocate.\<close>

definition no_mem :: "nat \<Rightarrow> 'd kstate \<Rightarrow> i32 \<Rightarrow> 'd kstate \<Rightarrow> bool" where
  "no_mem c s e s' = (e = ERR_NO_MEMORY \<and> same c s s' \<and> \<not> fits c s)"

lemma same_refl: "ok (k_cache s) \<Longrightarrow> same c s s"
  by (simp add: same_def spent_refl)

lemma same_trans: "same a s t \<Longrightarrow> same b t u \<Longrightarrow> same (a + b) s u"
  by (auto simp: same_def intro: spent_trans)

lemma same_mono: "same a s t \<Longrightarrow> a \<le> b \<Longrightarrow> same b s t"
  by (auto simp: same_def intro: spent_mono)

lemma no_mem_trans: "same a s t \<Longrightarrow> no_mem b t e u \<Longrightarrow> no_mem (a + b) s e u"
  by (auto simp: no_mem_def same_def spent_def add.assoc)

lemma no_mem_mono: "no_mem a s e t \<Longrightarrow> a \<le> b \<Longrightarrow> no_mem b s e t"
  by (auto simp: no_mem_def intro: same_mono dest: fits_mono)

text \<open>A buffer is allocated and a block is read into it.\<close>

lemma alloc_read_rule:
  assumes "ok (k_cache s)" "unat sz = bs" "addr n" "view (k_cache s) n = Some b"
    and "\<And>s'. same (bs + 15) s s' \<Longrightarrow> wp (f (int bs, b)) Q (no_mem (bs + 15) s) s'"
  shows "wp (bindP (alloc_buffer sz) (\<lambda>buf. bindP (cache_read n buf) f)) Q (no_mem (bs + 15) s) s"
  unfolding wp_bindP
proof (rule alloc_spent_rule)
  fix h
  assume "spent (unat sz + 15) s (s\<lparr>k_heap := h\<rparr>)"
  then show "wp (cache_read n (replicate (unat sz) 0)) (\<lambda>x. wp (f x) Q (no_mem (bs + 15) s))
      (no_mem (bs + 15) s) (s\<lparr>k_heap := h\<rparr>)"
    by (intro cache_read_rule [of _ _ b]) (use assms in \<open>auto simp: same_def\<close>)
qed (use assms(1,2) in \<open>simp add: no_mem_def same_refl\<close>)

lemma wp_bind_gets: "wp (bindP (gets f) k) Q E s = wp (k (f s)) Q E s"
  by (simp add: wp_simps)

lemma alloc_in_bitmap_ok:
  assumes "ok (k_cache s)" "unat (fs_block_size (k_fs s)) = bs" "bs \<le> 2 ^ 20"
    and "addr (blkno (unat b))" "view (k_cache s) (blkno (unat b)) = Some bm" "unat limit \<le> 8 * bs"
  shows "wp (alloc_in_bitmap b limit)
    (\<lambda>r s'. case r of
        None \<Rightarrow> same (bs + 15) s s' \<and> (\<forall>k < unat limit. bit_of bm k)
      | Some k \<Rightarrow> k < unat limit \<and> \<not> bit_of bm k \<and> (\<forall>j < k. bit_of bm j) \<and>
          ok (k_cache s') \<and> k_fs s' = k_fs s \<and> k_time s' = k_time s \<and> spent (bs + 15) s s' \<and>
          view (k_cache s') = (view (k_cache s))(blkno (unat b) \<mapsto> bm_set bm k))
    (no_mem (bs + 15) s) s"
proof -
  have lb: "length bm = bs" by (rule view_length [OF assms(1,5)])
  have lim: "sint limit = int (unat limit)" using assms(3,6) by (intro sint_u32_nonneg) simp
  have cmp: "(sint limit \<le> int k) = (unat limit \<le> k)" for k by (simp only: lim of_nat_le_iff)
  have n31: "8 * bs < 2 ^ 31" using assms(3) by simp
  have sz: "unat (blkno (unat (fs_block_size (k_fs s)))) = bs"
    using unat_blkno [OF unat_u32_lt, of "fs_block_size (k_fs s)"] assms(2) by simp
  let ?Post = "\<lambda>r s'. case r of
        None \<Rightarrow> same (bs + 15) s s' \<and> (\<forall>k < unat limit. bit_of bm k)
      | Some k \<Rightarrow> k < unat limit \<and> \<not> bit_of bm k \<and> (\<forall>j < k. bit_of bm j) \<and>
          ok (k_cache s') \<and> k_fs s' = k_fs s \<and> k_time s' = k_time s \<and> spent (bs + 15) s s' \<and>
          view (k_cache s') = (view (k_cache s))(blkno (unat b) \<mapsto> bm_set bm k)"
  have tail: "wp (bindP (the_or_ub (find_first_zero_bit bm (unat (fs_block_size (k_fs s))))) (\<lambda>k.
       if k < 0 \<or> k \<ge> sint limit then ret None
       else bindP (the_or_ub (set_bit_at bm (nat k))) (\<lambda>bitmap'.
         bindP (cache_write (blkno (unat b)) bitmap') (\<lambda>_. ret (Some (nat k)))))) ?Post (no_mem (bs + 15) s) s'"
    if s': "same (bs + 15) s s'" for s'
    using lb n31
  proof (cases rule: find_first_zero_bit_cases)
    case full
    with s' assms(2,6) show ?thesis by (auto simp: wp_simps)
  next
    case (found k)
    show ?thesis
    proof (cases "k < unat limit")
      case False
      with found s' assms(2,6) show ?thesis by (auto simp: wp_simps cmp)
    next
      case True
      have k: "k < 8 * length bm" using True assms(6) lb by simp
      have "wp (cache_write (blkno (unat b)) (bm_set bm k)) (\<lambda>_ s''. ok (k_cache s'') \<and> k_fs s'' = k_fs s \<and>
          k_time s'' = k_time s \<and> spent (bs + 15) s s'' \<and> view (k_cache s'') = (view (k_cache s))(blkno (unat b) \<mapsto> bm_set bm k)) (no_mem (bs + 15) s) s'"
        by (rule cache_write_rule) (use s' assms(4,5) lb in \<open>auto simp: same_def\<close>)
      with True found assms(2) bit_at_in_range(1) [OF k] show ?thesis
        by (auto simp: wp_simps cmp elim!: wp_conseq)
    qed
  qed
  show ?thesis
    unfolding alloc_in_bitmap_def ucast_unat_blkno wp_bind_gets
    by (rule alloc_read_rule [OF assms(1) sz assms(4,5)]) (simp only: prod.case tail)
qed

text \<open>A mounted file system on a disk that fits it.\<close>

definition fs_ok :: "'d kstate \<Rightarrow> bool" where
  "fs_ok s = (ok (k_cache s) \<and> geom_ok (geom_of (k_fs s)) \<and> g_bs (geom_of (k_fs s)) = bs \<and>
     disk_ok (geom_of (k_fs s)) (view (k_cache s)) \<and> (\<forall>m < g_blocks (geom_of (k_fs s)). addr (blkno m)))"

lemma fs_ok_same: "fs_ok s \<Longrightarrow> same c s s' \<Longrightarrow> fs_ok s'"
  by (simp add: fs_ok_def same_def)

lemma fs_ok_block:
  assumes "fs_ok s" "m < g_blocks (geom_of (k_fs s))"
  obtains b where "view (k_cache s) (blkno m) = Some b" "length b = bs" "addr (blkno m)"
  using assms by (auto simp: fs_ok_def disk_ok_def)

end

lemma meta_block_lt:
  assumes "geom_ok G" "m \<in> set (meta G)"
  shows "m < g_blocks G" "m < 2 ^ 32"
  using assms by (force simp: geom_ok_def)+

lemma bg_at_geom:
  assumes "geom_ok (geom_of f)" "g < g_n (geom_of f)"
  shows "bg_at g f = Some (fs_block_groups f ! g)"
    and "unat (bg_block_bitmap (fs_block_groups f ! g)) = g_bbm (geom_of f) ! g"
    and "unat (bg_inode_bitmap (fs_block_groups f ! g)) = g_ibm (geom_of f) ! g"
    and "unat (bg_inode_table (fs_block_groups f ! g)) = g_itab (geom_of f) ! g"
  using assms by (simp_all add: geom_ok_def geom_of_def bg_at_def)

lemma unat_word_sum:
  assumes "unat (a :: u32) + g * unat b + k < 2 ^ 32"
  shows "unat (a + word_of_nat g * b + word_of_nat k) = unat a + g * unat b + k"
proof -
  have "a + word_of_nat g * b + word_of_nat k = word_of_nat (unat a + g * unat b + k)" by simp
  also have "unat \<dots> = unat a + g * unat b + k"
    using assms by (simp only: unat_of_nat take_bit_nat_eq_self_iff) (simp add: take_bit_nat_eq_self)
  finally show ?thesis .
qed

lemma group_index_lt:
  assumes "g < n" "k < (b :: nat)"
  shows "g * b + k < n * b"
proof -
  have "g * b + k < Suc g * b" using assms(2) by simp
  also have "\<dots> \<le> n * b" using assms(1) by (intro mult_le_mono1) simp
  finally show ?thesis .
qed

context block_dev
begin

definition took_bit :: "nat \<Rightarrow> nat \<Rightarrow> nat \<Rightarrow> 'd kstate \<Rightarrow> 'd kstate \<Rightarrow> bool" where
  "took_bit c m k s s' = (ok (k_cache s') \<and> k_time s' = k_time s \<and> spent c s s' \<and>
     \<not> bit_of (the (view (k_cache s) (blkno m))) k \<and>
     view (k_cache s') = (view (k_cache s))(blkno m \<mapsto> bm_set (the (view (k_cache s) (blkno m))) k))"

text \<open>An allocator finds no free bit, or there is no memory.\<close>

definition no_room :: "(nat \<Rightarrow> bool) \<Rightarrow> nat list \<Rightarrow> nat \<Rightarrow> nat list \<Rightarrow> 'd kstate \<Rightarrow> i32 \<Rightarrow> 'd kstate \<Rightarrow> bool" where
  "no_room none_free bms limit gs s e s' = (e = ERR_NO_MEMORY \<and> same (length gs * (bs + 15)) s s' \<and>
     (\<not> fits (length gs * (bs + 15)) s \<or>
      (\<forall>g \<in> set gs. none_free g \<or> (\<forall>k < limit. bit_of (the (view (k_cache s) (blkno (bms ! g)))) k))))"

lemma took_bit_after: "same a s t \<Longrightarrow> took_bit b m k t u \<Longrightarrow> took_bit (a + b) m k s u"
  by (auto simp: took_bit_def same_def intro: spent_trans)

lemma took_bit_mono: "took_bit a m k s t \<Longrightarrow> a \<le> b \<Longrightarrow> took_bit b m k s t"
  by (auto simp: took_bit_def intro: spent_mono)

lemma no_room_after:
  assumes "same (bs + 15) s t" "no_room N bms limit gs t e u"
    and "N g \<or> (\<forall>k < limit. bit_of (the (view (k_cache s) (blkno (bms ! g)))) k)"
  shows "no_room N bms limit (g # gs) s e u"
proof -
  have "\<not> fits (Suc (length gs) * (bs + 15)) s" if "\<not> fits (length gs * (bs + 15)) t"
    using assms(1) that by (auto simp: same_def spent_def)
  then show ?thesis
    using assms same_trans [of "bs + 15" s t "length gs * (bs + 15)" u]
    by (auto simp: no_room_def same_def)
qed

lemma no_room_mem: "no_mem (bs + 15) s e u \<Longrightarrow> no_room N bms limit (g # gs) s e u"
  using no_mem_mono [of "bs + 15" s e u "length (g # gs) * (bs + 15)"] by (simp add: no_mem_def no_room_def)

lemma alloc_block_from_ok:
  assumes "fs_ok s" "G = geom_of (k_fs s)" "set gs \<subseteq> {0..<g_n G}"
  shows "wp (alloc_block_from gs)
    (\<lambda>b s'. \<exists>g k. g < g_n G \<and> k < g_bpg G \<and> unat b = g_first G + g * g_bpg G + k \<and>
       took_bit (length gs * (bs + 15)) (g_bbm G ! g) k s s' \<and> k_fs s' = took_block g (k_fs s))
    (no_room (\<lambda>g. bg_free_blocks_count (fs_block_groups (k_fs s) ! g) = 0) (g_bbm G) (g_bpg G) gs s) s"
  using assms
proof (induction gs arbitrary: s)
  case Nil
  then show ?case by (simp add: wp_simps no_room_def same_refl fs_ok_def)
next
  case (Cons g gs)
  let ?f = "k_fs s" and ?bg = "fs_block_groups (k_fs s) ! g"
  have G: "geom_ok G" "g < g_n G" using Cons.prems by (auto simp: fs_ok_def)
  note bg = bg_at_geom [of ?f g, folded Cons.prems(2), OF G]
  have meta: "g_bbm G ! g \<in> set (meta G)" using in_meta [OF G(2,1)] by simp
  obtain bm where bm: "view (k_cache s) (blkno (g_bbm G ! g)) = Some bm" "addr (blkno (g_bbm G ! g))"
    using fs_ok_block [OF Cons.prems(1)] meta_block_lt(1) [OF G(1) meta] Cons.prems(2) by blast
  define Post where "Post = (\<lambda>(b :: u32) s'. \<exists>g k. g < g_n G \<and> k < g_bpg G \<and> unat b = g_first G + g * g_bpg G + k \<and>
       took_bit (Suc (length gs) * (bs + 15)) (g_bbm G ! g) k s s' \<and> k_fs s' = took_block g (k_fs s))"
  define Bad where "Bad = no_room (\<lambda>g. bg_free_blocks_count (fs_block_groups (k_fs s) ! g) = 0) (g_bbm G) (g_bpg G) (g # gs) s"
  have next_group: "wp (alloc_block_from gs) Post Bad t"
    if t: "same (bs + 15) s t" "bg_free_blocks_count ?bg = 0 \<or> (\<forall>k < g_bpg G. bit_of bm k)" for t
  proof (rule wp_conseq [OF Cons.IH [of t]], goal_cases)
    case (4 b s')
    with t(1) took_bit_after [OF t(1)] show ?case by (fastforce simp: Post_def same_def)
  next
    case (5 e s')
    then show ?case
      unfolding Bad_def by (intro no_room_after [OF t(1)]) (use t bm in \<open>auto simp: same_def\<close>)
  qed (use Cons.prems t(1) fs_ok_same [OF Cons.prems(1) t(1)] in \<open>auto simp: same_def\<close>)
  have bad: "no_mem (bs + 15) s e s' \<Longrightarrow> Bad e s'" for e s' unfolding Bad_def by (rule no_room_mem)
  have pre: "ok (k_cache s)" "unat (fs_block_size ?f) = bs" "bs \<le> 2 ^ 20"
    "unat (s_blocks_per_group (fs_superblock ?f)) \<le> 8 * bs"
    "g_bpg G = unat (s_blocks_per_group (fs_superblock ?f))"
    "g_first G = unat (s_first_data_block (fs_superblock ?f))"
    using Cons.prems(1,2) by (auto simp: fs_ok_def geom_ok_def geom_of_def)
  have num: "unat (s_first_data_block (fs_superblock ?f) + word_of_nat g * s_blocks_per_group (fs_superblock ?f) + word_of_nat k)
      = g_first G + g * g_bpg G + k" if "k < g_bpg G" for k
    using that group_index_lt [OF G(2) that] G(1) pre(5,6)
    by (subst unat_word_sum) (auto simp: geom_ok_def)
  have take: "wp (alloc_in_bitmap (bg_block_bitmap ?bg) (s_blocks_per_group (fs_superblock ?f)))
    (\<lambda>r s'. case r of
        None \<Rightarrow> same (bs + 15) s s' \<and> (\<forall>k < g_bpg G. bit_of bm k)
      | Some k \<Rightarrow> k < g_bpg G \<and> took_bit (bs + 15) (g_bbm G ! g) k s s' \<and> k_fs s' = k_fs s)
    Bad s"
    by (rule wp_conseq [OF alloc_in_bitmap_ok [OF pre(1-3), of "bg_block_bitmap ?bg" bm]])
      (use bm pre bg bad in \<open>auto simp: took_bit_def split: option.splits\<close>)
  have got: "Post (s_first_data_block (fs_superblock ?f) + word_of_nat g * s_blocks_per_group (fs_superblock ?f) + word_of_nat k)
      (upd_fs (took_block g) s')" if "k < g_bpg G" "took_bit (bs + 15) (g_bbm G ! g) k s s'" "k_fs s' = k_fs s" for k s'
    unfolding Post_def using that G(2) num [OF that(1)]
    by (intro exI [of _ g] exI [of _ k]) (auto simp: took_bit_def elim!: spent_mono)
  have "wp (alloc_block_from (g # gs)) Post Bad s"
    using bg(1) same_refl [OF pre(1)]
    by (auto simp: wp_simps intro!: wp_conseq [OF take] next_group got split: option.splits)
  then show ?case by (simp only: Post_def Bad_def length_Cons)
qed

lemma alloc_block_ok:
  assumes "fs_ok s" "G = geom_of (k_fs s)"
  shows "wp ext2_alloc_block
    (\<lambda>b s'. \<exists>g k. g < g_n G \<and> k < g_bpg G \<and> unat b = g_first G + g * g_bpg G + k \<and>
       took_bit (g_n G * (bs + 15)) (g_bbm G ! g) k s s' \<and> k_fs s' = took_block g (k_fs s))
    (no_room (\<lambda>g. bg_free_blocks_count (fs_block_groups (k_fs s) ! g) = 0) (g_bbm G) (g_bpg G) [0..<g_n G] s) s"
  unfolding ext2_alloc_block_def wp_bindP wp_gets
  by (rule wp_conseq [OF alloc_block_from_ok [OF assms]]) (auto simp: assms(2) geom_of_def)

lemma alloc_inode_from_ok:
  assumes "fs_ok s" "G = geom_of (k_fs s)" "set gs \<subseteq> {0..<g_n G}"
  shows "wp (alloc_inode_from gs)
    (\<lambda>i s'. \<exists>g k. g < g_n G \<and> k < g_ipg G \<and> unat i = g * g_ipg G + k + 1 \<and>
       took_bit (length gs * (bs + 15)) (g_ibm G ! g) k s s' \<and> k_fs s' = took_inode g (k_fs s))
    (no_room (\<lambda>g. bg_free_inodes_count (fs_block_groups (k_fs s) ! g) = 0) (g_ibm G) (g_ipg G) gs s) s"
  using assms
proof (induction gs arbitrary: s)
  case Nil
  then show ?case by (simp add: wp_simps no_room_def same_refl fs_ok_def)
next
  case (Cons g gs)
  let ?f = "k_fs s" and ?bg = "fs_block_groups (k_fs s) ! g"
  have G: "geom_ok G" "g < g_n G" using Cons.prems by (auto simp: fs_ok_def)
  note bg = bg_at_geom [of ?f g, folded Cons.prems(2), OF G]
  have meta: "g_ibm G ! g \<in> set (meta G)" using in_meta [OF G(2,1)] by simp
  obtain bm where bm: "view (k_cache s) (blkno (g_ibm G ! g)) = Some bm" "addr (blkno (g_ibm G ! g))"
    using fs_ok_block [OF Cons.prems(1)] meta_block_lt(1) [OF G(1) meta] Cons.prems(2) by blast
  define Post where "Post = (\<lambda>(i :: u32) s'. \<exists>g k. g < g_n G \<and> k < g_ipg G \<and> unat i = g * g_ipg G + k + 1 \<and>
       took_bit (Suc (length gs) * (bs + 15)) (g_ibm G ! g) k s s' \<and> k_fs s' = took_inode g (k_fs s))"
  define Bad where "Bad = no_room (\<lambda>g. bg_free_inodes_count (fs_block_groups (k_fs s) ! g) = 0) (g_ibm G) (g_ipg G) (g # gs) s"
  have next_group: "wp (alloc_inode_from gs) Post Bad t"
    if t: "same (bs + 15) s t" "bg_free_inodes_count ?bg = 0 \<or> (\<forall>k < g_ipg G. bit_of bm k)" for t
  proof (rule wp_conseq [OF Cons.IH [of t]], goal_cases)
    case (4 b s')
    with t(1) took_bit_after [OF t(1)] show ?case by (fastforce simp: Post_def same_def)
  next
    case (5 e s')
    then show ?case
      unfolding Bad_def by (intro no_room_after [OF t(1)]) (use t bm in \<open>auto simp: same_def\<close>)
  qed (use Cons.prems t(1) fs_ok_same [OF Cons.prems(1) t(1)] in \<open>auto simp: same_def\<close>)
  have bad: "no_mem (bs + 15) s e s' \<Longrightarrow> Bad e s'" for e s' unfolding Bad_def by (rule no_room_mem)
  have pre: "ok (k_cache s)" "unat (fs_block_size ?f) = bs" "bs \<le> 2 ^ 20"
    "unat (s_inodes_per_group (fs_superblock ?f)) \<le> 8 * bs"
    "g_ipg G = unat (s_inodes_per_group (fs_superblock ?f))"
    using Cons.prems(1,2) by (auto simp: fs_ok_def geom_ok_def geom_of_def)
  have num: "unat (word_of_nat g * s_inodes_per_group (fs_superblock ?f) + word_of_nat k + 1) = g * g_ipg G + k + 1"
    if "k < g_ipg G" for k
  proof -
    have "unat (0 + word_of_nat g * s_inodes_per_group (fs_superblock ?f) + word_of_nat (k + 1)) = g * g_ipg G + (k + 1)"
      using that group_index_lt [OF G(2) that] G(1) pre(5) by (subst unat_word_sum) (auto simp: geom_ok_def)
    then show ?thesis by (simp add: ac_simps)
  qed
  have take: "wp (alloc_in_bitmap (bg_inode_bitmap ?bg) (s_inodes_per_group (fs_superblock ?f)))
    (\<lambda>r s'. case r of
        None \<Rightarrow> same (bs + 15) s s' \<and> (\<forall>k < g_ipg G. bit_of bm k)
      | Some k \<Rightarrow> k < g_ipg G \<and> took_bit (bs + 15) (g_ibm G ! g) k s s' \<and> k_fs s' = k_fs s)
    Bad s"
    by (rule wp_conseq [OF alloc_in_bitmap_ok [OF pre(1-3), of "bg_inode_bitmap ?bg" bm]])
      (use bm pre bg bad in \<open>auto simp: took_bit_def split: option.splits\<close>)
  have got: "Post (word_of_nat g * s_inodes_per_group (fs_superblock ?f) + word_of_nat k + 1)
      (upd_fs (took_inode g) s')" if "k < g_ipg G" "took_bit (bs + 15) (g_ibm G ! g) k s s'" "k_fs s' = k_fs s" for k s'
    unfolding Post_def using that G(2) num [OF that(1)]
    by (intro exI [of _ g] exI [of _ k]) (auto simp: took_bit_def elim!: spent_mono)
  have "wp (alloc_inode_from (g # gs)) Post Bad s"
    using bg(1) same_refl [OF pre(1)]
    by (auto simp: wp_simps intro!: wp_conseq [OF take] next_group got split: option.splits)
  then show ?case by (simp only: Post_def Bad_def length_Cons)
qed

lemma alloc_inode_ok:
  assumes "fs_ok s" "G = geom_of (k_fs s)"
  shows "wp ext2_alloc_inode
    (\<lambda>i s'. \<exists>g k. g < g_n G \<and> k < g_ipg G \<and> unat i = g * g_ipg G + k + 1 \<and>
       took_bit (g_n G * (bs + 15)) (g_ibm G ! g) k s s' \<and> k_fs s' = took_inode g (k_fs s))
    (no_room (\<lambda>g. bg_free_inodes_count (fs_block_groups (k_fs s) ! g) = 0) (g_ibm G) (g_ipg G) [0..<g_n G] s) s"
  unfolding ext2_alloc_inode_def wp_bindP wp_gets
  by (rule wp_conseq [OF alloc_inode_from_ok [OF assms]]) (auto simp: assms(2) geom_of_def)

lemma free_in_bitmap_ok:
  assumes "ok (k_cache s)" "unat (fs_block_size (k_fs s)) = bs"
    and "addr (blkno (unat b))" "view (k_cache s) (blkno (unat b)) = Some bm" "unat k < 8 * bs"
  shows "wp (free_in_bitmap b k)
    (\<lambda>_ s'. ok (k_cache s') \<and> k_fs s' = k_fs s \<and> k_time s' = k_time s \<and> spent (bs + 15) s s' \<and>
       view (k_cache s') = (view (k_cache s))(blkno (unat b) \<mapsto> bm_clear bm (unat k)))
    (no_mem (bs + 15) s) s"
proof -
  have lb: "length bm = bs" by (rule view_length [OF assms(1,4)])
  have "unat (blkno (unat (fs_block_size (k_fs s)))) = bs"
    using unat_blkno [OF unat_u32_lt, of "fs_block_size (k_fs s)"] assms(2) by simp
  then show ?thesis
    unfolding free_in_bitmap_def ucast_unat_blkno wp_bind_gets
    by (rule alloc_read_rule [OF assms(1) _ assms(3,4)])
      (use lb assms(3-5) bit_at_in_range [of "unat k" bm] in
        \<open>auto simp: wp_simps same_def intro!: cache_write_rule\<close>)
qed

end

section \<open>The sets of used blocks and inodes\<close>

lemma geom_okD:
  assumes "geom_ok G"
  shows "128 \<le> g_isize G" "g_isize G \<le> g_bs G" "g_bs G \<le> 2 ^ 20" "length (g_bbm G) = g_n G"
    "length (g_ibm G) = g_n G" "length (g_itab G) = g_n G" "0 < g_bpg G" "g_bpg G \<le> 8 * g_bs G"
    "0 < g_ipg G" "g_ipg G \<le> 8 * g_bs G" "g_blocks G \<le> g_first G + g_n G * g_bpg G"
    "g_first G + g_n G * g_bpg G < 2 ^ 32" "distinct (meta G)" "distinct (g_bbm G)" "distinct (g_ibm G)"
    "set (g_bbm G) \<inter> set (g_ibm G) = {}" "g_inodes G \<le> g_n G * g_ipg G" "0 < g_first G"
    "g_first G \<le> g_blocks G" "g_n G * g_ipg G + 1 < 2 ^ 32"
  using assms by (auto simp: geom_ok_def meta_def)

lemma div_group:
  assumes "(m :: nat) < n * b"
  shows "m div b < n"
  using assms by (simp add: less_mult_imp_div_less)

lemma bbm_inject:
  assumes "geom_ok G" "g < g_n G" "g' < g_n G"
  shows "(blkno (g_bbm G ! g) = blkno (g_bbm G ! g')) = (g = g')"
proof -
  have "g_bbm G ! g < 2 ^ 32" "g_bbm G ! g' < 2 ^ 32"
    using assms in_meta meta_block_lt(2) by blast+
  then show ?thesis using assms geom_okD(4,14) [OF assms(1)] by (simp add: nth_eq_iff_index_eq)
qed

lemma ibm_inject:
  assumes "geom_ok G" "g < g_n G" "g' < g_n G"
  shows "(blkno (g_ibm G ! g) = blkno (g_ibm G ! g')) = (g = g')"
proof -
  have "g_ibm G ! g < 2 ^ 32" "g_ibm G ! g' < 2 ^ 32"
    using assms in_meta meta_block_lt(2) by blast+
  then show ?thesis using assms geom_okD(5,15) [OF assms(1)] by (simp add: nth_eq_iff_index_eq)
qed

text \<open>The block \<open>m\<close> and the inode \<open>i\<close> have a bit in a bitmap.\<close>

definition has_bit :: "geom \<Rightarrow> nat \<Rightarrow> bool" where
  "has_bit G m = (g_first G \<le> m \<and> m < g_first G + g_n G * g_bpg G)"

definition has_ibit :: "geom \<Rightarrow> nat \<Rightarrow> bool" where
  "has_ibit G i = (1 \<le> i \<and> i \<le> g_n G * g_ipg G)"

lemma bused_upd:
  assumes "geom_ok G" "g < g_n G" "has_bit G m"
  shows "bused G (v(blkno (g_bbm G ! g) \<mapsto> bm)) m =
    (if (m - g_first G) div g_bpg G = g then bit_of bm ((m - g_first G) mod g_bpg G) else bused G v m)"
proof -
  have "(m - g_first G) div g_bpg G < g_n G"
    using assms(3) by (intro div_group) (auto simp: has_bit_def)
  from bbm_inject [OF assms(1) this assms(2)] show ?thesis by (auto simp: bused_def)
qed

lemma iused_upd:
  assumes "geom_ok G" "g < g_n G" "has_ibit G i"
  shows "iused G (v(blkno (g_ibm G ! g) \<mapsto> bm)) i =
    (if (i - 1) div g_ipg G = g then bit_of bm ((i - 1) mod g_ipg G) else iused G v i)"
proof -
  have "(i - 1) div g_ipg G < g_n G"
    using assms(3) by (intro div_group) (auto simp: has_ibit_def)
  from ibm_inject [OF assms(1) this assms(2)] show ?thesis by (auto simp: iused_def)
qed

lemma bused_other:
  assumes "geom_ok G" "x < 2 ^ 32" "x \<notin> set (g_bbm G)" "has_bit G m"
  shows "bused G (v(blkno x \<mapsto> b)) m = bused G v m"
proof -
  let ?g = "(m - g_first G) div g_bpg G"
  have g: "?g < g_n G" using assms(4) by (intro div_group) (auto simp: has_bit_def)
  then have "g_bbm G ! ?g < 2 ^ 32" "g_bbm G ! ?g \<noteq> x"
    using assms(1,3) in_meta(1) meta_block_lt(2) geom_okD(4) [OF assms(1)] nth_mem by (blast, metis)
  then show ?thesis using assms(2) by (simp add: bused_def)
qed

lemma iused_other:
  assumes "geom_ok G" "x < 2 ^ 32" "x \<notin> set (g_ibm G)" "has_ibit G i"
  shows "iused G (v(blkno x \<mapsto> b)) i = iused G v i"
proof -
  let ?g = "(i - 1) div g_ipg G"
  have g: "?g < g_n G" using assms(4) by (intro div_group) (auto simp: has_ibit_def)
  then have "g_ibm G ! ?g < 2 ^ 32" "g_ibm G ! ?g \<noteq> x"
    using assms(1,3) in_meta(2) meta_block_lt(2) geom_okD(5) [OF assms(1)] nth_mem by (blast, metis)
  then show ?thesis using assms(2) by (simp add: iused_def)
qed

lemma meta_has_bit: "geom_ok G \<Longrightarrow> m \<in> set (meta G) \<Longrightarrow> has_bit G m"
  using geom_okD(11) by (fastforce simp: geom_ok_def has_bit_def)

lemma disk_okI:
  assumes "disk_ok G v" "geom_ok G" "length b = g_bs G"
    and "\<And>m. has_bit G m \<Longrightarrow> m \<in> set (meta G) \<or> g_blocks G \<le> m \<Longrightarrow> bused G v m \<Longrightarrow> bused G (v(x \<mapsto> b)) m"
  shows "disk_ok G (v(x \<mapsto> b))"
proof -
  have "has_bit G m" if "g_blocks G \<le> m" "m < g_first G + g_n G * g_bpg G" for m
    using that geom_okD(19) [OF assms(2)] by (simp add: has_bit_def)
  then show ?thesis using assms meta_has_bit [OF assms(2)] by (auto simp: disk_ok_def)
qed

text \<open>Writing a block other than a block bitmap keeps the disk in order.\<close>

lemma disk_ok_other:
  assumes "geom_ok G" "disk_ok G v" "x < g_blocks G" "x \<notin> set (g_bbm G)" "length b = g_bs G"
  shows "disk_ok G (v(blkno x \<mapsto> b))"
proof (rule disk_okI [OF assms(2,1,5)])
  have x: "x < 2 ^ 32" using assms(3) geom_okD(11,12) [OF assms(1)] by linarith
  show "has_bit G m \<Longrightarrow> bused G v m \<Longrightarrow> bused G (v(blkno x \<mapsto> b)) m" for m
    by (simp add: bused_other [OF assms(1) x assms(4)])
qed

text \<open>The block and the inode of a bit.\<close>

lemma bit_index:
  assumes "k < (b :: nat)"
  shows "(f + g * b + k - f) div b = g" "(f + g * b + k - f) mod b = k"
  using assms by simp_all

lemma bit_place:
  assumes "(m :: nat) \<ge> f" "0 < b"
  shows "((m - f) div b = g \<and> (m - f) mod b = k) = (m = f + g * b + k \<and> k < b)"
  using assms by (auto simp: bit_index)

lemma bused_bm_set:
  assumes "geom_ok G" "g < g_n G" "k < g_bpg G" "has_bit G m"
    and "v (blkno (g_bbm G ! g)) = Some bm" "length bm = g_bs G"
  shows "bused G (v(blkno (g_bbm G ! g) \<mapsto> bm_set bm k)) m = (m = g_first G + g * g_bpg G + k \<or> bused G v m)"
proof -
  have "k < 8 * length bm" using assms(3,6) geom_okD(8) [OF assms(1)] by linarith
  then show ?thesis
    using assms bit_place [of "g_first G" m "g_bpg G" g k] geom_okD(7) [OF assms(1)]
    by (auto simp: bused_upd bit_of_bm_set has_bit_def bused_def [of G v])
qed

lemma bused_bm_clear:
  assumes "geom_ok G" "g < g_n G" "k < g_bpg G" "has_bit G m"
    and "v (blkno (g_bbm G ! g)) = Some bm" "length bm = g_bs G"
  shows "bused G (v(blkno (g_bbm G ! g) \<mapsto> bm_clear bm k)) m = (m \<noteq> g_first G + g * g_bpg G + k \<and> bused G v m)"
proof -
  have "k < 8 * length bm" using assms(3,6) geom_okD(8) [OF assms(1)] by linarith
  then show ?thesis
    using assms bit_place [of "g_first G" m "g_bpg G" g k] geom_okD(7) [OF assms(1)]
    by (auto simp: bused_upd bit_of_bm_clear has_bit_def bused_def [of G v])
qed

lemma iused_bm_set:
  assumes "geom_ok G" "g < g_n G" "k < g_ipg G" "has_ibit G i"
    and "v (blkno (g_ibm G ! g)) = Some bm" "length bm = g_bs G"
  shows "iused G (v(blkno (g_ibm G ! g) \<mapsto> bm_set bm k)) i = (i = g * g_ipg G + k + 1 \<or> iused G v i)"
proof -
  have "k < 8 * length bm" using assms(3,6) geom_okD(10) [OF assms(1)] by linarith
  then show ?thesis
    using assms bit_place [of 1 i "g_ipg G" g k] geom_okD(9) [OF assms(1)]
    by (auto simp: iused_upd bit_of_bm_set has_ibit_def iused_def [of G v])
qed

lemma iused_bm_clear:
  assumes "geom_ok G" "g < g_n G" "k < g_ipg G" "has_ibit G i"
    and "v (blkno (g_ibm G ! g)) = Some bm" "length bm = g_bs G"
  shows "iused G (v(blkno (g_ibm G ! g) \<mapsto> bm_clear bm k)) i = (i \<noteq> g * g_ipg G + k + 1 \<and> iused G v i)"
proof -
  have "k < 8 * length bm" using assms(3,6) geom_okD(10) [OF assms(1)] by linarith
  then show ?thesis
    using assms bit_place [of 1 i "g_ipg G" g k] geom_okD(9) [OF assms(1)]
    by (auto simp: iused_upd bit_of_bm_clear has_ibit_def iused_def [of G v])
qed

lemma disk_ok_bm_set:
  assumes "geom_ok G" "disk_ok G v" "g < g_n G" "k < g_bpg G"
    and "v (blkno (g_bbm G ! g)) = Some bm" "length bm = g_bs G"
  shows "disk_ok G (v(blkno (g_bbm G ! g) \<mapsto> bm_set bm k))"
  by (rule disk_okI [OF assms(2,1)]) (simp_all add: assms bused_bm_set)

lemma disk_ok_bm_clear:
  assumes "geom_ok G" "disk_ok G v" "g < g_n G" "k < g_bpg G"
    and "v (blkno (g_bbm G ! g)) = Some bm" "length bm = g_bs G"
    and "g_first G + g * g_bpg G + k \<notin> set (meta G)" "g_first G + g * g_bpg G + k < g_blocks G"
  shows "disk_ok G (v(blkno (g_bbm G ! g) \<mapsto> bm_clear bm k))"
  by (rule disk_okI [OF assms(2,1)]) (use assms(7,8) in \<open>auto simp: assms(1-6) bused_bm_clear\<close>)

section \<open>The contracts of the allocators\<close>

lemma unat_group:
  assumes "unat f \<le> unat (m :: u32)"
  shows "unat ((m - f) div b) = (unat m - unat f) div unat b" "unat ((m - f) mod b) = (unat m - unat f) mod unat b"
  using assms by (simp_all add: unat_div unat_mod unat_sub word_le_nat_alt)

lemma upd_bg_comp: "upd_bg g h (upd_bg g k f) = upd_bg g (h \<circ> k) f" if "g < length (fs_block_groups f)"
  using that by (simp add: upd_bg_def)

lemma gave_took:
  assumes "g < length (fs_block_groups f)"
  shows "gave_block g (took_block g f) = f\<lparr>fs_dirty := True\<rparr>" "gave_inode g (took_inode g f) = f\<lparr>fs_dirty := True\<rparr>"
  using assms by (simp_all add: gave_block_def took_block_def gave_inode_def took_inode_def upd_bg_def)

context block_dev
begin

text \<open>
  Block \<open>m\<close> was free and is now marked as used; everything outside the block bitmaps is as it was.
\<close>

definition got_block :: "nat \<Rightarrow> 'd kstate \<Rightarrow> 'd kstate \<Rightarrow> bool" where
  "got_block m s s' = (let G = geom_of (k_fs s); v = view (k_cache s); v' = view (k_cache s') in
     fs_ok s' \<and> geom_of (k_fs s') = G \<and> k_time s' = k_time s \<and> has_bit G m \<and> m < g_blocks G \<and>
     m \<notin> set (meta G) \<and> \<not> bused G v m \<and> (\<forall>x. has_bit G x \<longrightarrow> bused G v' x = (x = m \<or> bused G v x)) \<and>
     (\<forall>x < 2 ^ 32. x \<notin> set (g_bbm G) \<longrightarrow> v' (blkno x) = v (blkno x)))"

definition got_inode :: "nat \<Rightarrow> 'd kstate \<Rightarrow> 'd kstate \<Rightarrow> bool" where
  "got_inode i s s' = (let G = geom_of (k_fs s); v = view (k_cache s); v' = view (k_cache s') in
     fs_ok s' \<and> geom_of (k_fs s') = G \<and> k_time s' = k_time s \<and> has_ibit G i \<and> \<not> iused G v i \<and>
     (\<forall>x. has_ibit G x \<longrightarrow> iused G v' x = (x = i \<or> iused G v x)) \<and>
     (\<forall>x < 2 ^ 32. x \<notin> set (g_ibm G) \<longrightarrow> v' (blkno x) = v (blkno x)))"

lemma took_bit_block:
  assumes "fs_ok s" "G = geom_of (k_fs s)" "g < g_n G" "k < g_bpg G" "took_bit c (g_bbm G ! g) k s s'"
    "geom_of (k_fs s') = G"
  shows "got_block (g_first G + g * g_bpg G + k) s s'"
proof -
  let ?v = "view (k_cache s)" and ?m = "g_first G + g * g_bpg G + k"
  have G: "geom_ok G" and d: "disk_ok G ?v" and bs: "g_bs G = bs" using assms(1,2) by (auto simp: fs_ok_def)
  have meta: "g_bbm G ! g \<in> set (meta G)" using in_meta(1) [OF assms(3) G] .
  have lt: "g_bbm G ! g < 2 ^ 32" using meta_block_lt(2) [OF G meta] .
  obtain bm where bm: "?v (blkno (g_bbm G ! g)) = Some bm" "length bm = g_bs G"
    using fs_ok_block [OF assms(1)] meta_block_lt(1) [OF G meta] assms(2) bs by metis
  have hb: "has_bit G ?m" using group_index_lt [OF assms(3,4)] by (simp add: has_bit_def)
  have v': "view (k_cache s') = ?v(blkno (g_bbm G ! g) \<mapsto> bm_set bm k)" "\<not> bit_of bm k"
    using assms(5) bm by (auto simp: took_bit_def)
  have free: "\<not> bused G ?v ?m" using v'(2) bm assms(4) by (simp add: bused_def bit_index)
  moreover have "?m < g_blocks G" "?m \<notin> set (meta G)"
    using d hb free by (auto simp: disk_ok_def has_bit_def not_less)
  moreover have "fs_ok s'"
    using assms(1,2,5,6) disk_ok_bm_set [OF G d assms(3,4) bm] v'(1) by (auto simp: fs_ok_def took_bit_def)
  moreover have "g_bbm G ! g \<in> set (g_bbm G)" using assms(3) geom_okD(4) [OF G] by simp
  ultimately show ?thesis
    using assms(2,5,6) hb v'(1) bused_bm_set [where v = ?v, OF G assms(3,4) _ bm] lt
    by (auto simp: got_block_def took_bit_def Let_def)
qed

lemma took_bit_inode:
  assumes "fs_ok s" "G = geom_of (k_fs s)" "g < g_n G" "k < g_ipg G" "took_bit c (g_ibm G ! g) k s s'"
    "geom_of (k_fs s') = G"
  shows "got_inode (g * g_ipg G + k + 1) s s'"
proof -
  let ?v = "view (k_cache s)" and ?i = "g * g_ipg G + k + 1"
  have G: "geom_ok G" and d: "disk_ok G ?v" and bs: "g_bs G = bs" using assms(1,2) by (auto simp: fs_ok_def)
  have meta: "g_ibm G ! g \<in> set (meta G)" using in_meta(2) [OF assms(3) G] .
  have lt: "g_ibm G ! g < 2 ^ 32" "g_ibm G ! g < g_blocks G" using meta_block_lt [OF G meta] by auto
  obtain bm where bm: "?v (blkno (g_ibm G ! g)) = Some bm" "length bm = g_bs G"
    using fs_ok_block [OF assms(1)] lt(2) assms(2) bs by metis
  have hb: "has_ibit G ?i" using group_index_lt [OF assms(3,4)] by (simp add: has_ibit_def)
  have v': "view (k_cache s') = ?v(blkno (g_ibm G ! g) \<mapsto> bm_set bm k)" "\<not> bit_of bm k"
    using assms(5) bm by (auto simp: took_bit_def)
  have free: "\<not> iused G ?v ?i" using v'(2) bm assms(4) by (simp add: iused_def)
  have mem: "g_ibm G ! g \<in> set (g_ibm G)" using assms(3) geom_okD(5) [OF G] by simp
  have "disk_ok G (view (k_cache s'))"
    unfolding v'(1) by (rule disk_ok_other [OF G d lt(2)]) (use mem geom_okD(16) [OF G] bm(2) in auto)
  then have "fs_ok s'" using assms(1,2,5,6) by (simp add: fs_ok_def took_bit_def)
  then show ?thesis
    using assms(2,5,6) hb v'(1) iused_bm_set [where v = ?v, OF G assms(3,4) _ bm] lt free mem
    by (auto simp: got_inode_def took_bit_def Let_def)
qed

lemma no_room_block:
  assumes "no_room (\<lambda>g. N g) (g_bbm G) (g_bpg G) [0..<g_n G] s e s'" "geom_ok G"
  shows "e = ERR_NO_MEMORY \<and> same (g_n G * (bs + 15)) s s' \<and> (\<not> fits (g_n G * (bs + 15)) s \<or>
    (\<forall>m. has_bit G m \<longrightarrow> bused G (view (k_cache s)) m \<or> N ((m - g_first G) div g_bpg G)))"
proof -
  have "(m - g_first G) div g_bpg G < g_n G" "(m - g_first G) mod g_bpg G < g_bpg G" if "has_bit G m" for m
    using that geom_okD(7) [OF assms(2)] by (auto simp: has_bit_def intro!: div_group)
  with assms(1) show ?thesis by (force simp: no_room_def bused_def)
qed

lemma no_room_inode:
  assumes "no_room (\<lambda>g. N g) (g_ibm G) (g_ipg G) [0..<g_n G] s e s'" "geom_ok G"
  shows "e = ERR_NO_MEMORY \<and> same (g_n G * (bs + 15)) s s' \<and> (\<not> fits (g_n G * (bs + 15)) s \<or>
    (\<forall>i. has_ibit G i \<longrightarrow> iused G (view (k_cache s)) i \<or> N ((i - 1) div g_ipg G)))"
proof -
  have "(i - 1) div g_ipg G < g_n G" "(i - 1) mod g_ipg G < g_ipg G" if "has_ibit G i" for i
    using that geom_okD(9) [OF assms(2)] by (auto simp: has_ibit_def intro!: div_group)
  with assms(1) show ?thesis by (force simp: no_room_def iused_def)
qed

text \<open>The release functions.\<close>

definition freed :: "nat \<Rightarrow> nat \<Rightarrow> 'd kstate \<Rightarrow> 'd kstate \<Rightarrow> bool" where
  "freed b k s s' = (ok (k_cache s') \<and> k_time s' = k_time s \<and> spent (bs + 15) s s' \<and>
     view (k_cache s') = (view (k_cache s))(blkno b \<mapsto> bm_clear (the (view (k_cache s) (blkno b))) k))"

lemma free_bit_ok:
  assumes "fs_ok s" "G = geom_of (k_fs s)" "unat b = m" "m \<in> set (meta G)" "unat i = k" "k < 8 * g_bs G"
  shows "wp (free_in_bitmap b i) (\<lambda>_ s'. freed m k s s' \<and> k_fs s' = k_fs s) (no_mem (bs + 15) s) s"
proof -
  have G: "geom_ok G" and g: "ok (k_cache s)" "g_bs G = bs" using assms(1,2) by (auto simp: fs_ok_def)
  obtain bm where bm: "view (k_cache s) (blkno m) = Some bm" "addr (blkno m)"
    using fs_ok_block [OF assms(1)] meta_block_lt(1) [OF G assms(4)] assms(2) by metis
  have "unat (fs_block_size (k_fs s)) = bs" using assms(2) g(2) by (simp add: geom_of_def)
  from free_in_bitmap_ok [OF g(1) this, of b bm i] bm assms(3,5,6) g(2)
  show ?thesis by (auto simp: freed_def elim!: wp_conseq)
qed

lemma free_block_ok:
  assumes "fs_ok s" "G = geom_of (k_fs s)" "g_first G \<le> unat m" "unat m < g_blocks G"
    "g = (unat m - g_first G) div g_bpg G" "k = (unat m - g_first G) mod g_bpg G"
  shows "wp (ext2_free_block m)
    (\<lambda>r s'. r = ERR_SUCCESS \<and> freed (g_bbm G ! g) k s s' \<and> k_fs s' = gave_block g (k_fs s)) (no_mem (bs + 15) s) s"
proof -
  let ?sb = "fs_superblock (k_fs s)" and ?bg = "fs_block_groups (k_fs s) ! g"
  have G: "geom_ok G" using assms(1,2) by (simp add: fs_ok_def)
  have fields: "g_first G = unat (s_first_data_block ?sb)" "g_blocks G = unat (s_blocks_count ?sb)"
    "g_bpg G = unat (s_blocks_per_group ?sb)" "g_n G = unat (fs_num_block_groups (k_fs s))"
    "g_bs G = unat (fs_block_size (k_fs s))"
    using assms(2) by (simp_all add: geom_of_def)
  have gn: "g < g_n G" using assms(3,4,5) geom_okD(11) [OF G] by (auto intro!: div_group)
  have bpg: "s_blocks_per_group ?sb \<noteq> 0" "k < g_bpg G" using geom_okD(7) [OF G] fields(3) assms(6) by auto
  have grp: "unat ((m - s_first_data_block ?sb) div s_blocks_per_group ?sb) = g"
    "unat ((m - s_first_data_block ?sb) mod s_blocks_per_group ?sb) = k"
    using assms(3,5,6) fields by (simp_all add: unat_group)
  note bg = bg_at_geom [of "k_fs s" g, folded assms(2), OF G gn]
  have meta: "g_bbm G ! g \<in> set (meta G)" using in_meta(1) [OF gn G] .
  have free: "wp (free_in_bitmap (bg_block_bitmap ?bg) ((m - s_first_data_block ?sb) mod s_blocks_per_group ?sb))
    (\<lambda>_ s'. freed (g_bbm G ! g) k s s' \<and> k_fs s' = k_fs s) (no_mem (bs + 15) s) s"
    by (rule free_bit_ok [OF assms(1,2) bg(2) meta grp(2)])
      (rule order.strict_trans2 [OF bpg(2) geom_okD(8) [OF G]])
  have "\<not> (m < s_first_data_block ?sb \<or> s_blocks_count ?sb \<le> m)"
    "\<not> fs_num_block_groups (k_fs s) \<le> (m - s_first_data_block ?sb) div s_blocks_per_group ?sb"
    using assms(3,4) fields gn grp(1) by (simp_all add: word_less_nat_alt word_le_nat_alt)
  then show ?thesis
    by (simp add: ext2_free_block_def wp_simps ext2_get_block_group_def Let_def bpg(1) bg(1) grp(1))
      (rule wp_conseq [OF free], auto simp: freed_def)
qed

lemma free_inode_ok:
  assumes "fs_ok s" "G = geom_of (k_fs s)" "1 \<le> unat i" "unat i \<le> g_inodes G"
    "g = (unat i - 1) div g_ipg G" "k = (unat i - 1) mod g_ipg G"
  shows "wp (ext2_free_inode i)
    (\<lambda>r s'. r = ERR_SUCCESS \<and> freed (g_ibm G ! g) k s s' \<and> k_fs s' = gave_inode g (k_fs s)) (no_mem (bs + 15) s) s"
proof -
  let ?sb = "fs_superblock (k_fs s)" and ?bg = "fs_block_groups (k_fs s) ! g"
  have G: "geom_ok G" using assms(1,2) by (simp add: fs_ok_def)
  have fields: "g_inodes G = unat (s_inodes_count ?sb)"
    "g_ipg G = unat (s_inodes_per_group ?sb)" "g_n G = unat (fs_num_block_groups (k_fs s))"
    "g_bs G = unat (fs_block_size (k_fs s))"
    using assms(2) by (simp_all add: geom_of_def)
  have gn: "g < g_n G" using assms(3,4,5) geom_okD(17) [OF G] by (auto intro!: div_group)
  have ipg: "s_inodes_per_group ?sb \<noteq> 0" "k < g_ipg G" using geom_okD(9) [OF G] fields(2) assms(6) by auto
  have grp: "unat ((i - 1) div s_inodes_per_group ?sb) = g" "unat ((i - 1) mod s_inodes_per_group ?sb) = k"
    using assms(3,5,6) fields by (simp_all add: unat_group)
  note bg = bg_at_geom [of "k_fs s" g, folded assms(2), OF G gn]
  have meta: "g_ibm G ! g \<in> set (meta G)" using in_meta(2) [OF gn G] .
  have free: "wp (free_in_bitmap (bg_inode_bitmap ?bg) ((i - 1) mod s_inodes_per_group ?sb))
    (\<lambda>_ s'. freed (g_ibm G ! g) k s s' \<and> k_fs s' = k_fs s) (no_mem (bs + 15) s) s"
    by (rule free_bit_ok [OF assms(1,2) bg(3) meta grp(2)])
      (rule order.strict_trans2 [OF ipg(2) geom_okD(10) [OF G]])
  have "\<not> (i = 0 \<or> s_inodes_count ?sb < i)"
    "\<not> fs_num_block_groups (k_fs s) \<le> (i - 1) div s_inodes_per_group ?sb"
    using assms(3,4) fields gn grp(1) by (auto simp: word_less_nat_alt word_le_nat_alt)
  then show ?thesis
    by (simp add: ext2_free_inode_def wp_simps ext2_get_inode_group_def Let_def ipg(1) bg(1) grp(1))
      (rule wp_conseq [OF free], auto simp: freed_def)
qed

text \<open>A block that is freed after it was allocated.\<close>

lemma freed_took:
  assumes "took_bit c b k s t" "freed b k t u" "view (k_cache s) (blkno b) = Some bm" "k < 8 * length bm"
  shows "view (k_cache u) = view (k_cache s)"
  using assms by (auto simp: took_bit_def freed_def bm_clear_set)

end

section \<open>Allocation on a RAM disk\<close>

text \<open>A mounted file system in a state that fits its RAM disk with blocks of \<open>bs\<close> bytes.\<close>

definition ext2_ok :: "nat \<Rightarrow> ramdisk option kstate \<Rightarrow> bool" where
  "ext2_ok bs s = (ram_ok bs (k_cache s) \<and> geom_ok (geom_of (k_fs s)) \<and> g_bs (geom_of (k_fs s)) = bs \<and>
     disk_ok (geom_of (k_fs s)) (ram_view bs (k_cache s)))"

lemma ram_fs_ok: "ram.fs_ok bs s = ext2_ok bs s"
  using rd_addr_blkno geom_okD(3,11,12) [of "geom_of (k_fs s)"]
  by (auto simp: ram.fs_ok_def ext2_ok_def)

text \<open>
  C7. On a file system in order, \<^verbatim>\<open>ext2_alloc_block\<close> returns a data block that was free:
  it lies below \<^verbatim>\<open>s_blocks_count\<close>, is none of the metadata, and is afterwards the only block
  whose mark has changed; no block of the disk other than the block bitmaps is written and the
  file system stays in order.  The only error is \<^verbatim>\<open>ERR_NO_MEMORY\<close>, and then the disk is as it
  was and the heap has no room for a block or every block is used or in a group with free count 0.
\<close>

theorem alloc_block_correct:
  assumes "ext2_ok bs s" "G = geom_of (k_fs s)" "v = ram_view bs (k_cache s)"
  shows "wp ext2_alloc_block
    (\<lambda>b s'. ext2_ok bs s' \<and> geom_of (k_fs s') = G \<and> has_bit G (unat b) \<and> unat b < g_blocks G \<and>
       unat b \<notin> set (meta G) \<and> \<not> bused G v (unat b) \<and>
       (\<forall>x. has_bit G x \<longrightarrow> bused G (ram_view bs (k_cache s')) x = (x = unat b \<or> bused G v x)) \<and>
       (\<forall>x < 2 ^ 32. x \<notin> set (g_bbm G) \<longrightarrow> ram_view bs (k_cache s') (blkno x) = v (blkno x)))
    (\<lambda>e s'. e = ERR_NO_MEMORY \<and> ram_view bs (k_cache s') = v \<and> k_fs s' = k_fs s \<and>
       (\<not> fits (g_n G * (bs + 15)) s \<or>
        (\<forall>x. has_bit G x \<longrightarrow> bused G v x \<or>
           bg_free_blocks_count (fs_block_groups (k_fs s) ! ((x - g_first G) div g_bpg G)) = 0))) s"
proof (rule wp_conseq [OF ram.alloc_block_ok [OF _ assms(2), of bs]], goal_cases)
  case (2 b s')
  then obtain g k where gk: "g < g_n G" "k < g_bpg G" "unat b = g_first G + g * g_bpg G + k"
    "ram.took_bit bs (g_n G * (bs + 15)) (g_bbm G ! g) k s s'" "k_fs s' = took_block g (k_fs s)" by blast
  have "ram.got_block bs (unat b) s s'"
    unfolding gk(3) by (rule ram.took_bit_block [OF _ assms(2) gk(1,2,4)])
      (use assms gk(5) in \<open>simp_all add: ram_fs_ok\<close>)
  then show ?case using assms(2,3) by (simp add: ram.got_block_def Let_def ram_fs_ok)
next
  case (3 e s')
  from ram.no_room_block [OF this] assms show ?case by (auto simp: ext2_ok_def ram.same_def)
qed (simp add: assms ram_fs_ok)

text \<open>
  C23. The same for \<^verbatim>\<open>ext2_alloc_inode\<close>: the inode that it returns was free, has a bit in the
  bitmap of its group, and is afterwards the only one whose mark has changed.
\<close>

theorem alloc_inode_correct:
  assumes "ext2_ok bs s" "G = geom_of (k_fs s)" "v = ram_view bs (k_cache s)"
  shows "wp ext2_alloc_inode
    (\<lambda>i s'. ext2_ok bs s' \<and> geom_of (k_fs s') = G \<and> has_ibit G (unat i) \<and> \<not> iused G v (unat i) \<and>
       (\<forall>x. has_ibit G x \<longrightarrow> iused G (ram_view bs (k_cache s')) x = (x = unat i \<or> iused G v x)) \<and>
       (\<forall>x < 2 ^ 32. x \<notin> set (g_ibm G) \<longrightarrow> ram_view bs (k_cache s') (blkno x) = v (blkno x)))
    (\<lambda>e s'. e = ERR_NO_MEMORY \<and> ram_view bs (k_cache s') = v \<and> k_fs s' = k_fs s \<and>
       (\<not> fits (g_n G * (bs + 15)) s \<or>
        (\<forall>x. has_ibit G x \<longrightarrow> iused G v x \<or>
           bg_free_inodes_count (fs_block_groups (k_fs s) ! ((x - 1) div g_ipg G)) = 0))) s"
proof (rule wp_conseq [OF ram.alloc_inode_ok [OF _ assms(2), of bs]], goal_cases)
  case (2 i s')
  then obtain g k where gk: "g < g_n G" "k < g_ipg G" "unat i = g * g_ipg G + k + 1"
    "ram.took_bit bs (g_n G * (bs + 15)) (g_ibm G ! g) k s s'" "k_fs s' = took_inode g (k_fs s)" by blast
  have "ram.got_inode bs (unat i) s s'"
    unfolding gk(3) by (rule ram.took_bit_inode [OF _ assms(2) gk(1,2,4)])
      (use assms gk(5) in \<open>simp_all add: ram_fs_ok\<close>)
  then show ?case using assms(2,3) by (simp add: ram.got_inode_def Let_def ram_fs_ok)
next
  case (3 e s')
  from ram.no_room_inode [OF this] assms show ?case by (auto simp: ext2_ok_def ram.same_def)
qed (simp add: assms ram_fs_ok)

lemma alloc_block_live:
  assumes "ext2_ok bs s" "G = geom_of (k_fs s)" "has_bit G x" "\<not> bused G (ram_view bs (k_cache s)) x"
    and "bg_free_blocks_count (fs_block_groups (k_fs s) ! ((x - g_first G) div g_bpg G)) \<noteq> 0"
    and "fits (g_n G * (bs + 15)) s"
  shows "\<exists>b s'. ext2_alloc_block s = (Val b, s')"
proof -
  have G: "geom_ok G" using assms(1,2) by (simp add: ext2_ok_def)
  have "wp ext2_alloc_block (\<lambda>_ _. True) (\<lambda>_ _. False) s"
  proof (rule wp_conseq [OF ram.alloc_block_ok [OF _ assms(2), of bs]], goal_cases)
    case (3 e s')
    from ram.no_room_block [OF this G] assms show ?case by auto
  qed (simp_all add: assms(1) ram_fs_ok)
  then show ?thesis by (elim wp_Val_exists) blast
qed


text \<open>
  C25. Freeing a block right after it was allocated gives back the file system: the disk, the
  descriptors and both free counts are as before the allocation and only the dirty flag is set.
  The only error is that there is no memory for the buffer.
\<close>

theorem alloc_free_block:
  assumes "ext2_ok bs s" "ext2_alloc_block s = (Val b, t)"
  shows "wp (ext2_free_block b)
    (\<lambda>r u. r = ERR_SUCCESS \<and> ram_view bs (k_cache u) = ram_view bs (k_cache s) \<and>
       k_fs u = (k_fs s)\<lparr>fs_dirty := True\<rparr> \<and> ext2_ok bs u)
    (\<lambda>e u. e = ERR_NO_MEMORY \<and> \<not> fits (bs + 15) t) t"
proof -
  let ?G = "geom_of (k_fs s)" and ?v = "ram_view bs (k_cache s)"
  have s: "ram.fs_ok bs s" and G: "geom_ok ?G" using assms(1) by (auto simp: ram_fs_ok ext2_ok_def)
  from ram.alloc_block_ok [OF s refl] assms(2)
  obtain g k where gk: "g < g_n ?G" "k < g_bpg ?G" "unat b = g_first ?G + g * g_bpg ?G + k"
    "ram.took_bit bs (g_n ?G * (bs + 15)) (g_bbm ?G ! g) k s t" "k_fs t = took_block g (k_fs s)" by (auto simp: wp_def)
  have got: "ram.got_block bs (unat b) s t"
    unfolding gk(3) by (rule ram.took_bit_block [OF s refl gk(1,2,4)]) (simp add: gk(5))
  have t: "ram.fs_ok bs t" "?G = geom_of (k_fs t)" "g_first ?G \<le> unat b" "unat b < g_blocks ?G"
    "g = (unat b - g_first ?G) div g_bpg ?G" "k = (unat b - g_first ?G) mod g_bpg ?G"
    using got gk(2,3) by (simp_all add: ram.got_block_def Let_def has_bit_def)
  have len: "g < length (fs_block_groups (k_fs s))"
    using gk(1) geom_okD(4) [OF G] by (simp add: geom_of_def)
  obtain bm where bm: "?v (blkno (g_bbm ?G ! g)) = Some bm" "length bm = bs"
    using ram.fs_ok_block [OF s meta_block_lt(1) [OF G in_meta(1) [OF gk(1) G]]] by metis
  have k8: "k < 8 * length bm" using gk(2) geom_okD(8) [OF G] assms(1) bm(2) by (simp add: ext2_ok_def)
  show ?thesis
  proof (rule wp_conseq [OF ram.free_block_ok [OF t]], goal_cases)
    case (1 r u)
    then have "ram_view bs (k_cache u) = ?v" using ram.freed_took [OF gk(4) _ bm(1) k8] by blast
    with 1 show ?case
      using assms(1) by (simp add: gk(5) gave_took(1) [OF len] ext2_ok_def ram.freed_def)
  qed (simp add: ram.no_mem_def)
qed

text \<open>
  A file system with one group on a RAM disk of 16 blocks: block 2 holds the descriptor, 3 and 4
  the bitmaps, 5 the inodes, and 6 is the block of the root directory.
\<close>

definition demo_root :: ext2_inode where
  "demo_root = \<lparr>i_mode = 0x41ED, i_uid = 0, i_size = 1024, i_atime = 0, i_ctime = 0, i_mtime = 0, i_dtime = 0,
     i_gid = 0, i_links_count = 2, i_blocks = 2, i_flags = 0, i_osd1 = 0, i_block = 6 # replicate 14 0,
     i_generation = 0, i_file_acl = 0, i_dir_acl = 0, i_faddr = 0, i_osd2 = replicate 12 0\<rparr>"

definition demo_blocks :: "bytes list" where
  "demo_blocks = (replicate 16 (replicate 1024 0))
     [3 := [0x3F, 0x80, 0xFF, 0xFF] @ replicate 1020 0, 4 := [0x03] @ replicate 1023 0,
      5 := replicate 128 0 @ encode_inode demo_root @ replicate 768 0,
      6 := [2, 0, 0, 0, 12, 0, 1, 2, 0x2E, 0, 0, 0] @ [2, 0, 0, 0, 0xF4, 3, 2, 2, 0x2E, 0x2E] @ replicate 1002 0]"

definition demo_device2 :: "ramdisk option block_device" where
  "demo_device2 = demo_disk\<lparr>device_data := Some \<lparr>rd_size = 16384, rd_data = concat demo_blocks, rd_block_size = 1024\<rparr>\<rparr>"

definition demo_state :: "ramdisk option block_cache \<Rightarrow> ramdisk option kstate" where
  "demo_state c = \<lparr>k_cache = c, k_heap = 0, k_time = 5, k_fs = demo_fs False\<rparr>"

lemma demo_blocks_length: "length demo_blocks = 16" "m < 16 \<Longrightarrow> length (demo_blocks ! m) = 1024"
proof -
  have "inode_wf demo_root" by (simp add: demo_root_def inode_wf_def)
  then show "m < 16 \<Longrightarrow> length (demo_blocks ! m) = 1024"
    by (simp add: demo_blocks_def nth_list_update length_encode_inode)
qed (simp add: demo_blocks_def)

lemma get_block_concat:
  assumes "\<And>b. b \<in> set bs \<Longrightarrow> length b = n" "m < length bs"
  shows "get_bytes (concat bs) (m * n) n = bs ! m"
  using assms
proof (induction bs arbitrary: m)
  case (Cons b bs)
  then show ?case by (cases m) (simp_all add: get_bytes_def)
qed simp

lemma demo_view2:
  assumes "m < 16"
  shows "rd_blk 1024 (device_data demo_device2) (blkno m) = Some (demo_blocks ! m)"
proof -
  have "get_bytes (concat demo_blocks) (m * 1024) 1024 = demo_blocks ! m"
    using assms demo_blocks_length by (intro get_block_concat) (auto simp: in_set_conv_nth)
  then show ?thesis using assms by (simp add: demo_device2_def rd_blk_def rd_addr_blkno)
qed

lemma demo_geom: "geom_of (demo_fs d) = \<lparr>g_bs = 1024, g_n = 1, g_first = 1, g_bpg = 32, g_ipg = 8, g_blocks = 16,
    g_inodes = 8, g_isize = 128, g_bbm = [3], g_ibm = [4], g_itab = [5]\<rparr>"
  by (simp add: geom_of_def demo_fs_def demo_superblock_def demo_group_def inode_size_of_def)

lemma demo_meta: "meta (geom_of (demo_fs d)) = [1, 2, 3, 4, 5]"
  by (simp add: demo_geom meta_def itab_len_def demo_fs_facts upt_rec)

lemma demo_bused:
  assumes "v (blkno 3) = Some (demo_blocks ! 3)" "1 \<le> m" "m < 33"
  shows "bused (geom_of (demo_fs d)) v m = (m < 7 \<or> 16 \<le> m)"
proof -
  have "\<forall>k < 32. bit_of ([0x3F, 0x80, 0xFF, 0xFF] @ replicate 1020 0) k = (k < 6 \<or> 15 \<le> k)"
    by code_simp
  from this [rule_format, of "m - 1"] assms show ?thesis
    by (auto simp: bused_def demo_geom demo_blocks_def)
qed

lemma demo_iused:
  assumes "v (blkno 4) = Some (demo_blocks ! 4)" "1 \<le> i" "i \<le> 8"
  shows "iused (geom_of (demo_fs d)) v i = (i < 3)"
proof -
  have "\<forall>k \<in> set [0..<8]. bit (0x03 :: u8) k = (k < 2)" by code_simp
  then have bit: "bit (0x03 :: u8) k = (k < 2)" if "k < 8" for k using that by simp
  have "i - 1 < 8" "(i - 1 < 2) = (i < 3)" using assms(2,3) by auto
  with bit [of "i - 1"] show ?thesis
    using assms(1) by (simp add: iused_def demo_geom demo_blocks_def bit_of_Cons)
qed

lemma demo_ext2_ok:
  obtains c where "ext2_ok 1024 (demo_state c)" "\<And>m. m < 16 \<Longrightarrow> ram_view 1024 c (blkno m) = Some (demo_blocks ! m)"
proof -
  obtain c h where c: "block_cache_create (Some demo_device2) 1024 0 = (Some c, h)"
    using block_cache_create_succeeds [of 0 1024 "Some demo_device2"] by (auto simp: BLOCK_CACHE_SIZE_def)
  have "map length demo_blocks = replicate 16 1024"
    by (rule nth_equalityI) (simp_all add: demo_blocks_length)
  then have "length (concat demo_blocks) = 16384" by (simp add: length_concat sum_list_replicate)
  then have inv: "rd_inv (unat (1024 :: u64)) (device_data demo_device2)"
    by (simp add: demo_device2_def rd_inv_def)
  have cv: "ram_ok 1024 c" "ram_view 1024 c = rd_blk 1024 (device_data demo_device2)"
    using ram_create [OF c _ _ _ inv] by (simp_all add: demo_device2_def demo_disk_def)
  have v: "ram_view 1024 c (blkno m) = Some (demo_blocks ! m)" if "m < 16" for m
    unfolding cv(2) by (rule demo_view2 [OF that])
  have "geom_ok (geom_of (demo_fs False))"
    by (simp add: geom_ok_def demo_meta) (simp add: demo_geom)
  moreover have "disk_ok (geom_of (demo_fs False)) (ram_view 1024 c)"
    using v demo_blocks_length(2) demo_bused [of "ram_view 1024 c"]
    by (auto simp: disk_ok_def demo_meta) (auto simp: demo_geom)
  ultimately have "ext2_ok 1024 (demo_state c)"
    using cv(1) by (simp add: ext2_ok_def demo_state_def) (simp add: demo_geom)
  with v show ?thesis by (intro that)
qed

lemma demo_simps [simp]:
  "k_cache (demo_state c) = c" "k_fs (demo_state c) = demo_fs False" "fs_block_groups (demo_fs d) = [demo_group]"
  "bg_free_blocks_count demo_group = 9" "bg_free_inodes_count demo_group = 6"
  by (simp_all add: demo_state_def demo_fs_def demo_group_def)

lemma demo_free: "fits n (demo_state c) = (n \<le> unat HEAP_SIZE)"
  by (simp add: fits_def demo_state_def heap_inv_def)

lemma demo_alloc:
  assumes "ext2_ok 1024 (demo_state c)" "ram_view 1024 c (blkno 3) = Some (demo_blocks ! 3)"
  shows "\<exists>b s'. ext2_alloc_block (demo_state c) = (Val b, s')"
  by (rule alloc_block_live [OF assms(1) refl, of 9])
    (use assms(2) demo_bused [of "ram_view 1024 c"] in \<open>auto simp: demo_free has_bit_def demo_geom\<close>)

theorem alloc_block_correct_witness:
  "\<exists>c. ext2_ok 1024 (demo_state c) \<and>
    wp ext2_alloc_block (\<lambda>b s'. 7 \<le> unat b \<and> unat b < 16 \<and> ext2_ok 1024 s') (\<lambda>_ _. False) (demo_state c)"
proof -
  obtain c where c: "ext2_ok 1024 (demo_state c)" and v: "ram_view 1024 c (blkno 3) = Some (demo_blocks ! 3)"
    by (rule demo_ext2_ok) simp
  have "wp ext2_alloc_block (\<lambda>b s'. 7 \<le> unat b \<and> unat b < 16 \<and> ext2_ok 1024 s') (\<lambda>_ _. False) (demo_state c)"
  proof (rule wp_conseq [OF alloc_block_correct [OF c refl refl]], goal_cases)
    case (1 b s')
    then show ?case using v demo_bused [of "ram_view 1024 c" "unat b"] by (auto simp: has_bit_def demo_geom)
  next
    case (2 e s')
    let ?G = "geom_of (k_fs (demo_state c))"
    have "has_bit ?G 9" "\<not> bused ?G (ram_view 1024 (k_cache (demo_state c))) 9" "fits (g_n ?G * (1024 + 15)) (demo_state c)"
      using v demo_bused [of "ram_view 1024 c" 9] by (simp_all add: has_bit_def demo_geom demo_free)
    moreover have "bg_free_blocks_count (fs_block_groups (k_fs (demo_state c)) ! ((9 - g_first ?G) div g_bpg ?G)) \<noteq> 0"
      by (simp add: demo_geom)
    ultimately show ?case using 2 by blast
  qed
  with c show ?thesis by blast
qed


theorem alloc_inode_correct_witness:
  "\<exists>c. ext2_ok 1024 (demo_state c) \<and>
    wp ext2_alloc_inode (\<lambda>i s'. 3 \<le> unat i \<and> unat i \<le> 8 \<and> ext2_ok 1024 s') (\<lambda>_ _. False) (demo_state c)"
proof -
  obtain c where c: "ext2_ok 1024 (demo_state c)" and v: "ram_view 1024 c (blkno 4) = Some (demo_blocks ! 4)"
    by (rule demo_ext2_ok) simp
  have "wp ext2_alloc_inode (\<lambda>i s'. 3 \<le> unat i \<and> unat i \<le> 8 \<and> ext2_ok 1024 s') (\<lambda>_ _. False) (demo_state c)"
  proof (rule wp_conseq [OF alloc_inode_correct [OF c refl refl]], goal_cases)
    case (1 i s')
    then show ?case using v demo_iused [of "ram_view 1024 c" "unat i"] by (auto simp: has_ibit_def demo_geom)
  next
    case (2 e s')
    let ?G = "geom_of (k_fs (demo_state c))"
    have "has_ibit ?G 5" "\<not> iused ?G (ram_view 1024 (k_cache (demo_state c))) 5" "fits (g_n ?G * (1024 + 15)) (demo_state c)"
      using v demo_iused [of "ram_view 1024 c" 5] by (simp_all add: has_ibit_def demo_geom demo_free)
    moreover have "bg_free_inodes_count (fs_block_groups (k_fs (demo_state c)) ! ((5 - 1) div g_ipg ?G)) \<noteq> 0"
      by (simp add: demo_geom)
    ultimately show ?case using 2 by blast
  qed
  with c show ?thesis by blast
qed

theorem alloc_free_block_witness:
  "\<exists>c b t. ext2_alloc_block (demo_state c) = (Val b, t) \<and>
    wp (ext2_free_block b) (\<lambda>r u. r = ERR_SUCCESS \<and> k_fs u = demo_fs True) (\<lambda>_ _. True) t"
proof -
  obtain c where c: "ext2_ok 1024 (demo_state c)" and v: "ram_view 1024 c (blkno 3) = Some (demo_blocks ! 3)"
    by (rule demo_ext2_ok) simp
  obtain b t where b: "ext2_alloc_block (demo_state c) = (Val b, t)"
    using demo_alloc [OF c v] by blast
  have "wp (ext2_free_block b) (\<lambda>r u. r = ERR_SUCCESS \<and> k_fs u = demo_fs True) (\<lambda>_ _. True) t"
    by (rule wp_conseq [OF alloc_free_block [OF c b]]) (simp_all add: demo_fs_def)
  with b show ?thesis by blast
qed

end
