(* ===== verification/Ext2_Inode.thy ===== *)
theory Ext2_Inode
  imports Ext2_Alloc
begin

unbundle bit_operations_syntax

text \<open>
  Inodes and the block map of a file, \<^verbatim>\<open>src/fs/ext2/inode.c\<close>.

  A structure that a function changes through a pointer is an argument and part of the result.
  \<^verbatim>\<open>ext2_set_block_num\<close> may change the inode before it fails, so its result is the return
  value together with the inode on every path.
\<close>

section \<open>Arrays of block numbers\<close>

text \<open>\<^verbatim>\<open>((u32*)buf)[k]\<close>.\<close>

definition load32 :: "bytes \<Rightarrow> nat \<Rightarrow> u32 option" where
  "load32 buf k = (if 4 * k + 4 \<le> length buf then Some (of_le32 (get_bytes buf (4 * k) 4)) else None)"

definition store32 :: "bytes \<Rightarrow> nat \<Rightarrow> u32 \<Rightarrow> bytes option" where
  "store32 buf k w = (if 4 * k + 4 \<le> length buf then Some (put_bytes buf (4 * k) (le32 w)) else None)"

text \<open>The outcome of a call as a value, for a caller that looks at the error.\<close>

definition tryP :: "('s, 'a) prog \<Rightarrow> ('s, i32 + 'a) prog" where
  "tryP m = catch (bindP m (\<lambda>x. ret (Inr x))) (\<lambda>e. ret (Inl e))"

section \<open>Inodes\<close>

text \<open>
  The block of the inode table that holds inode \<open>ino\<close> and the offset in it; the computation is
  the same in the two functions.  A division by zero is undefined.
\<close>

definition inode_place :: "u32 \<Rightarrow> ('d kstate, u32 \<times> u32) prog" where
  "inode_place ino =
     bindP (gets k_fs) (\<lambda>f. let sb = fs_superblock f in
     if ino = 0 \<or> ino > s_inodes_count sb then throw ERR_INVALID else
     bindP (the_or_ub (ext2_get_inode_group sb ino)) (\<lambda>group.
     if group \<ge> fs_num_block_groups f then throw ERR_INVALID else
     bindP (the_or_ub (bg_at (unat group) f)) (\<lambda>bg.
     let inode_table = bg_inode_table bg;
         inode_size = (if s_inode_size sb \<noteq> 0 then ucast (s_inode_size sb) else 128);
         inodes_per_block = fs_block_size f div inode_size;
         index = (ino - 1) mod s_inodes_per_group sb
     in bindP (guard (inodes_per_block \<noteq> 0)) (\<lambda>_.
        ret (inode_table + index div inodes_per_block, index mod inodes_per_block * inode_size)))))"

definition ext2_read_inode :: "u32 \<Rightarrow> ('d kstate, ext2_inode) prog" where
  "ext2_read_inode ino =
     bindP (inode_place ino) (\<lambda>(block, offset).
     bindP (gets (\<lambda>s. fs_block_size (k_fs s))) (\<lambda>block_size.
     bindP (alloc_buffer (ucast block_size)) (\<lambda>buf.
     bindP (cache_read (ucast block) buf) (\<lambda>(_, buffer).
     bindP (the_or_ub (memcpy (replicate 128 0) 0 buffer (unat offset) 128)) (\<lambda>b.
     ret (decode_inode b))))))"

definition ext2_write_inode :: "u32 \<Rightarrow> ext2_inode \<Rightarrow> ('d kstate, i32) prog" where
  "ext2_write_inode ino inode =
     bindP (inode_place ino) (\<lambda>(block, offset).
     bindP (gets (\<lambda>s. fs_block_size (k_fs s))) (\<lambda>block_size.
     bindP (alloc_buffer (ucast block_size)) (\<lambda>buf.
     bindP (cache_read (ucast block) buf) (\<lambda>(_, buffer).
     bindP (the_or_ub (memcpy buffer (unat offset) (encode_inode inode) 0 128)) (\<lambda>buffer'.
     bindP (cache_write (ucast block) buffer') (\<lambda>_.
     bindP (modify (upd_fs (\<lambda>f. f\<lparr>fs_dirty := True\<rparr>))) (\<lambda>_.
     ret ERR_SUCCESS)))))))"

section \<open>The block map\<close>

text \<open>Read a block of block numbers and take entry \<open>k\<close>.\<close>

definition read_entry :: "u32 \<Rightarrow> u32 \<Rightarrow> u32 \<Rightarrow> ('d kstate, u32) prog" where
  "read_entry block_size block k =
     bindP (alloc_buffer (ucast block_size)) (\<lambda>buf.
     bindP (cache_read (ucast block) buf) (\<lambda>(_, indirect).
     the_or_ub (load32 indirect (unat k))))"

definition ext2_get_block_num :: "ext2_inode \<Rightarrow> u32 \<Rightarrow> ('d kstate, u32) prog" where
  "ext2_get_block_num inode file_block =
     bindP (gets (\<lambda>s. fs_block_size (k_fs s))) (\<lambda>block_size.
     let addrs_per_block = block_size div 4 in
     if file_block < 12 then ret (i_block inode ! unat file_block) else
     let file_block = file_block - 12 in
     if file_block < addrs_per_block then
       if i_block inode ! 12 = 0 then ret 0
       else read_entry block_size (i_block inode ! 12) file_block
     else
     let file_block = file_block - addrs_per_block in
     if file_block < addrs_per_block * addrs_per_block then
       if i_block inode ! 13 = 0 then ret 0
       else
         bindP (read_entry block_size (i_block inode ! 13) (file_block div addrs_per_block)) (\<lambda>indirect2_block.
         if indirect2_block = 0 then ret 0
         else read_entry block_size indirect2_block (file_block mod addrs_per_block))
     else throw ERR_INVALID)"

definition set_i_block :: "nat \<Rightarrow> u32 \<Rightarrow> ext2_inode \<Rightarrow> ext2_inode" where
  "set_i_block k b inode = inode\<lparr>i_block := (i_block inode)[k := b]\<rparr>"

text \<open>The branch \<^verbatim>\<open>if (inode->i_block[12] == 0)\<close> of \<^verbatim>\<open>ext2_set_block_num\<close>.\<close>

definition add_indirect :: "u32 \<Rightarrow> ext2_inode \<Rightarrow> ('d kstate, i32 \<times> ext2_inode) prog" where
  "add_indirect block_size inode =
     bindP (tryP ext2_alloc_block) (\<lambda>r. case r of
       Inl e \<Rightarrow> ret (e, inode)
     | Inr indirect_block \<Rightarrow>
         let inode' = set_i_block 12 indirect_block inode in
         bindP (tryP (bindP (alloc_buffer (ucast block_size)) (\<lambda>buf.
           bindP (the_or_ub (memset buf 0 0 (unat block_size))) (\<lambda>zero_block.
           cache_write (ucast indirect_block) zero_block)))) (\<lambda>w. case w of
             Inl e \<Rightarrow> ret (e, inode')
           | Inr x \<Rightarrow> ret (x, inode')))"

definition write_entry :: "u32 \<Rightarrow> u32 \<Rightarrow> u32 \<Rightarrow> u32 \<Rightarrow> ('d kstate, i32) prog" where
  "write_entry block_size block k block_num =
     bindP (alloc_buffer (ucast block_size)) (\<lambda>buf.
     bindP (cache_read (ucast block) buf) (\<lambda>(_, indirect).
     bindP (the_or_ub (store32 indirect (unat k) block_num)) (\<lambda>indirect'.
     cache_write (ucast block) indirect')))"

definition ext2_set_block_num :: "ext2_inode \<Rightarrow> u32 \<Rightarrow> u32 \<Rightarrow> ('d kstate, i32 \<times> ext2_inode) prog" where
  "ext2_set_block_num inode file_block block_num =
     bindP (gets (\<lambda>s. fs_block_size (k_fs s))) (\<lambda>block_size.
     let addrs_per_block = block_size div 4 in
     if file_block < 12 then ret (ERR_SUCCESS, set_i_block (unat file_block) block_num inode) else
     let file_block = file_block - 12 in
     if file_block < addrs_per_block then
       bindP (if i_block inode ! 12 = 0 then add_indirect block_size inode else ret (ERR_SUCCESS, inode))
         (\<lambda>(result, inode').
       if result < 0 then ret (result, inode') else
       bindP (tryP (write_entry block_size (i_block inode' ! 12) file_block block_num)) (\<lambda>w. case w of
         Inl e \<Rightarrow> ret (e, inode')
       | Inr x \<Rightarrow> ret (x, inode')))
     else ret (ERR_INVALID, inode))"

lemma wp_tryP [wp_simps]: "wp (tryP m) Q E = wp m (\<lambda>x. Q (Inr x)) (\<lambda>e. Q (Inl e))"
  by (simp add: tryP_def wp_simps)

section \<open>The place of an inode\<close>

definition iblk :: "geom \<Rightarrow> nat \<Rightarrow> nat" where
  "iblk G i = g_itab G ! ((i - 1) div g_ipg G) + (i - 1) mod g_ipg G div (g_bs G div g_isize G)"

definition ioff :: "geom \<Rightarrow> nat \<Rightarrow> nat" where
  "ioff G i = (i - 1) mod g_ipg G mod (g_bs G div g_isize G) * g_isize G"

definition has_inode :: "geom \<Rightarrow> nat \<Rightarrow> bool" where
  "has_inode G i = (1 \<le> i \<and> i \<le> g_inodes G)"

text \<open>The inode \<open>i\<close> of a disk.\<close>

definition inode_at :: "geom \<Rightarrow> (u64 \<Rightarrow> bytes option) \<Rightarrow> nat \<Rightarrow> ext2_inode" where
  "inode_at G v i = decode_inode (get_bytes (the (v (blkno (iblk G i)))) (ioff G i) 128)"

lemma has_inode_bit: "geom_ok G \<Longrightarrow> has_inode G i \<Longrightarrow> has_ibit G i"
  using geom_okD(17) [of G] by (simp add: has_inode_def has_ibit_def)

lemma inode_group_lt:
  assumes "geom_ok G" "has_ibit G i"
  shows "(i - 1) div g_ipg G < g_n G"
  using assms by (intro div_group) (auto simp: has_ibit_def)

lemma per_block_pos: "geom_ok G \<Longrightarrow> 0 < g_bs G div g_isize G"
  by (simp add: geom_ok_def div_greater_zero_iff)

lemma itab_in_meta:
  assumes "geom_ok G" "g < g_n G" "k < itab_len G"
  shows "g_itab G ! g + k \<in> set (meta G)"
proof -
  have "g_itab G ! g \<in> set (g_itab G)" using assms(2) geom_okD(6) [OF assms(1)] by simp
  with assms(3) show ?thesis by (force simp: meta_def)
qed

lemma itab_index_lt:
  assumes "geom_ok G"
  shows "(i - 1) mod g_ipg G div (g_bs G div g_isize G) < itab_len G"
proof -
  let ?p = "g_bs G div g_isize G" and ?n = "g_ipg G"
  have p: "0 < ?p" by (rule per_block_pos [OF assms])
  have "(i - 1) mod ?n < ?n" using geom_okD(9) [OF assms] by simp
  then have "(i - 1) mod ?n div ?p \<le> (?n - 1) div ?p" by (intro div_le_mono) simp
  also have "\<dots> < (?n - 1) div ?p + 1" by simp
  also have "\<dots> = (?n - 1 + ?p) div ?p" using p by (subst div_add_self2) simp_all
  also have "?n - 1 + ?p = ?n + ?p - 1" using geom_okD(9) [OF assms] by simp
  finally show ?thesis by (simp add: itab_len_def)
qed

lemma iblk_meta: "geom_ok G \<Longrightarrow> has_ibit G i \<Longrightarrow> iblk G i \<in> set (meta G)"
  unfolding iblk_def by (intro itab_in_meta inode_group_lt itab_index_lt)

lemma ioff_le:
  assumes "geom_ok G"
  shows "ioff G i + 128 \<le> g_bs G" "ioff G i + g_isize G \<le> g_bs G"
proof -
  let ?p = "g_bs G div g_isize G"
  have "(i - 1) mod g_ipg G mod ?p < ?p" using per_block_pos [OF assms] by simp
  then have "ioff G i + g_isize G \<le> ?p * g_isize G"
    using mult_le_mono1 [of "Suc ((i - 1) mod g_ipg G mod ?p)" ?p "g_isize G"] by (simp add: ioff_def)
  also have "\<dots> \<le> g_bs G" by (rule div_times_less_eq_dividend)
  finally show "ioff G i + g_isize G \<le> g_bs G" .
  then show "ioff G i + 128 \<le> g_bs G" using geom_okD(1) [OF assms] by linarith
qed

text \<open>The inode tables are none of the bitmaps.\<close>

lemma iblk_not_bitmap:
  assumes "geom_ok G" "has_ibit G i"
  shows "iblk G i \<notin> set (g_bbm G)" "iblk G i \<notin> set (g_ibm G)"
proof -
  let ?g = "(i - 1) div g_ipg G"
  have "g_itab G ! ?g \<in> set (g_itab G)" using inode_group_lt [OF assms] geom_okD(6) [OF assms(1)] by simp
  then have "iblk G i \<in> set (concat (map (\<lambda>t. [t..<t + itab_len G]) (g_itab G)))"
    using itab_index_lt [OF assms(1), of i] unfolding iblk_def
    by (auto intro!: bexI [of _ "g_itab G ! ?g"])
  moreover have "distinct (meta G)" by (rule geom_okD(13) [OF assms(1)])
  ultimately show "iblk G i \<notin> set (g_bbm G)" "iblk G i \<notin> set (g_ibm G)"
    unfolding meta_def distinct_append set_append by blast+
qed

text \<open>Two inodes are in different places.\<close>

lemma disjoint_chunks:
  assumes "distinct (concat (map (\<lambda>t. [t..<t + n]) ts))" "g < length ts" "g' < length ts" "k < n" "k' < n"
    "ts ! g + k = ts ! g' + k'"
  shows "g = g' \<and> k = (k' :: nat)"
  using assms
proof (induction ts arbitrary: g g')
  case (Cons t ts)
  have "ts ! h + j \<in> set (concat (map (\<lambda>t. [t..<t + n]) ts))" if "h < length ts" "j < n" for h j
    using that by (auto intro!: bexI [of _ "ts ! h"])
  note inner = this
  have apart: "t + k \<noteq> ts ! h + j" if "h < length ts" "j < n" "k < n" for h j k
    using Cons.prems(1) inner [OF that(1,2)] that(3) by (auto simp: disjoint_iff)
  show ?case
  proof (cases g)
    case 0
    then show ?thesis using Cons.prems apart by (cases g') auto
  next
    case (Suc h)
    show ?thesis
    proof (cases g')
      case 0
      then show ?thesis using Cons.prems Suc apart [of h k k'] by auto
    next
      case (Suc h')
      then show ?thesis using Cons.IH [of h h'] Cons.prems \<open>g = Suc h\<close> by simp
    qed
  qed
qed simp

lemma places_apart:
  assumes "geom_ok G" "has_ibit G i" "has_ibit G j" "i \<noteq> j" "iblk G i = iblk G j"
  shows "ioff G i + g_isize G \<le> ioff G j \<or> ioff G j + g_isize G \<le> ioff G i"
proof -
  let ?p = "g_bs G div g_isize G" and ?n = "g_ipg G"
  have "distinct (concat (map (\<lambda>t. [t..<t + itab_len G]) (g_itab G)))"
    using geom_okD(13) [OF assms(1)] by (simp add: meta_def)
  from disjoint_chunks [OF this _ _ itab_index_lt [OF assms(1), of i] itab_index_lt [OF assms(1), of j],
      of "(i - 1) div ?n" "(j - 1) div ?n"] assms
  have eq: "(i - 1) div ?n = (j - 1) div ?n" "(i - 1) mod ?n div ?p = (j - 1) mod ?n div ?p"
    by (simp_all only: iblk_def inode_group_lt geom_okD(6))
  have "(i - 1) mod ?n mod ?p \<noteq> (j - 1) mod ?n mod ?p"
  proof
    assume "(i - 1) mod ?n mod ?p = (j - 1) mod ?n mod ?p"
    with eq(2) have "(i - 1) mod ?n = (j - 1) mod ?n" by (metis div_mult_mod_eq)
    with eq(1) have "i - 1 = j - 1" by (metis div_mult_mod_eq)
    with assms(2-4) show False by (auto simp: has_ibit_def)
  qed
  then have "Suc ((i - 1) mod ?n mod ?p) \<le> (j - 1) mod ?n mod ?p \<or> Suc ((j - 1) mod ?n mod ?p) \<le> (i - 1) mod ?n mod ?p"
    by linarith
  then show ?thesis
    using mult_le_mono1 [of "Suc ((i - 1) mod ?n mod ?p)" "(j - 1) mod ?n mod ?p" "g_isize G"]
      mult_le_mono1 [of "Suc ((j - 1) mod ?n mod ?p)" "(i - 1) mod ?n mod ?p" "g_isize G"]
    by (auto simp: ioff_def)
qed

text \<open>Storing an inode changes that inode only.\<close>

definition put_inode :: "geom \<Rightarrow> nat \<Rightarrow> ext2_inode \<Rightarrow> (u64 \<Rightarrow> bytes option) \<Rightarrow> u64 \<Rightarrow> bytes option" where
  "put_inode G i inode v =
     v(blkno (iblk G i) \<mapsto> put_bytes (the (v (blkno (iblk G i)))) (ioff G i) (encode_inode inode))"

lemma inode_at_put:
  assumes "geom_ok G" "disk_ok G v" "has_ibit G i" "has_ibit G j" "inode_wf inode"
  shows "inode_at G (put_inode G i inode v) j = (if j = i then inode else inode_at G v j)"
proof -
  let ?b = "the (v (blkno (iblk G i)))"
  have lt: "iblk G i < 2 ^ 32" "iblk G j < 2 ^ 32" "iblk G i < g_blocks G"
    using meta_block_lt [OF assms(1) iblk_meta [OF assms(1)]] assms(3,4) by auto
  have len: "length ?b = g_bs G" using assms(2) lt(3) by (auto simp: disk_ok_def)
  note sz = length_encode_inode [OF assms(5)] ioff_le [OF assms(1)] geom_okD(1) [OF assms(1)]
  show ?thesis
  proof (cases "j = i")
    case True
    then show ?thesis
      using decode_encode_inode [OF assms(5), of "[]"] sz len
      by (simp add: inode_at_def put_inode_def get_put_same)
  next
    case False
    have "get_bytes (put_bytes ?b (ioff G i) (encode_inode inode)) (ioff G j) 128 = get_bytes ?b (ioff G j) 128"
      if "iblk G i = iblk G j"
    proof (rule get_put_other)
      have "ioff G i + g_isize G \<le> ioff G j \<or> ioff G j + g_isize G \<le> ioff G i"
        by (rule places_apart [OF assms(1,3,4)]) (use False that in auto)
      then show "ioff G j + 128 \<le> ioff G i \<or> ioff G i + length (encode_inode inode) \<le> ioff G j"
        using sz by auto
    qed (use sz len in auto)
    then show ?thesis using False lt by (auto simp: inode_at_def put_inode_def)
  qed
qed

section \<open>Reading and writing inodes\<close>

lemma inode_size_eq: "(if s_inode_size sb \<noteq> 0 then ucast (s_inode_size sb) else 128) = inode_size_of sb"
  by (simp add: inode_size_of_def)

context block_dev
begin

lemma inode_place_ok:
  assumes "fs_ok s" "G = geom_of (k_fs s)" "has_inode G (unat ino)"
  shows "wp (inode_place ino) (\<lambda>(b, off) s'. s' = s \<and> unat b = iblk G (unat ino) \<and> unat off = ioff G (unat ino)) E s"
proof -
  let ?sb = "fs_superblock (k_fs s)" and ?i = "unat ino"
  let ?g = "(?i - 1) div g_ipg G" and ?bg = "fs_block_groups (k_fs s) ! ((?i - 1) div g_ipg G)"
  let ?ix = "(ino - 1) mod s_inodes_per_group ?sb" and ?p = "fs_block_size (k_fs s) div inode_size_of ?sb"
  have G: "geom_ok G" using assms(1,2) by (simp add: fs_ok_def)
  have fields: "g_inodes G = unat (s_inodes_count ?sb)" "g_isize G = unat (inode_size_of ?sb)"
    "g_ipg G = unat (s_inodes_per_group ?sb)" "g_n G = unat (fs_num_block_groups (k_fs s))"
    "g_bs G = unat (fs_block_size (k_fs s))"
    using assms(2) by (simp_all add: geom_of_def)
  have i1: "1 \<le> ?i" "?i \<le> g_inodes G" using assms(3) by (simp_all add: has_inode_def)
  have bit: "has_ibit G ?i" using has_inode_bit [OF G assms(3)] .
  have gn: "?g < g_n G" by (rule inode_group_lt [OF G bit])
  note bg = bg_at_geom [of "k_fs s" ?g, folded assms(2), OF G gn]
  have grp: "unat ((ino - 1) div s_inodes_per_group ?sb) = ?g" "unat ?ix = (?i - 1) mod g_ipg G"
    using i1 fields by (simp_all add: unat_group)
  have ipg: "s_inodes_per_group ?sb \<noteq> 0" using geom_okD(9) [OF G] fields(3) by auto
  have p: "unat ?p = g_bs G div g_isize G" using fields by (simp add: unat_div)
  have p0: "?p \<noteq> 0" using per_block_pos [OF G] p by auto
  have c: "\<not> (ino = 0 \<or> s_inodes_count ?sb < ino)"
    "\<not> fs_num_block_groups (k_fs s) \<le> (ino - 1) div s_inodes_per_group ?sb"
    using i1 fields gn grp(1) by (auto simp: word_less_nat_alt word_le_nat_alt)
  have ib: "iblk G ?i < 2 ^ 32" using meta_block_lt(2) [OF G iblk_meta [OF G bit]] .
  have b: "unat (bg_inode_table ?bg + ?ix div ?p) = iblk G ?i"
    using ib bg(4) grp(2) p unfolding iblk_def
    by (subst unat_add_lem [THEN iffD1]) (simp_all add: unat_div)
  have "ioff G ?i < 2 ^ 32" using ioff_le(1) [OF G, of ?i] geom_okD(3) [OF G] by simp
  then have off: "unat (?ix mod ?p * inode_size_of ?sb) = ioff G ?i"
    using grp(2) p fields(2) unfolding ioff_def
    by (subst unat_mult_lem [THEN iffD1]) (simp_all add: unat_mod)
  show ?thesis
    using c p0 b off bg(1)
    by (simp add: inode_place_def wp_simps ext2_get_inode_group_def Let_def ipg grp(1) inode_size_eq)
qed

lemma block_size_word: "fs_ok s \<Longrightarrow> unat (ucast (fs_block_size (k_fs s)) :: u64) = bs"
  by (simp add: fs_ok_def geom_of_def)

text \<open>A block of the disk is read into a new buffer.\<close>

lemma read_block_rule:
  fixes b :: u32
  assumes "fs_ok s" "unat b < g_blocks (geom_of (k_fs s))" "block_size = fs_block_size (k_fs s)"
    and "\<And>c s'. same (bs + 15) s s' \<Longrightarrow> view (k_cache s) (blkno (unat b)) = Some c \<Longrightarrow> length c = bs \<Longrightarrow>
      wp (f (int bs, c)) Q E s'"
    and "\<And>e s'. no_mem (bs + 15) s e s' \<Longrightarrow> E e s'"
  shows "wp (bindP (alloc_buffer (ucast block_size)) (\<lambda>buf. bindP (cache_read (ucast b) buf) f)) Q E s"
  unfolding wp_bindP
proof (rule alloc_spent_rule)
  fix h
  assume h: "spent (unat (ucast block_size :: u64) + 15) s (s\<lparr>k_heap := h\<rparr>)"
  obtain c where c: "view (k_cache s) (blkno (unat b)) = Some c" "length c = bs" "addr (blkno (unat b))"
    by (rule fs_ok_block [OF assms(1,2)])
  note sz = block_size_word [OF assms(1)] and ok = assms(1) [unfolded fs_ok_def]
  show "wp (cache_read (ucast b) (replicate (unat (ucast block_size :: u64)) 0)) (\<lambda>x. wp (f x) Q E) E (s\<lparr>k_heap := h\<rparr>)"
    unfolding ucast_unat_blkno [of b]
  proof (rule cache_read_rule [where b = c], goal_cases)
    case (5 ca)
    then show ?case using c h sz assms(3) by (intro assms(4)) (simp_all add: same_def)
  qed (use c h sz ok assms(3) in simp_all)
next
  assume "\<not> fits (unat (ucast block_size :: u64) + 15) s"
  then show "E ERR_NO_MEMORY s"
    using assms(1,3,5) block_size_word [OF assms(1)] by (auto simp: no_mem_def same_refl fs_ok_def)
qed

lemma inode_block_lt:
  assumes "fs_ok s" "G = geom_of (k_fs s)" "has_inode G i"
  shows "iblk G i < g_blocks G" "ioff G i + 128 \<le> bs" "has_ibit G i"
proof -
  have G: "geom_ok G" "g_bs G = bs" using assms(1,2) by (simp_all add: fs_ok_def)
  show bit: "has_ibit G i" by (rule has_inode_bit [OF G(1) assms(3)])
  show "iblk G i < g_blocks G" by (rule meta_block_lt(1) [OF G(1) iblk_meta [OF G(1) bit]])
  show "ioff G i + 128 \<le> bs" using ioff_le(1) [OF G(1)] G(2) by simp
qed

lemma read_inode_ok:
  assumes "fs_ok s" "G = geom_of (k_fs s)" "has_inode G (unat ino)"
  shows "wp (ext2_read_inode ino)
    (\<lambda>i s'. same (bs + 15) s s' \<and> i = inode_at G (view (k_cache s)) (unat ino)) (no_mem (bs + 15) s) s"
  unfolding ext2_read_inode_def wp_bindP [of "inode_place ino"]
proof (rule wp_conseq [OF inode_place_ok [OF assms, where E = "\<lambda>_ _. False"]], goal_cases)
  case (1 bo s1)
  obtain b off where bo: "bo = (b, off)" "s1 = s" "unat b = iblk G (unat ino)" "unat off = ioff G (unat ino)"
    using 1 by (cases bo) simp
  note lt = inode_block_lt [OF assms]
  show ?case
    unfolding bo(1,2) prod.case wp_bind_gets
    by (rule read_block_rule [OF assms(1) _ refl])
      (use lt bo(3,4) assms(2) in \<open>auto simp: wp_simps memcpy_block put_bytes_def length_get_bytes inode_at_def\<close>)
qed simp

lemma write_inode_ok:
  assumes "fs_ok s" "G = geom_of (k_fs s)" "has_inode G (unat ino)" "inode_wf inode"
  shows "wp (ext2_write_inode ino inode)
    (\<lambda>r s'. r = ERR_SUCCESS \<and> fs_ok s' \<and> k_fs s' = (k_fs s)\<lparr>fs_dirty := True\<rparr> \<and> k_time s' = k_time s \<and>
       spent (bs + 15) s s' \<and> view (k_cache s') = put_inode G (unat ino) inode (view (k_cache s)))
    (no_mem (bs + 15) s) s"
  unfolding ext2_write_inode_def wp_bindP [of "inode_place ino"]
proof (rule wp_conseq [OF inode_place_ok [OF assms(1-3), where E = "\<lambda>_ _. False"]], goal_cases)
  case (1 bo s1)
  obtain b off where bo: "bo = (b, off)" "s1 = s" "unat b = iblk G (unat ino)" "unat off = ioff G (unat ino)"
    using 1 by (cases bo) simp
  note lt = inode_block_lt [OF assms(1-3)] and len = length_encode_inode [OF assms(4)]
  have c: "ok (k_cache s)" and G: "geom_ok G" and d: "disk_ok G (view (k_cache s))" and bs: "g_bs G = bs"
    using assms(1,2) by (simp_all add: fs_ok_def)
  have put: "wp (cache_write (blkno (iblk G (unat ino))) (put_bytes c (ioff G (unat ino)) (encode_inode inode)))
    (\<lambda>_ s''. fs_ok (upd_fs (\<lambda>f. f\<lparr>fs_dirty := True\<rparr>) s'') \<and> k_fs s'' = k_fs s \<and> k_time s'' = k_time s \<and>
       spent (bs + 15) s s'' \<and> view (k_cache s'') = put_inode G (unat ino) inode (view (k_cache s)))
    (no_mem (bs + 15) s) s'"
    if c: "same (bs + 15) s s'" "view (k_cache s) (blkno (iblk G (unat ino))) = Some c" "length c = bs" for c s'
  proof (rule cache_write_rule)
    have "disk_ok G (put_inode G (unat ino) inode (view (k_cache s)))"
      unfolding put_inode_def
      by (rule disk_ok_other [OF G d lt(1) iblk_not_bitmap(1) [OF G lt(3)]])
        (use c bs len lt in \<open>simp add: length_put_bytes\<close>)
    then show "fs_ok (upd_fs (\<lambda>f. f\<lparr>fs_dirty := True\<rparr>) (s'\<lparr>k_cache := ch\<rparr>)) \<and> k_fs (s'\<lparr>k_cache := ch\<rparr>) = k_fs s \<and>
        k_time (s'\<lparr>k_cache := ch\<rparr>) = k_time s \<and> spent (bs + 15) s (s'\<lparr>k_cache := ch\<rparr>) \<and>
        view (k_cache (s'\<lparr>k_cache := ch\<rparr>)) = put_inode G (unat ino) inode (view (k_cache s))"
      if "ok ch" "view ch = (view (k_cache s'))(blkno (iblk G (unat ino)) \<mapsto> put_bytes c (ioff G (unat ino)) (encode_inode inode))" for ch
      using that c assms(1,2) by (simp add: fs_ok_def same_def put_inode_def)
  qed (use c lt len assms(1,2) in \<open>auto simp: same_def length_put_bytes fs_ok_def\<close>)
  show ?case
    unfolding bo(1,2) prod.case wp_bind_gets
  proof (rule read_block_rule [OF assms(1) _ refl], goal_cases)
    case (2 c s')
    then show ?case
      using lt(2) len bo(3,4) by (simp add: wp_simps memcpy_block get_bytes_whole ucast_unat_blkno wp_conseq [OF put])
  qed (use lt(1) bo(3) assms(2) in simp_all)
qed simp

end

section \<open>The blocks of a file\<close>

text \<open>
  The block map as a function on the disk: entry \<open>k\<close> of the block of numbers \<open>b\<close>, and the block of
  the file with index \<open>n\<close>, where 0 is a hole and \<open>None\<close> an index that is too large.
\<close>

definition ptr :: "(u64 \<Rightarrow> bytes option) \<Rightarrow> u32 \<Rightarrow> nat \<Rightarrow> u32" where
  "ptr v b k = of_le32 (get_bytes (the (v (blkno (unat b)))) (4 * k) 4)"

definition apb :: "geom \<Rightarrow> nat" where
  "apb G = g_bs G div 4"

definition bmap :: "geom \<Rightarrow> (u64 \<Rightarrow> bytes option) \<Rightarrow> ext2_inode \<Rightarrow> nat \<Rightarrow> u32 option" where
  "bmap G v inode n = (let a = apb G; one = i_block inode ! 12; two = i_block inode ! 13 in
     if n < 12 then Some (i_block inode ! n)
     else if n < 12 + a then Some (if one = 0 then 0 else ptr v one (n - 12))
     else if n < 12 + a + a * a then
       Some (if two = 0 then 0
             else let b = ptr v two ((n - 12 - a) div a) in if b = 0 then 0 else ptr v b ((n - 12 - a) mod a))
     else None)"

text \<open>
  The places of a file that refer to blocks: \<open>Inl n\<close> is the block with index \<open>n\<close>, and \<open>Inr\<close> numbers
  the blocks of numbers.
\<close>

type_synonym fref = "nat + nat"

definition ref_blk :: "geom \<Rightarrow> (u64 \<Rightarrow> bytes option) \<Rightarrow> ext2_inode \<Rightarrow> fref \<Rightarrow> u32" where
  "ref_blk G v inode r = (case r of
     Inl n \<Rightarrow> (case bmap G v inode n of Some b \<Rightarrow> b | None \<Rightarrow> 0)
   | Inr k \<Rightarrow> if k = 0 then i_block inode ! 12 else if k = 1 then i_block inode ! 13
       else if k - 2 < apb G \<and> i_block inode ! 13 \<noteq> 0 then ptr v (i_block inode ! 13) (k - 2) else 0)"

text \<open>A block that may hold data of a file and is marked as used.\<close>

definition data_ok :: "geom \<Rightarrow> (u64 \<Rightarrow> bytes option) \<Rightarrow> u32 \<Rightarrow> bool" where
  "data_ok G v b = (has_bit G (unat b) \<and> unat b < g_blocks G \<and> unat b \<notin> set (meta G) \<and> bused G v (unat b))"

text \<open>A file in order: all its blocks are data blocks and no block has two places.\<close>

definition file_ok :: "geom \<Rightarrow> (u64 \<Rightarrow> bytes option) \<Rightarrow> ext2_inode \<Rightarrow> bool" where
  "file_ok G v inode = (inode_wf inode \<and>
     (\<forall>r. ref_blk G v inode r \<noteq> 0 \<longrightarrow> data_ok G v (ref_blk G v inode r)) \<and>
     (\<forall>r q. ref_blk G v inode r = ref_blk G v inode q \<and> ref_blk G v inode r \<noteq> 0 \<longrightarrow> r = q))"

lemma ref_blk_Inr [simp]:
  "ref_blk G v inode (Inr 0) = i_block inode ! 12" "ref_blk G v inode (Inr 1) = i_block inode ! 13"
  "ref_blk G v inode (Inr (Suc 0)) = i_block inode ! 13"
  "k < apb G \<Longrightarrow> i_block inode ! 13 \<noteq> 0 \<Longrightarrow> ref_blk G v inode (Inr (Suc (Suc k))) = ptr v (i_block inode ! 13) k"
  by (simp_all add: ref_blk_def)

lemma ref_blk_direct: "n < 12 \<Longrightarrow> ref_blk G v inode (Inl n) = i_block inode ! n"
  by (simp add: ref_blk_def bmap_def)

lemma ref_blk_bmap: "bmap G v inode n = Some b \<Longrightarrow> ref_blk G v inode (Inl n) = b"
  by (simp add: ref_blk_def)

lemma file_okD:
  assumes "file_ok G v inode" "ref_blk G v inode r \<noteq> 0"
  shows "data_ok G v (ref_blk G v inode r)" "unat (ref_blk G v inode r) < g_blocks G"
    and "ref_blk G v inode r = ref_blk G v inode q \<Longrightarrow> r = q"
  using assms by (auto simp: file_ok_def data_ok_def)

lemma double_index:
  assumes "12 + a \<le> n" "n < 12 + a + a * (a :: nat)"
  shows "(n - 12 - a) div a < a" "(n - 12 - a) mod a < a"
  using assms by (auto intro!: less_mult_imp_div_less) (metis add_cancel_left_right mod_less_divisor mult_0 neq0_conv not_less)

context block_dev
begin

lemma load32_ptr:
  assumes "view (k_cache s) (blkno (unat b)) = Some c" "length c = bs" "k < bs div 4"
  shows "load32 c k = Some (ptr (view (k_cache s)) b k)"
  using assms by (simp add: load32_def ptr_def)

lemma read_entry_ok:
  assumes "fs_ok s" "unat b < g_blocks (geom_of (k_fs s))" "block_size = fs_block_size (k_fs s)" "unat k < bs div 4"
  shows "wp (read_entry block_size b k)
    (\<lambda>x s'. same (bs + 15) s s' \<and> x = ptr (view (k_cache s)) b (unat k)) (no_mem (bs + 15) s) s"
  unfolding read_entry_def
  by (rule read_block_rule [OF assms(1-3)]) (use assms(4) in \<open>simp_all add: wp_simps load32_ptr\<close>)

text \<open>\<open>same\<close> after one step, and an error of the second step.\<close>

lemma wp_after_same:
  assumes "wp m Q (no_mem b t) t" "same a s t"
    and "\<And>x s'. Q x s' \<Longrightarrow> Q' x s'" "\<And>e s'. no_mem (a + b) s e s' \<Longrightarrow> E e s'"
  shows "wp m Q' E t"
  by (rule wp_conseq [OF assms(1)]) (use assms no_mem_trans in blast)+

end

lemma unat_minus_lit:
  assumes "unat c \<le> unat (n :: u32)"
  shows "unat (n - c) = unat n - unat c"
  using assms by (simp add: unat_sub word_le_nat_alt)

context block_dev
begin

text \<open>The words that \<^verbatim>\<open>ext2_get_block_num\<close> and \<^verbatim>\<open>ext2_set_block_num\<close> compute with.\<close>

lemma index_words:
  fixes n :: u32
  assumes "fs_ok s" "G = geom_of (k_fs s)" "bs \<le> 2 ^ 16" "a = fs_block_size (k_fs s) div 4"
  shows "unat a = apb G" "apb G = bs div 4" "0 < apb G" "(n < 12) = (unat n < 12)"
    "\<not> unat n < 12 \<Longrightarrow> unat (n - 12) = unat n - 12"
    "\<not> unat n < 12 \<Longrightarrow> (n - 12 < a) = (unat n < 12 + apb G)"
    "\<not> unat n < 12 + apb G \<Longrightarrow> unat (n - 12 - a) = unat n - 12 - apb G"
    "\<not> unat n < 12 + apb G \<Longrightarrow> (n - 12 - a < a * a) = (unat n < 12 + apb G + apb G * apb G)"
proof -
  have bs: "unat (fs_block_size (k_fs s)) = bs" "128 \<le> bs" "g_bs G = bs"
    using assms(1,2) by (auto simp: fs_ok_def geom_ok_def geom_of_def)
  show a: "unat a = apb G" and a': "apb G = bs div 4" and "0 < apb G"
    using bs assms(4) by (simp_all add: apb_def unat_div)
  have "apb G \<le> 2 ^ 14" using a' assms(3) by simp
  then have "apb G * apb G \<le> 2 ^ 14 * 2 ^ 14" by (intro mult_le_mono)
  then have aa: "unat (a * a) = apb G * apb G"
    using a by (subst unat_mult_lem [THEN iffD1]) simp_all
  show "(n < 12) = (unat n < 12)" by (simp add: word_less_nat_alt)
  show n12: "\<not> unat n < 12 \<Longrightarrow> unat (n - 12) = unat n - 12" by (simp add: unat_minus_lit)
  show "\<not> unat n < 12 \<Longrightarrow> (n - 12 < a) = (unat n < 12 + apb G)"
    using n12 a by (auto simp: word_less_nat_alt)
  show n24: "\<not> unat n < 12 + apb G \<Longrightarrow> unat (n - 12 - a) = unat n - 12 - apb G"
    using n12 a by (subst unat_minus_lit) auto
  show "\<not> unat n < 12 + apb G \<Longrightarrow> (n - 12 - a < a * a) = (unat n < 12 + apb G + apb G * apb G)"
    using n24 aa by (auto simp: word_less_nat_alt)
qed

lemma read_double_ok:
  assumes "fs_ok s" "unat b < g_blocks (geom_of (k_fs s))" "unat i < bs div 4" "unat j < bs div 4"
    and "block_size = fs_block_size (k_fs s)" "x = ptr (view (k_cache s)) b (unat i)"
    and "x \<noteq> 0 \<Longrightarrow> unat x < g_blocks (geom_of (k_fs s))"
  shows "wp (bindP (read_entry block_size b i) (\<lambda>x. if x = 0 then ret 0 else read_entry block_size x j))
    (\<lambda>y s'. same (2 * (bs + 15)) s s' \<and> y = (if x = 0 then 0 else ptr (view (k_cache s)) x (unat j)))
    (no_mem (2 * (bs + 15)) s) s"
  unfolding wp_bindP
proof (rule wp_conseq [OF read_entry_ok [OF assms(1,2,5,3)]], goal_cases)
  case (1 z t)
  then have t: "same (bs + 15) s t" "z = x" using assms(6) by simp_all
  show ?case
  proof (cases "x = 0")
    case True
    then show ?thesis using t same_mono [OF t(1), of "2 * (bs + 15)"] by (simp add: wp_simps)
  next
    case False
    have f: "k_fs t = k_fs s" "view (k_cache t) = view (k_cache s)" using t(1) by (simp_all add: same_def)
    have "wp (read_entry block_size x j) (\<lambda>y s'. same (bs + 15) t s' \<and> y = ptr (view (k_cache t)) x (unat j))
        (no_mem (bs + 15) t) t"
      by (rule read_entry_ok [OF fs_ok_same [OF assms(1) t(1)]]) (use assms(4,5,7) False f in simp_all)
    then have "wp (read_entry block_size x j) (\<lambda>y s'. same (2 * (bs + 15)) s s' \<and> y = ptr (view (k_cache s)) x (unat j))
        (no_mem (2 * (bs + 15)) s) t"
    proof (rule wp_after_same [OF _ t(1)], goal_cases)
      case (1 y s')
      then show ?case using same_trans [OF t(1), of "bs + 15" s'] f by (simp only: mult_2)
    next
      case (2 e s')
      then show ?case by (simp only: mult_2)
    qed
    with False t(2) show ?thesis by simp
  qed
next
  case (2 e s')
  then show ?case by (rule no_mem_mono) simp
qed

lemma get_block_num_ok:
  assumes "fs_ok s" "G = geom_of (k_fs s)" "v = view (k_cache s)" "file_ok G v inode" "bs \<le> 2 ^ 16"
  shows "wp (ext2_get_block_num inode n)
    (\<lambda>b s'. same (2 * (bs + 15)) s s' \<and> bmap G v inode (unat n) = Some b)
    (\<lambda>e s'. same (2 * (bs + 15)) s s' \<and> (e = ERR_INVALID \<and> bmap G v inode (unat n) = None \<or> no_mem (2 * (bs + 15)) s e s')) s"
proof -
  let ?a = "fs_block_size (k_fs s) div 4" and ?n = "unat n"
  let ?Q = "\<lambda>b s'. same (2 * (bs + 15)) s s' \<and> bmap G v inode ?n = Some b"
  let ?E = "\<lambda>e s'. same (2 * (bs + 15)) s s' \<and> (e = ERR_INVALID \<and> bmap G v inode ?n = None \<or> no_mem (2 * (bs + 15)) s e s')"
  note w = index_words [OF assms(1,2,5) refl]
  have stay: "same (2 * (bs + 15)) s s" using assms(1) by (simp add: same_refl fs_ok_def)
  have err: "no_mem c s e s' \<Longrightarrow> c \<le> 2 * (bs + 15) \<Longrightarrow> ?E e s'" for c e s'
    using no_mem_mono [of c s e s' "2 * (bs + 15)"] by (auto simp: no_mem_def)
  have lt: "ref_blk G v inode r \<noteq> 0 \<Longrightarrow> unat (ref_blk G v inode r) < g_blocks (geom_of (k_fs s))" for r
    using file_okD(2) [OF assms(4)] assms(2) by simp
  consider "?n < 12" | "12 \<le> ?n" "?n < 12 + apb G" | "12 + apb G \<le> ?n" "?n < 12 + apb G + apb G * apb G"
    | "12 + apb G + apb G * apb G \<le> ?n" by linarith
  then show ?thesis
  proof cases
    case 1
    then show ?thesis using stay w by (simp add: ext2_get_block_num_def wp_simps bmap_def)
  next
    case 2
    have b: "bmap G v inode ?n = Some (if i_block inode ! 12 = 0 then 0 else ptr v (i_block inode ! 12) (?n - 12))"
      using 2 by (simp add: bmap_def Let_def)
    show ?thesis
    proof (cases "i_block inode ! 12 = 0")
      case True
      then show ?thesis using stay 2 w b by (simp add: ext2_get_block_num_def wp_simps Let_def)
    next
      case False
      have "wp (read_entry (fs_block_size (k_fs s)) (i_block inode ! 12) (n - 12)) ?Q ?E s"
      proof (rule wp_conseq [OF read_entry_ok [OF assms(1) _ refl]], goal_cases)
        case 1
        then show ?case using lt [of "Inr 0"] False by simp
      next
        case (3 x s')
        then show ?case using b False 2 w assms(3) by (auto elim!: same_mono)
      next
        case (4 e s')
        then show ?case by (rule err) simp
      qed (use 2 w in simp)
      then show ?thesis using False 2 w by (simp add: ext2_get_block_num_def wp_simps Let_def)
    qed
  next
    case 3
    let ?two = "i_block inode ! 13" and ?i = "(?n - 12 - apb G) div apb G" and ?j = "(?n - 12 - apb G) mod apb G"
    have ij: "?i < bs div 4" "?j < bs div 4" using double_index [OF 3] w(2) by simp_all
    have words: "unat ((n - 12 - ?a) div ?a) = ?i" "unat ((n - 12 - ?a) mod ?a) = ?j"
      using 3(1) w(1,7) by (simp_all add: unat_div unat_mod)
    have b: "bmap G v inode ?n = Some (if ?two = 0 then 0 else if ptr v ?two ?i = 0 then 0 else ptr v (ptr v ?two ?i) ?j)"
      using 3 by (simp add: bmap_def Let_def)
    show ?thesis
    proof (cases "?two = 0")
      case True
      then show ?thesis using stay 3 w b by (simp add: ext2_get_block_num_def wp_simps Let_def)
    next
      case False
      have "?two \<noteq> 0 \<Longrightarrow> ptr v ?two ?i \<noteq> 0 \<Longrightarrow> unat (ptr v ?two ?i) < g_blocks (geom_of (k_fs s))"
        using lt [of "Inr (Suc (Suc ?i))"] ij(1) w(2) by simp
      then have "wp (bindP (read_entry (fs_block_size (k_fs s)) ?two ((n - 12 - ?a) div ?a)) (\<lambda>x.
          if x = 0 then ret 0 else read_entry (fs_block_size (k_fs s)) x ((n - 12 - ?a) mod ?a))) ?Q ?E s"
        using lt [of "Inr 1"] False ij words b assms(3)
        by (intro wp_conseq [OF read_double_ok [OF assms(1), where x = "ptr v ?two ?i"]] err [OF _ order_refl]) simp_all
      then show ?thesis using False 3 w by (simp add: ext2_get_block_num_def wp_bind_gets Let_def)
    qed
  next
    case 4
    then show ?thesis using stay w by (simp add: ext2_get_block_num_def wp_simps bmap_def Let_def)
  qed
qed

end

section \<open>Changing the block map\<close>

lemma blkno_unat_eq [simp]: "(blkno (unat (a :: u32)) = blkno (unat b)) = (a = b)"
  using unat_u32_lt [of a] unat_u32_lt [of b] by (simp add: word_unat_eq_iff)

text \<open>The map depends on the inode and on the blocks of numbers only.\<close>

lemma ref_blk_cong:
  assumes "i_block inode' = i_block inode"
    and "\<And>k. ref_blk G v inode (Inr k) \<noteq> 0 \<Longrightarrow>
      v' (blkno (unat (ref_blk G v inode (Inr k)))) = v (blkno (unat (ref_blk G v inode (Inr k))))"
  shows "ref_blk G v' inode' = ref_blk G v inode"
proof
  fix r
  let ?one = "i_block inode ! 12" and ?two = "i_block inode ! 13"
  have one: "?one \<noteq> 0 \<Longrightarrow> ptr v' ?one k = ptr v ?one k" and two: "?two \<noteq> 0 \<Longrightarrow> ptr v' ?two k = ptr v ?two k" for k
    using assms(2) [of 0] assms(2) [of 1] by (simp_all add: ptr_def)
  have inner: "ptr v' (ptr v ?two i) k = ptr v (ptr v ?two i) k" if "?two \<noteq> 0" "i < apb G" "ptr v ?two i \<noteq> 0" for i k
    using assms(2) [of "Suc (Suc i)"] that by (simp add: ptr_def)
  show "ref_blk G v' inode' r = ref_blk G v inode r"
  proof (cases r)
    case (Inl n)
    then show ?thesis
      using one two inner double_index(1) [of "apb G" n] assms(1)
      by (auto simp: ref_blk_def bmap_def Let_def)
  next
    case (Inr k)
    then show ?thesis using two assms(1) by (simp add: ref_blk_def)
  qed
qed

lemma ref_set_direct:
  assumes "inode_wf inode" "n < 12"
  shows "ref_blk G v (set_i_block n b inode) = (ref_blk G v inode)(Inl n := b)"
proof
  fix r
  show "ref_blk G v (set_i_block n b inode) r = ((ref_blk G v inode)(Inl n := b)) r"
    using assms by (cases r) (auto simp: ref_blk_def bmap_def set_i_block_def inode_wf_def Let_def nth_list_update)
qed

lemma ptr_put_entry:
  assumes "v (blkno (unat one)) = Some c" "length c = g_bs G" "k < apb G" "j < apb G"
  shows "ptr (v(blkno (unat one) \<mapsto> put_bytes c (4 * k) (le32 b))) one j = (if j = k then b else ptr v one j)"
proof (cases "j = k")
  case True
  then show ?thesis
    using assms of_le32_le32 [of b "[]"] by (simp add: ptr_def get_put_same apb_def)
next
  case False
  then have "4 * j + 4 \<le> 4 * k \<or> 4 * k + length (le32 b) \<le> 4 * j" by auto
  then show ?thesis
    using False assms get_put_other [of "4 * k" "le32 b" c "4 * j" 4] by (simp add: ptr_def apb_def)
qed

lemma ref_set_entry:
  assumes "file_ok G v inode" "i_block inode ! 12 \<noteq> 0" "k < apb G"
    and "v (blkno (unat (i_block inode ! 12))) = Some c" "length c = g_bs G"
  shows "ref_blk G (v(blkno (unat (i_block inode ! 12)) \<mapsto> put_bytes c (4 * k) (le32 b))) inode =
    (ref_blk G v inode)(Inl (12 + k) := b)" (is "ref_blk G ?v inode = _")
proof
  fix r
  let ?one = "i_block inode ! 12" and ?two = "i_block inode ! 13"
  have inj: "ref_blk G v inode (Inr j) = ?one \<Longrightarrow> j = 0" for j
    using file_okD(3) [OF assms(1), of "Inr 0" "Inr j"] assms(2) by auto
  have two: "ptr ?v ?two j = ptr v ?two j" for j
    using inj [of 1] by (auto simp: ptr_def)
  have inner: "ptr ?v (ptr v ?two i) j = ptr v (ptr v ?two i) j" if "?two \<noteq> 0" "i < apb G" for i j
    using inj [of "Suc (Suc i)"] that by (auto simp: ptr_def)
  note one = ptr_put_entry [where v = v and one = ?one, OF assms(4,5,3)]
  show "ref_blk G ?v inode r = ((ref_blk G v inode)(Inl (12 + k) := b)) r"
  proof (cases r)
    case (Inl n)
    then show ?thesis
      using one [of "n - 12"] two inner double_index(1) [of "apb G" n] assms(2,3)
      by (auto simp: ref_blk_def bmap_def Let_def)
  next
    case (Inr j)
    then show ?thesis using two by (simp add: ref_blk_def)
  qed
qed

text \<open>A new block of zeros as the block of numbers.\<close>

lemma ptr_zero:
  assumes "v (blkno (unat x)) = Some (replicate n 0)" "k < n div 4"
  shows "ptr v x k = 0"
proof -
  have "get_bytes (replicate n 0) (4 * k) 4 = replicate 4 0" using assms(2) by (simp add: get_bytes_def)
  then show ?thesis using assms(1) by (simp add: ptr_def of_le32_def numeral_eq_Suc)
qed

lemma ref_new_indirect:
  assumes "inode_wf inode" "i_block inode ! 12 = 0" "v' (blkno (unat x)) = Some (replicate (g_bs G) 0)"
    and "\<And>k. ref_blk G v inode (Inr k) \<noteq> 0 \<Longrightarrow>
      v' (blkno (unat (ref_blk G v inode (Inr k)))) = v (blkno (unat (ref_blk G v inode (Inr k))))"
  shows "ref_blk G v' (set_i_block 12 x inode) = (ref_blk G v inode)(Inr 0 := x)"
proof
  fix r
  have same: "ref_blk G v' inode = ref_blk G v inode" by (rule ref_blk_cong) (simp_all add: assms(4))
  have set: "i_block (set_i_block 12 x inode) ! j = (if j = 12 then x else i_block inode ! j)" if "j < 15" for j
    using that assms(1) by (simp add: set_i_block_def inode_wf_def)
  have "ref_blk G v' (set_i_block 12 x inode) r = (if r = Inr 0 then x else ref_blk G v' inode r)"
  proof (cases r)
    case (Inl n)
    then show ?thesis
      using ptr_zero [where v = v' and x = x, OF assms(3)] assms(2) set [of 12] set [of 13] set [of n]
      by (auto simp: ref_blk_def bmap_def Let_def apb_def)
  next
    case (Inr j)
    then show ?thesis using set [of 12] set [of 13] by (auto simp: ref_blk_def)
  qed
  then show "ref_blk G v' (set_i_block 12 x inode) r = ((ref_blk G v inode)(Inr 0 := x)) r"
    by (simp add: same)
qed

text \<open>A file gets a block that it did not have.\<close>

lemma file_ok_upd:
  assumes "file_ok G v inode" "inode_wf inode'" "ref_blk G v' inode' = (ref_blk G v inode)(r := b)"
    and "\<And>q. ref_blk G v inode q \<noteq> b" "data_ok G v' b"
    and "\<And>x. has_bit G x \<Longrightarrow> bused G v x \<Longrightarrow> bused G v' x"
  shows "file_ok G v' inode'"
proof -
  have "data_ok G v c \<Longrightarrow> data_ok G v' c" for c using assms(6) by (auto simp: data_ok_def)
  then show ?thesis using assms(1,2,4,5) unfolding file_ok_def assms(3) by (auto split: if_splits)
qed

section \<open>Inodes and block maps on a RAM disk\<close>

text \<open>
  C8. What is written as an inode is read back: after \<^verbatim>\<open>ext2_write_inode\<close> of inode \<open>ino\<close>,
  \<^verbatim>\<open>ext2_read_inode\<close> returns the new inode for \<open>ino\<close> and the old one for every other number, and
  the file system stays in order.  The only error is that the heap has no room for the two buffers.
\<close>

theorem inode_roundtrip:
  assumes "ext2_ok bs s" "G = geom_of (k_fs s)" "has_inode G (unat ino)" "has_inode G (unat j)" "inode_wf inode"
  shows "wp (bindP (ext2_write_inode ino inode) (\<lambda>_. ext2_read_inode j))
    (\<lambda>i s'. ext2_ok bs s' \<and> i = (if j = ino then inode else inode_at G (ram_view bs (k_cache s)) (unat j)))
    (\<lambda>e s'. e = ERR_NO_MEMORY \<and> \<not> fits (2 * (bs + 15)) s) s"
  unfolding wp_bindP
proof (rule wp_conseq [OF ram.write_inode_ok [OF _ assms(2,3,5), of bs]], goal_cases)
  case (2 r t)
  then have t: "ram.fs_ok bs t" "geom_of (k_fs t) = G" "spent (bs + 15) s t"
    "ram_view bs (k_cache t) = put_inode G (unat ino) inode (ram_view bs (k_cache s))"
    using assms(2) by simp_all
  have G: "geom_ok G" and d: "disk_ok G (ram_view bs (k_cache s))" using assms(1,2) by (simp_all add: ext2_ok_def)
  have at: "inode_at G (ram_view bs (k_cache t)) (unat j) =
      (if j = ino then inode else inode_at G (ram_view bs (k_cache s)) (unat j))"
    using inode_at_put [OF G d has_inode_bit [OF G assms(3)] has_inode_bit [OF G assms(4)] assms(5)] t(4)
    by (simp add: word_unat_eq_iff)
  show ?case
  proof (rule wp_conseq [OF ram.read_inode_ok [OF t(1) t(2) [symmetric] assms(4)]], goal_cases)
    case (1 i u)
    then show ?case using at ram.fs_ok_same [OF t(1)] by (auto simp: ram_fs_ok)
  next
    case (2 e u)
    then have "\<not> fits (bs + 15) t" "e = ERR_NO_MEMORY" by (simp_all add: ram.no_mem_def)
    then show ?case
      using t(3) [unfolded spent_def, THEN spec, of "bs + 15"] by (simp only: mult_2 simp_thms)
  qed
next
  case (3 e t)
  then show ?case using fits_mono [of "2 * (bs + 15)" s "bs + 15"] by (simp add: ram.no_mem_def) blast
qed (simp add: assms(1) ram_fs_ok)

text \<open>
  C9. \<^verbatim>\<open>ext2_get_block_num\<close> computes the block map: for a file in order it returns the block that the
  reference function \<open>bmap\<close> finds on the disk through at most two blocks of numbers, and changes
  nothing.  It fails exactly past the double indirect blocks, or when the heap has no room for the
  two buffers.
\<close>

theorem get_block_num_bmap:
  assumes "ext2_ok bs s" "G = geom_of (k_fs s)" "v = ram_view bs (k_cache s)" "file_ok G v inode" "bs \<le> 2 ^ 16"
  shows "wp (ext2_get_block_num inode n)
    (\<lambda>b s'. bmap G v inode (unat n) = Some b \<and> ram_view bs (k_cache s') = v \<and> k_fs s' = k_fs s)
    (\<lambda>e s'. ram_view bs (k_cache s') = v \<and> k_fs s' = k_fs s \<and>
       (e = ERR_INVALID \<and> bmap G v inode (unat n) = None \<or> e = ERR_NO_MEMORY \<and> \<not> fits (2 * (bs + 15)) s)) s"
proof (rule wp_conseq [OF ram.get_block_num_ok [OF _ assms(2-5)]], goal_cases)
  case (3 e s')
  then show ?case using assms(3) by (simp add: ram.same_def ram.no_mem_def) blast
qed (use assms(1,3) in \<open>simp_all add: ram_fs_ok ram.same_def\<close>)

lemma demo_root_wf: "inode_wf demo_root"
  by (simp add: demo_root_def inode_wf_def)

lemma demo_root_block: "k < 15 \<Longrightarrow> i_block demo_root ! k = (if k = 0 then 6 else 0)"
  by (simp add: demo_root_def nth_Cons')

lemma demo_root_refs: "ref_blk G v demo_root r = (if r = Inl 0 then 6 else 0)"
  by (cases r) (simp_all add: ref_blk_def bmap_def Let_def demo_root_block)

lemma demo_root_ok:
  assumes "ram_view 1024 c (blkno 3) = Some (demo_blocks ! 3)"
  shows "file_ok (geom_of (demo_fs False)) (ram_view 1024 c) demo_root"
proof -
  have "data_ok (geom_of (demo_fs False)) (ram_view 1024 c) 6"
    using demo_bused [of "ram_view 1024 c" 6] assms by (auto simp: data_ok_def demo_meta has_bit_def) (simp_all add: demo_geom)
  then show ?thesis by (auto simp: file_ok_def demo_root_refs demo_root_wf split: if_splits)
qed

theorem inode_roundtrip_witness:
  "\<exists>c. wp (bindP (ext2_write_inode 3 demo_root) (\<lambda>_. ext2_read_inode 3)) (\<lambda>i _. i = demo_root) (\<lambda>_ _. False) (demo_state c)"
proof -
  obtain c where c: "ext2_ok 1024 (demo_state c)" by (rule demo_ext2_ok) simp
  have "wp (bindP (ext2_write_inode 3 demo_root) (\<lambda>_. ext2_read_inode 3)) (\<lambda>i _. i = demo_root) (\<lambda>_ _. False) (demo_state c)"
    by (rule wp_conseq [OF inode_roundtrip [OF c refl]])
      (simp_all add: has_inode_def demo_root_wf demo_free, simp_all add: demo_geom)
  then show ?thesis by blast
qed

theorem get_block_num_bmap_witness:
  "\<exists>c. wp (ext2_get_block_num demo_root 0) (\<lambda>b _. b = 6) (\<lambda>_ _. False) (demo_state c)"
proof -
  obtain c where c: "ext2_ok 1024 (demo_state c)" and v: "ram_view 1024 c (blkno 3) = Some (demo_blocks ! 3)"
    by (rule demo_ext2_ok) simp
  have "wp (ext2_get_block_num demo_root 0) (\<lambda>b _. b = 6) (\<lambda>_ _. False) (demo_state c)"
    by (rule wp_conseq [OF get_block_num_bmap [OF c refl refl]])
      (use demo_root_ok [OF v] in \<open>auto simp: demo_free bmap_def demo_root_def\<close>)
  then show ?thesis by blast
qed

end
