(* ===== verification/Ext2_Map.thy ===== *)
theory Ext2_Map
  imports Ext2_Inode
begin

text \<open>
  The contract of \<^verbatim>\<open>ext2_set_block_num\<close> of \<^verbatim>\<open>src/fs/ext2/inode.c\<close>.  It is stated with two relations
  between states: \<open>kept X\<close>, everything that was in use and is not in the set of blocks \<open>X\<close> is as it
  was, and \<open>file_step\<close>, a file has at most got new blocks.
\<close>

section \<open>What an operation keeps\<close>

context block_dev
begin

definition kept :: "nat set \<Rightarrow> 'd kstate \<Rightarrow> 'd kstate \<Rightarrow> bool" where
  "kept X s s' = (let G = geom_of (k_fs s); v = view (k_cache s); v' = view (k_cache s') in
     fs_ok s' \<and> geom_of (k_fs s') = G \<and> k_time s' = k_time s \<and>
     (\<forall>x. has_bit G x \<and> bused G v x \<longrightarrow>
        bused G v' x \<and> (x \<notin> X \<and> x \<notin> set (g_bbm G) \<longrightarrow> v' (blkno x) = v (blkno x))))"

lemma keptD:
  assumes "kept X s s'"
  shows "fs_ok s'" "geom_of (k_fs s') = geom_of (k_fs s)" "k_time s' = k_time s"
    and "has_bit (geom_of (k_fs s)) x \<Longrightarrow> bused (geom_of (k_fs s)) (view (k_cache s)) x \<Longrightarrow>
      bused (geom_of (k_fs s)) (view (k_cache s')) x"
    and "has_bit (geom_of (k_fs s)) x \<Longrightarrow> bused (geom_of (k_fs s)) (view (k_cache s)) x \<Longrightarrow> x \<notin> X \<Longrightarrow>
      x \<notin> set (g_bbm (geom_of (k_fs s))) \<Longrightarrow> view (k_cache s') (blkno x) = view (k_cache s) (blkno x)"
  using assms by (simp_all add: kept_def Let_def)

lemma kept_same: "fs_ok s \<Longrightarrow> same c s s' \<Longrightarrow> kept X s s'"
  using fs_ok_same [of s c s'] by (simp add: kept_def same_def)

lemma kept_refl: "fs_ok s \<Longrightarrow> kept X s s"
  by (simp add: kept_def)

text \<open>In a second step, blocks that were free before the first one may change as well.\<close>

lemma kept_trans:
  assumes "kept X s t" "kept Y t u"
    and "\<And>y. y \<in> Y \<Longrightarrow> has_bit (geom_of (k_fs s)) y \<Longrightarrow> bused (geom_of (k_fs s)) (view (k_cache s)) y \<Longrightarrow> y \<in> X"
  shows "kept X s u"
proof -
  note t = keptD [OF assms(1)] and u = keptD [OF assms(2)]
  have "view (k_cache u) (blkno x) = view (k_cache s) (blkno x)"
    if "has_bit (geom_of (k_fs s)) x" "bused (geom_of (k_fs s)) (view (k_cache s)) x" "x \<notin> X"
      "x \<notin> set (g_bbm (geom_of (k_fs s)))" for x
    using t(5) [OF that] u(5) [of x, unfolded t(2)] t(4) [OF that(1,2)] that assms(3) [of x] by metis
  moreover have "bused (geom_of (k_fs s)) (view (k_cache u)) x"
    if "has_bit (geom_of (k_fs s)) x" "bused (geom_of (k_fs s)) (view (k_cache s)) x" for x
    using u(4) [of x, unfolded t(2)] t(4) [OF that] that(1) by metis
  ultimately show ?thesis using t(2,3) u(1-3) by (simp add: kept_def)
qed

lemma kept_mono: "kept X s s' \<Longrightarrow> X \<subseteq> Y \<Longrightarrow> kept Y s s'"
  unfolding kept_def Let_def by blast

lemma kept_got_block:
  assumes "got_block m s s'"
  shows "kept X s s'"
proof -
  have "geom_ok (geom_of (k_fs s))" using assms by (simp add: got_block_def fs_ok_def Let_def) metis
  then have "x < 2 ^ 32" if "has_bit (geom_of (k_fs s)) x" for x
    using that geom_okD(12) by (fastforce simp: has_bit_def)
  with assms show ?thesis by (simp add: kept_def got_block_def Let_def)
qed

lemma write_data_rule:
  fixes b :: u32
  assumes "fs_ok s" "unat b < g_blocks (geom_of (k_fs s))" "unat b \<notin> set (g_bbm (geom_of (k_fs s)))" "length c = bs"
    and "\<And>s'. kept {unat b} s s' \<Longrightarrow> k_fs s' = k_fs s \<Longrightarrow> spent 0 s s' \<Longrightarrow>
      view (k_cache s') = (view (k_cache s))(blkno (unat b) \<mapsto> c) \<Longrightarrow> Q (int bs) s'"
  shows "wp (cache_write (ucast b) c) Q E s"
  unfolding ucast_unat_blkno
proof (rule cache_write_rule)
  fix ch
  assume ch: "ok ch" "view ch = (view (k_cache s))(blkno (unat b) \<mapsto> c)"
  let ?G = "geom_of (k_fs s)"
  have G: "geom_ok ?G" "disk_ok ?G (view (k_cache s))" "g_bs ?G = bs" "\<forall>m < g_blocks ?G. addr (blkno m)"
    using assms(1) by (simp_all add: fs_ok_def)
  have d: "disk_ok ?G (view ch)"
    unfolding ch(2) by (rule disk_ok_other [OF G(1,2) assms(2,3)]) (simp add: assms(4) G(3))
  have lt: "x < 2 ^ 32" if "has_bit ?G x" for x using that geom_okD(12) [OF G(1)] by (simp add: has_bit_def)
  have "view ch (blkno x) = view (k_cache s) (blkno x)" if "has_bit ?G x" "x \<noteq> unat b" for x
    using that lt unat_u32_lt [of b] by (simp add: ch(2))
  moreover have "bused ?G (view ch) x = bused ?G (view (k_cache s)) x" if "has_bit ?G x" for x
    unfolding ch(2) by (rule bused_other [OF G(1) unat_u32_lt assms(3) that])
  ultimately have "kept {unat b} s (s\<lparr>k_cache := ch\<rparr>)"
    using d G ch(1) by (simp add: kept_def fs_ok_def)
  then show "Q (int bs) (s\<lparr>k_cache := ch\<rparr>)" by (rule assms(5)) (simp_all add: ch(2) spent_refl)
qed (use assms(1,2,4) fs_ok_block [OF assms(1,2)] in \<open>auto simp: fs_ok_def\<close>)

lemma alloc_block_rule:
  assumes "fs_ok s" "\<And>b s'. got_block (unat b) s s' \<Longrightarrow> Q b s'"
    and "\<And>s'. same (g_n (geom_of (k_fs s)) * (bs + 15)) s s' \<Longrightarrow> E ERR_NO_MEMORY s'"
  shows "wp ext2_alloc_block Q E s"
proof (rule wp_conseq [OF alloc_block_ok [OF assms(1) refl]], goal_cases)
  case (1 b s')
  then obtain g k where gk: "g < g_n (geom_of (k_fs s))" "k < g_bpg (geom_of (k_fs s))"
    "unat b = g_first (geom_of (k_fs s)) + g * g_bpg (geom_of (k_fs s)) + k"
    "took_bit (g_n (geom_of (k_fs s)) * (bs + 15)) (g_bbm (geom_of (k_fs s)) ! g) k s s'"
    "k_fs s' = took_block g (k_fs s)" by blast
  have "got_block (unat b) s s'"
    unfolding gk(3) by (rule took_bit_block [OF assms(1) refl gk(1,2,4)]) (simp add: gk(5))
  then show ?case by (rule assms(2))
next
  case (2 e s')
  have "geom_ok (geom_of (k_fs s))" using assms(1) by (simp add: fs_ok_def)
  from no_room_block [OF 2 this] show ?case using assms(3) by simp
qed

end

section \<open>Files that get new blocks\<close>

text \<open>The blocks of a file.\<close>

definition own :: "geom \<Rightarrow> (u64 \<Rightarrow> bytes option) \<Rightarrow> ext2_inode \<Rightarrow> nat set" where
  "own G v inode = {unat (ref_blk G v inode r) | r. ref_blk G v inode r \<noteq> 0}"

lemma own_used:
  assumes "file_ok G v inode" "x \<in> own G v inode"
  shows "has_bit G x" "bused G v x" "x < g_blocks G" "x \<notin> set (meta G)" "x \<notin> set (g_bbm G)"
  using assms by (auto simp: own_def file_ok_def data_ok_def meta_def)

lemma own_ref: "ref_blk G v inode r \<noteq> 0 \<Longrightarrow> unat (ref_blk G v inode r) \<in> own G v inode"
  by (auto simp: own_def)

lemma fresh_ref: "file_ok G v inode \<Longrightarrow> \<not> bused G v (unat b) \<Longrightarrow> b \<noteq> 0 \<Longrightarrow> ref_blk G v inode r \<noteq> b"
  using own_used(2) own_ref by metis

context block_dev
begin

definition file_step :: "'d kstate \<Rightarrow> ext2_inode \<Rightarrow> 'd kstate \<Rightarrow> ext2_inode \<Rightarrow> bool" where
  "file_step s inode s' inode' = (let G = geom_of (k_fs s); v = view (k_cache s); v' = view (k_cache s') in
     kept (own G v inode) s s' \<and> file_ok G v' inode' \<and>
     (\<forall>r. ref_blk G v' inode' r \<noteq> ref_blk G v inode r \<longrightarrow>
        ref_blk G v inode r = 0 \<and> \<not> bused G v (unat (ref_blk G v' inode' r))))"

lemma file_stepD:
  assumes "file_step s inode s' inode'" "G = geom_of (k_fs s)" "v = view (k_cache s)" "v' = view (k_cache s')"
  shows "kept (own G v inode) s s'" "file_ok G v' inode'"
    and "ref_blk G v inode r \<noteq> 0 \<Longrightarrow> ref_blk G v' inode' r = ref_blk G v inode r"
    and "ref_blk G v' inode' r \<noteq> ref_blk G v inode r \<Longrightarrow> \<not> bused G v (unat (ref_blk G v' inode' r))"
  using assms by (auto simp: file_step_def Let_def)

lemma file_step_trans:
  assumes "file_step s i t j" "file_step t j u k"
  shows "file_step s i u k"
proof -
  let ?G = "geom_of (k_fs s)"
  note a = file_stepD [OF assms(1) refl refl refl]
  have G: "geom_of (k_fs t) = ?G" by (rule keptD(2) [OF a(1)])
  note b = file_stepD [OF assms(2) G [symmetric] refl refl]
  have own: "y \<in> own ?G (view (k_cache s)) i"
    if "y \<in> own ?G (view (k_cache t)) j" "bused ?G (view (k_cache s)) y" for y
    using that a(4) by (auto simp: own_def) (metis a(4))
  have kept: "kept (own ?G (view (k_cache s)) i) s u"
    by (rule kept_trans [OF a(1) b(1)]) (rule own)
  have "ref_blk ?G (view (k_cache s)) i r = 0 \<and> \<not> bused ?G (view (k_cache s)) (unat (ref_blk ?G (view (k_cache u)) k r))"
    if ne: "ref_blk ?G (view (k_cache u)) k r \<noteq> ref_blk ?G (view (k_cache s)) i r" for r
  proof (cases "ref_blk ?G (view (k_cache u)) k r = ref_blk ?G (view (k_cache t)) j r")
    case True
    then show ?thesis using ne a(3,4) [of r] by auto
  next
    case False
    then have new: "ref_blk ?G (view (k_cache t)) j r = 0"
      "\<not> bused ?G (view (k_cache t)) (unat (ref_blk ?G (view (k_cache u)) k r))" using b(3,4) [of r] by auto
    then have "ref_blk ?G (view (k_cache s)) i r = 0" using a(3) [of r] by auto
    moreover have "ref_blk ?G (view (k_cache u)) k r \<noteq> 0" using False new(1) by simp
    then have "has_bit ?G (unat (ref_blk ?G (view (k_cache u)) k r))"
      using own_used(1) [OF b(2)] own_ref by blast
    ultimately show ?thesis using keptD(4) [OF a(1)] new(2) by blast
  qed
  with kept b(2) show ?thesis by (simp add: file_step_def Let_def)
qed

section \<open>The contract of the update\<close>

text \<open>A new block of zeros is the block of numbers of the file, or the call has failed.\<close>

lemma add_indirect_ok:
  assumes "fs_ok s" "G = geom_of (k_fs s)"
  shows "wp (add_indirect (fs_block_size (k_fs s)) inode)
    (\<lambda>(r, inode') s'. kept {} s s' \<and> (0 \<le> r \<longrightarrow> (\<exists>x. inode' = set_i_block 12 x inode \<and> x \<noteq> 0 \<and>
       \<not> bused G (view (k_cache s)) (unat x) \<and> data_ok G (view (k_cache s')) x \<and>
       view (k_cache s') (blkno (unat x)) = Some (replicate bs 0)))) E s"
  unfolding add_indirect_def wp_bindP wp_tryP
proof (rule alloc_block_rule [OF assms(1)], goal_cases)
  case (1 x t)
  let ?G = "geom_of (k_fs s)" and ?v = "view (k_cache s)"
  have t: "fs_ok t" "geom_of (k_fs t) = ?G" "has_bit ?G (unat x)" "unat x < g_blocks ?G" "unat x \<notin> set (meta ?G)"
    "\<not> bused ?G ?v (unat x)" "bused ?G (view (k_cache t)) (unat x)"
    using 1 by (simp_all add: got_block_def Let_def)
  note st = kept_got_block [OF 1, of "{}"]
  have bsz: "fs_block_size (k_fs s) = fs_block_size (k_fs t)"
    using t(2) by (simp add: geom_of_def word_unat_eq_iff)
  have x0: "x \<noteq> 0" using t(3) geom_okD(18) [of ?G] assms(1) by (auto simp: has_bit_def fs_ok_def)
  have nb: "unat x \<notin> set (g_bbm ?G)" using t(5) by (simp add: meta_def)
  let ?Q = "\<lambda>(r, inode') s'. kept {} s s' \<and> (0 \<le> r \<longrightarrow> (\<exists>x. inode' = set_i_block 12 x inode \<and> x \<noteq> 0 \<and>
       \<not> bused G ?v (unat x) \<and> data_ok G (view (k_cache s')) x \<and> view (k_cache s') (blkno (unat x)) = Some (replicate bs 0)))"
  have err: "?Q (ERR_NO_MEMORY, i) t" for i using st by (simp add: err_defs)
  have zero: "memset (replicate bs 0) 0 0 bs = Some (replicate bs 0)"
    using memset_block [of 0 bs "replicate bs 0" 0] by (simp add: put_bytes_def)
  have put: "wp (cache_write (ucast x) (replicate bs 0)) (\<lambda>r. ?Q (r, set_i_block 12 x inode)) (\<lambda>e. ?Q (e, set_i_block 12 x inode)) u"
    if u: "same (bs + 15) t u" for u
  proof (rule write_data_rule [OF fs_ok_same [OF t(1) u]], goal_cases)
    case (4 w)
    have tu: "kept {unat x} t w" by (rule kept_trans [OF kept_same [OF t(1) u] 4(1)])
    have "kept {} s w" by (rule kept_trans [OF st tu]) (use t(6) in auto)
    moreover have "data_ok G (view (k_cache w)) x"
      using t assms(2) keptD(4) [OF tu, unfolded t(2)] by (simp add: data_ok_def)
    ultimately show ?case using x0 t(6) 4(4) assms(2) by auto
  qed (use t nb u in \<open>simp_all add: same_def\<close>)
  have sz: "unat (ucast (fs_block_size (k_fs s)) :: u64) = bs" by (rule block_size_word [OF assms(1)])
  show ?case
    unfolding sum.case Let_def wp_bindP wp_tryP
  proof (rule alloc_spent_rule, goal_cases)
    case (1 h)
    then have "same (bs + 15) t (t\<lparr>k_heap := h\<rparr>)" using t(1) sz by (simp add: same_def fs_ok_def)
    from put [OF this] show ?case using sz zero by (simp add: wp_simps)
  next
    case 2
    then show ?case using err by (simp add: wp_simps)
  qed
next
  case (2 s')
  then show ?case using kept_same [OF assms(1) 2] by (simp add: wp_simps err_defs)
qed

lemma write_entry_ok:
  assumes "fs_ok s" "G = geom_of (k_fs s)" "file_ok G (view (k_cache s)) inode" "i_block inode ! 12 \<noteq> 0"
    and "unat k < apb G" "apb G = bs div 4" "block_size = fs_block_size (k_fs s)"
  shows "wp (write_entry block_size (i_block inode ! 12) k b)
    (\<lambda>r s'. kept {unat (i_block inode ! 12)} s s' \<and>
       ref_blk G (view (k_cache s')) inode = (ref_blk G (view (k_cache s)) inode)(Inl (12 + unat k) := b))
    (\<lambda>e s'. kept {} s s' \<and> e < 0) s"
  unfolding write_entry_def
proof (rule read_block_rule [OF assms(1) _ assms(7)], goal_cases)
  case 1
  then show ?case using file_okD(2) [OF assms(3), of "Inr 0"] assms(2,4) by simp
next
  case (2 c t)
  let ?one = "i_block inode ! 12" and ?c = "put_bytes c (4 * unat k) (le32 b)"
  have one: "unat ?one \<in> own G (view (k_cache s)) inode" using own_ref [of G _ inode "Inr 0"] assms(4) by simp
  have k: "4 * unat k + 4 \<le> length c" using 2(3) assms(5,6) by simp
  have "wp (cache_write (ucast ?one) ?c) (\<lambda>r s'. kept {unat ?one} s s' \<and>
       ref_blk G (view (k_cache s')) inode = (ref_blk G (view (k_cache s)) inode)(Inl (12 + unat k) := b))
    (\<lambda>e s'. kept {} s s' \<and> e < 0) t"
  proof (rule write_data_rule [OF fs_ok_same [OF assms(1) 2(1)]], goal_cases)
    case (4 u)
    have "kept {unat ?one} s u" by (rule kept_trans [OF kept_same [OF assms(1) 2(1)] 4(1)])
    moreover have "view (k_cache u) = (view (k_cache s))(blkno (unat ?one) \<mapsto> ?c)"
      using 4(4) 2(1) by (simp add: same_def)
    ultimately show ?case
      using ref_set_entry [OF assms(3,4,5) 2(2)] 2(3) assms(1,2) by (simp add: fs_ok_def)
  qed (use own_used [OF assms(3) one] assms(2) 2 k in \<open>simp_all add: same_def length_put_bytes\<close>)
  then show ?case using k by (simp add: wp_simps store32_def)
next
  case (3 e t)
  then show ?case using kept_same [OF assms(1)] by (auto simp: no_mem_def err_defs)
qed

text \<open>
  The blocks of a file are as before but at the places in \<open>Z\<close>, and it may have got a block of numbers.
\<close>

definition ref_grown :: "fref set \<Rightarrow> ext2_inode \<Rightarrow> 'd kstate \<Rightarrow> ext2_inode \<Rightarrow> 'd kstate \<Rightarrow> bool" where
  "ref_grown Z inode s inode' s' = (let G = geom_of (k_fs s); v = view (k_cache s); v' = view (k_cache s') in
     inode' = inode\<lparr>i_block := i_block inode'\<rparr> \<and> file_ok G v' inode' \<and>
     (\<forall>q. q \<notin> Z \<and> ref_blk G v' inode' q \<noteq> ref_blk G v inode q \<longrightarrow>
        q = Inr 0 \<and> ref_blk G v inode q = 0 \<and> \<not> bused G v (unat (ref_blk G v' inode' q))))"

lemma with_indirect_ok:
  assumes "fs_ok s" "G = geom_of (k_fs s)" "v = view (k_cache s)" "file_ok G v inode"
  shows "wp (if i_block inode ! 12 = 0 then add_indirect (fs_block_size (k_fs s)) inode else ret (ERR_SUCCESS, inode))
    (\<lambda>(r, inode') t. kept {} s t \<and> (0 \<le> r \<longrightarrow> i_block inode' ! 12 \<noteq> 0 \<and> ref_grown {} inode s inode' t)) E s"
proof (cases "i_block inode ! 12 = 0")
  case False
  then show ?thesis using assms kept_refl [OF assms(1)] by (simp add: wp_simps ref_grown_def)
next
  case True
  have "wp (add_indirect (fs_block_size (k_fs s)) inode)
    (\<lambda>(r, inode') t. kept {} s t \<and> (0 \<le> r \<longrightarrow> i_block inode' ! 12 \<noteq> 0 \<and> ref_grown {} inode s inode' t)) E s"
  proof (rule wp_conseq [OF add_indirect_ok [OF assms(1,2)]], goal_cases)
    case (1 ri t)
    obtain r inode' where ri: "ri = (r, inode')" by (cases ri)
    show ?case
    proof (cases "0 \<le> r")
      case False
      then show ?thesis using 1 ri by simp
    next
      case r: True
      then obtain x where x: "inode' = set_i_block 12 x inode" "x \<noteq> 0" "\<not> bused G v (unat x)"
        "data_ok G (view (k_cache t)) x" "view (k_cache t) (blkno (unat x)) = Some (replicate bs 0)" and kt: "kept {} s t"
        using 1 ri assms(3) by auto
      have wf: "inode_wf inode" "inode_wf inode'" "i_block inode' ! 12 = x"
        using assms(4) x(1) by (simp_all add: file_ok_def inode_wf_def set_i_block_def)
      have bs: "g_bs G = bs" using assms(1,2) by (simp add: fs_ok_def)
      have ref: "ref_blk G (view (k_cache t)) inode' = (ref_blk G v inode)(Inr 0 := x)"
        unfolding x(1)
      proof (rule ref_new_indirect [OF wf(1) True])
        fix k
        assume "ref_blk G v inode (Inr k) \<noteq> 0"
        from own_used [OF assms(4) own_ref [OF this]] keptD(5) [OF kt]
        show "view (k_cache t) (blkno (unat (ref_blk G v inode (Inr k)))) = v (blkno (unat (ref_blk G v inode (Inr k))))"
          using assms(2,3) by simp
      qed (simp add: x(5) bs)
      have "file_ok G (view (k_cache t)) inode'"
        by (rule file_ok_upd [OF assms(4) wf(2) ref])
          (use fresh_ref [OF assms(4) x(3,2)] x(4) keptD(4) [OF kt] assms(2,3) in simp_all)
      then show ?thesis
        using ri kt ref True x(1,2,3) wf(3) assms(2,3) by (auto simp: set_i_block_def ref_grown_def Let_def)
    qed
  qed simp
  with True show ?thesis by simp
qed

text \<open>The entry of the block of numbers, once there is one.\<close>

lemma set_entry_ok:
  assumes "G = geom_of (k_fs s)" "v = view (k_cache s)" "data_ok G v b" "\<And>r. ref_blk G v inode r \<noteq> b"
    and "kept {} s t" "i_block inode' ! 12 \<noteq> 0" "ref_grown {} inode s inode' t"
    and "unat k < apb G" "apb G = bs div 4"
  shows "wp (write_entry (fs_block_size (k_fs s)) (i_block inode' ! 12) k b)
    (\<lambda>x u. kept {unat (i_block inode ! 12)} s u \<and> ref_grown {Inl (12 + unat k)} inode s inode' u \<and>
       ref_blk G (view (k_cache u)) inode' (Inl (12 + unat k)) = b)
    (\<lambda>e u. kept {unat (i_block inode ! 12)} s u \<and> e < 0) t"
proof -
  let ?one = "i_block inode ! 12" and ?w = "view (k_cache t)"
  have G: "geom_of (k_fs t) = G" using keptD(2) [OF assms(5)] assms(1) by simp
  have bsz: "fs_block_size (k_fs s) = fs_block_size (k_fs t)"
    using G assms(1) by (simp add: geom_of_def word_unat_eq_iff)
  have f: "file_ok G ?w inode'" and i: "inode' = inode\<lparr>i_block := i_block inode'\<rparr>"
    and ref: "\<And>q. ref_blk G ?w inode' q \<noteq> ref_blk G v inode q \<Longrightarrow>
      q = Inr 0 \<and> ref_blk G v inode q = 0 \<and> \<not> bused G v (unat (ref_blk G ?w inode' q))"
    using assms(1,2,7) by (simp_all add: ref_grown_def Let_def)
  have fresh: "ref_blk G ?w inode' q \<noteq> b" for q
    using ref [of q] assms(3) assms(4) [of q] by (auto simp: data_ok_def)
  show ?thesis
  proof (rule wp_conseq [OF write_entry_ok [OF keptD(1) [OF assms(5)] G [symmetric] f assms(6,8,9) bsz]], goal_cases)
    case (1 x u)
    then have tu: "kept {unat (i_block inode' ! 12)} t u"
      and r2: "ref_blk G (view (k_cache u)) inode' = (ref_blk G ?w inode')(Inl (12 + unat k) := b)" by simp_all
    have one: "y = unat ?one" if "y = unat (i_block inode' ! 12)" "bused G v y" for y
      using that ref [of "Inr 0"] by (cases "i_block inode' ! 12 = ?one") auto
    have su: "kept {unat ?one} s u"
      by (rule kept_trans [OF kept_mono [OF assms(5)] tu]) (use one assms(1,2) in auto)
    have "data_ok G (view (k_cache u)) b" using assms(1-3) keptD(4) [OF su] by (simp add: data_ok_def)
    moreover have "inode_wf inode'" using f by (simp add: file_ok_def)
    ultimately have "file_ok G (view (k_cache u)) inode'"
      using keptD(4) [OF tu] G by (intro file_ok_upd [OF f _ r2 fresh]) simp_all
    then show ?case using su r2 i ref assms(1,2) by (auto simp: ref_grown_def Let_def)
  next
    case (2 e u)
    then have "kept {} s u" using kept_trans [OF assms(5), of "{}" u] by simp
    with 2 show ?case using kept_mono [of "{}" s u "{unat ?one}"] by simp
  qed
qed

lemma set_block_num_ok:
  assumes "fs_ok s" "G = geom_of (k_fs s)" "v = view (k_cache s)" "file_ok G v inode" "bs \<le> 2 ^ 16"
    and "unat n < 12 + apb G" "data_ok G v b" "b \<noteq> 0" "\<And>r. ref_blk G v inode r \<noteq> b"
  shows "wp (ext2_set_block_num inode n b)
    (\<lambda>(r, inode') s'. kept {unat (i_block inode ! 12)} s s' \<and> (0 \<le> r \<longrightarrow>
       ref_grown {Inl (unat n)} inode s inode' s' \<and> ref_blk G (view (k_cache s')) inode' (Inl (unat n)) = b)) E s"
proof (cases "unat n < 12")
  case True
  let ?i = "set_i_block (unat n) b inode"
  have wf: "inode_wf inode" using assms(4) by (simp add: file_ok_def)
  then have "inode_wf ?i" by (simp add: inode_wf_def set_i_block_def)
  note ref = ref_set_direct [OF wf True, of G v b]
  have "file_ok G v ?i" by (rule file_ok_upd [OF assms(4) \<open>inode_wf ?i\<close> ref assms(9,7)])
  then have "ref_grown {Inl (unat n)} inode s ?i s"
    using ref assms(2,3) by (simp add: ref_grown_def Let_def) (simp add: set_i_block_def)
  moreover have "n < 12" using True index_words(4) [OF assms(1,2,5) refl] by simp
  ultimately show ?thesis
    using ref assms(3) kept_refl [OF assms(1)] by (simp add: ext2_set_block_num_def wp_simps)
next
  case False
  note w = index_words [OF assms(1,2,5) refl]
  have k: "unat (n - 12) < apb G" "12 + unat (n - 12) = unat n" "\<not> n < 12" "n - 12 < fs_block_size (k_fs s) div 4"
    using False assms(6) w by auto
  let ?Q = "\<lambda>(r, inode') s'. kept {unat (i_block inode ! 12)} s s' \<and> (0 \<le> r \<longrightarrow>
       ref_grown {Inl (unat n)} inode s inode' s' \<and> ref_blk G (view (k_cache s')) inode' (Inl (unat n)) = b)"
  have tail: "wp (if r < 0 then ret (r, inode') else
      bindP (tryP (write_entry (fs_block_size (k_fs s)) (i_block inode' ! 12) (n - 12) b))
        (\<lambda>w. case w of Inl e \<Rightarrow> ret (e, inode') | Inr x \<Rightarrow> ret (x, inode'))) ?Q E t"
    if t: "kept {} s t" "0 \<le> r \<longrightarrow> i_block inode' ! 12 \<noteq> 0 \<and> ref_grown {} inode s inode' t" for r inode' t
  proof (cases "r < 0")
    case True
    then show ?thesis using kept_mono [OF t(1), of "{unat (i_block inode ! 12)}"] by (simp add: wp_simps)
  next
    case False
    then have t': "i_block inode' ! 12 \<noteq> 0" "ref_grown {} inode s inode' t" using t(2) by simp_all
    show ?thesis
      using False by (simp add: wp_simps)
        (rule wp_conseq [OF set_entry_ok [OF assms(2,3,7,9) t(1) t' k(1) w(2)]], use k(2) in simp_all)
  qed
  have "wp (bindP (if i_block inode ! 12 = 0 then add_indirect (fs_block_size (k_fs s)) inode else ret (ERR_SUCCESS, inode))
      (\<lambda>(r, inode'). if r < 0 then ret (r, inode') else
        bindP (tryP (write_entry (fs_block_size (k_fs s)) (i_block inode' ! 12) (n - 12) b))
          (\<lambda>w. case w of Inl e \<Rightarrow> ret (e, inode') | Inr x \<Rightarrow> ret (x, inode')))) ?Q E s"
    unfolding wp_bindP
  proof (rule wp_conseq [OF with_indirect_ok [OF assms(1-4)]], goal_cases)
    case (1 ri t)
    then show ?case using tail by (cases ri) simp
  qed simp
  then show ?thesis using k(3,4) by (simp add: ext2_set_block_num_def wp_bind_gets Let_def)
qed

end

end
