(* ===== verification/Ext2_File.thy ===== *)
theory Ext2_File
  imports Ext2_Map
begin

unbundle bit_operations_syntax

text \<open>
  Reading and writing of files, \<^verbatim>\<open>src/fs/ext2/file.c\<close>.  The buffer of the caller and the inode
  are changed before an error may happen, so that the results are the return value together with
  buffer or inode on every path.  \<open>pos\<close> is the distance of the moving pointer \<^verbatim>\<open>out\<close> or
  \<^verbatim>\<open>in\<close> from the start of the buffer.
\<close>

section \<open>Rounds\<close>

text \<open>
  The number of bytes of one round, \<^verbatim>\<open>to_read\<close> and \<^verbatim>\<open>to_write\<close>: up to the end of the
  block, or what is left.  It is not 0 and not more than what is left.
\<close>

definition chunk :: "u32 \<Rightarrow> u64 \<Rightarrow> u64 \<Rightarrow> u32" where
  "chunk block_size offset sz = (let rest = block_size - ucast (offset mod ucast block_size) in
     if ucast rest > sz then ucast sz else rest)"

lemma unat_block_offset:
  assumes "b \<noteq> (0 :: u32)"
  shows "unat (ucast (offset mod ucast b :: u64) :: u32) = unat offset mod unat b"
proof -
  have "unat (offset mod ucast b :: u64) = unat offset mod unat b" by (simp add: unat_mod)
  moreover have "unat offset mod unat b < unat b" using assms by (simp add: unat_gt_0)
  ultimately show ?thesis
    using unat_u32_lt [of b] by (simp add: unsigned_ucast_eq take_bit_nat_eq_self_iff)
qed

lemma unat_chunk:
  assumes "b \<noteq> 0"
  shows "unat (chunk b offset sz) = min (unat b - unat offset mod unat b) (unat sz)"
proof -
  let ?o = "ucast (offset mod ucast b :: u64) :: u32"
  have lt: "unat offset mod unat b < unat b" using assms by (simp add: unat_gt_0)
  have o: "unat (b - ?o) = unat b - unat offset mod unat b"
    using lt unat_block_offset [OF assms, of offset]
    by (simp add: unat_sub word_le_nat_alt)
  have "unat (ucast sz :: u32) = unat sz" if "unat sz < unat (b - ?o)"
    using that unat_u32_lt [of "b - ?o"] by (simp add: unsigned_ucast_eq take_bit_nat_eq_self_iff)
  then show ?thesis
    unfolding chunk_def Let_def o [symmetric] by (simp add: word_less_nat_alt min_def)
qed

lemma chunk_bounds:
  assumes "b \<noteq> 0" "sz \<noteq> 0"
  shows "0 < unat (chunk b offset sz)" "unat (chunk b offset sz) \<le> unat sz"
    "unat (sz - ucast (chunk b offset sz)) = unat sz - unat (chunk b offset sz)"
proof -
  have "unat offset mod unat b < unat b" using assms by (simp add: unat_gt_0)
  then show "0 < unat (chunk b offset sz)" and le: "unat (chunk b offset sz) \<le> unat sz"
    using assms by (simp_all add: unat_chunk unat_gt_0)
  then show "unat (sz - ucast (chunk b offset sz)) = unat sz - unat (chunk b offset sz)"
    by (simp add: unat_sub word_le_nat_alt)
qed

lemma chunk_decreases:
  assumes "b \<noteq> 0" "sz \<noteq> 0"
  shows "unat (sz - ucast (chunk b offset sz)) < unat sz"
  using chunk_bounds [OF assms, of offset] by linarith

section \<open>Reading\<close>

function read_loop ::
  "u32 \<Rightarrow> ext2_inode \<Rightarrow> bytes \<Rightarrow> bytes \<Rightarrow> nat \<Rightarrow> u64 \<Rightarrow> u64 \<Rightarrow> u64 \<Rightarrow> ('d kstate, i32 \<times> bytes) prog" where
  "read_loop block_size inode block_buffer out pos offset sz bytes_read =
     (if sz = 0 then ret (to_i32 bytes_read, out)
      else if block_size = 0 then bindP (guard False) (\<lambda>_. ret (0, out))
      else
        let file_block = ucast (offset div ucast block_size) :: u32;
            block_offset = ucast (offset mod ucast block_size) :: u32;
            to_read = chunk block_size offset sz
        in bindP (tryP (ext2_get_block_num inode file_block)) (\<lambda>r. case r of
             Inl e \<Rightarrow> ret (e, out)
           | Inr block_num \<Rightarrow>
               if block_num = 0 then
                 bindP (the_or_ub (memset out pos 0 (unat to_read))) (\<lambda>out'.
                 read_loop block_size inode block_buffer out' (pos + unat to_read)
                   (offset + ucast to_read) (sz - ucast to_read) (bytes_read + ucast to_read))
               else
                 bindP (tryP (cache_read (ucast block_num) block_buffer)) (\<lambda>r. case r of
                   Inl e \<Rightarrow> ret (e, out)
                 | Inr (_, block_buffer') \<Rightarrow>
                     bindP (the_or_ub (memcpy out pos block_buffer' (unat block_offset) (unat to_read))) (\<lambda>out'.
                     read_loop block_size inode block_buffer' out' (pos + unat to_read)
                       (offset + ucast to_read) (sz - ucast to_read) (bytes_read + ucast to_read)))))"
  by pat_completeness auto

termination read_loop
proof (relation "measure (\<lambda>(_, _, _, _, _, _, sz, _). unat sz)", goal_cases)
  case 1
  then show ?case by simp
next
  case (2 b inode bb out pos offset sz br fb bo tr)
  then show ?case using chunk_decreases [of b sz offset] by simp
next
  case (3 b inode bb out pos offset sz br fb bo tr)
  then show ?case using chunk_decreases [of b sz offset] by simp
qed

declare read_loop.simps [simp del]

definition ext2_read_file :: "ext2_inode \<Rightarrow> u64 \<Rightarrow> u64 \<Rightarrow> bytes \<Rightarrow> ('d kstate, i32 \<times> bytes) prog" where
  "ext2_read_file inode offset sz buffer =
     (if offset \<ge> ucast (i_size inode) then ret (0, buffer) else
      let sz = (if offset + sz > ucast (i_size inode) then ucast (i_size inode) - offset else sz) in
      bindP (gets (\<lambda>s. fs_block_size (k_fs s))) (\<lambda>block_size.
      bindP (tryP (alloc_buffer (ucast block_size))) (\<lambda>r. case r of
        Inl e \<Rightarrow> ret (e, buffer)
      | Inr block_buffer \<Rightarrow> read_loop block_size inode block_buffer buffer 0 offset sz 0)))"

section \<open>Writing\<close>

text \<open>The block of the file that is written, a new one if there is none.\<close>

definition new_file_block :: "u32 \<Rightarrow> ext2_inode \<Rightarrow> u32 \<Rightarrow> ('d kstate, (i32 + u32) \<times> ext2_inode) prog" where
  "new_file_block block_size inode file_block =
     bindP (tryP ext2_alloc_block) (\<lambda>r. case r of
       Inl e \<Rightarrow> ret (Inl e, inode)
     | Inr block_num \<Rightarrow>
         bindP (ext2_set_block_num inode file_block block_num) (\<lambda>(result, inode').
         if result < 0 then bindP (ignoreP (ext2_free_block block_num)) (\<lambda>_. ret (Inl result, inode'))
         else ret (Inr block_num, inode'\<lparr>i_blocks := i_blocks inode' + block_size div 512\<rparr>)))"

definition file_block_for :: "u32 \<Rightarrow> ext2_inode \<Rightarrow> u32 \<Rightarrow> ('d kstate, (i32 + u32) \<times> ext2_inode) prog" where
  "file_block_for block_size inode file_block =
     bindP (tryP (ext2_get_block_num inode file_block)) (\<lambda>r. case r of
       Inl e \<Rightarrow> ret (Inl e, inode)
     | Inr block_num \<Rightarrow>
         if block_num = 0 then new_file_block block_size inode file_block else ret (Inr block_num, inode))"

text \<open>The body of the loop after the block is known; the result is the buffer for the block.\<close>

definition write_chunk :: "u32 \<Rightarrow> u32 \<Rightarrow> bytes \<Rightarrow> u32 \<Rightarrow> u32 \<Rightarrow> bytes \<Rightarrow> nat \<Rightarrow> ('d kstate, bytes) prog" where
  "write_chunk block_size block_num block_buffer block_offset to_write src pos =
     bindP (if block_offset \<noteq> 0 \<or> to_write \<noteq> block_size
            then bindP (cache_read (ucast block_num) block_buffer) (\<lambda>(_, b). ret b)
            else ret block_buffer) (\<lambda>b.
     bindP (the_or_ub (memcpy b (unat block_offset) src pos (unat to_write))) (\<lambda>b'.
     bindP (cache_write (ucast block_num) b') (\<lambda>_.
     ret b')))"

text \<open>The result of the loop is an error or the final offset and the number of bytes.\<close>

function write_loop ::
  "u32 \<Rightarrow> ext2_inode \<Rightarrow> bytes \<Rightarrow> bytes \<Rightarrow> nat \<Rightarrow> u64 \<Rightarrow> u64 \<Rightarrow> u64 \<Rightarrow>
     ('d kstate, (i32 + u64 \<times> u64) \<times> ext2_inode) prog" where
  "write_loop block_size inode block_buffer src pos offset sz bytes_written =
     (if sz = 0 then ret (Inr (offset, bytes_written), inode)
      else if block_size = 0 then bindP (guard False) (\<lambda>_. ret (Inl 0, inode))
      else
        let file_block = ucast (offset div ucast block_size) :: u32;
            block_offset = ucast (offset mod ucast block_size) :: u32;
            to_write = chunk block_size offset sz
        in bindP (file_block_for block_size inode file_block) (\<lambda>(r, inode'). case r of
             Inl e \<Rightarrow> ret (Inl e, inode')
           | Inr block_num \<Rightarrow>
               bindP (tryP (write_chunk block_size block_num block_buffer block_offset to_write src pos)) (\<lambda>r. case r of
                 Inl e \<Rightarrow> ret (Inl e, inode')
               | Inr block_buffer' \<Rightarrow>
                   write_loop block_size inode' block_buffer' src (pos + unat to_write)
                     (offset + ucast to_write) (sz - ucast to_write) (bytes_written + ucast to_write))))"
  by pat_completeness auto

termination write_loop
proof (relation "measure (\<lambda>(_, _, _, _, _, _, sz, _). unat sz)", goal_cases)
  case 1
  then show ?case by simp
next
  case (2 b inode bb src pos offset sz bw fb bo tw)
  then show ?case using chunk_decreases [of b sz offset] by simp
qed

declare write_loop.simps [simp del]

definition ext2_write_file :: "ext2_inode \<Rightarrow> u64 \<Rightarrow> u64 \<Rightarrow> bytes \<Rightarrow> ('d kstate, i32 \<times> ext2_inode) prog" where
  "ext2_write_file inode offset sz buffer =
     bindP (gets (\<lambda>s. fs_block_size (k_fs s))) (\<lambda>block_size.
     bindP (tryP (alloc_buffer (ucast block_size))) (\<lambda>r. case r of
       Inl e \<Rightarrow> ret (e, inode)
     | Inr block_buffer \<Rightarrow>
         bindP (write_loop block_size inode block_buffer buffer 0 offset sz 0) (\<lambda>(r, inode'). case r of
           Inl e \<Rightarrow> ret (e, inode')
         | Inr (offset', bytes_written) \<Rightarrow>
             bindP (gets k_time) (\<lambda>system_time.
             let inode1 = (if offset' > ucast (i_size inode') then inode'\<lparr>i_size := ucast offset'\<rparr> else inode');
                 inode2 = inode1\<lparr>i_mtime := ucast system_time\<rparr>
             in bindP (modify (upd_fs (\<lambda>f. f\<lparr>fs_dirty := True\<rparr>))) (\<lambda>_.
                ret (to_i32 bytes_written, inode2))))))"

section \<open>Whole blocks\<close>

definition ext2_read_block :: "u32 \<Rightarrow> bytes \<Rightarrow> ('d kstate, i32 \<times> bytes) prog" where
  "ext2_read_block block buffer = cache_read (ucast block) buffer"

definition ext2_write_block :: "u32 \<Rightarrow> bytes \<Rightarrow> ('d kstate, i32) prog" where
  "ext2_write_block block buffer =
     bindP (modify (upd_fs (\<lambda>f. f\<lparr>fs_dirty := True\<rparr>))) (\<lambda>_. cache_write (ucast block) buffer)"

section \<open>The contents of a file\<close>

text \<open>The byte at offset \<open>n\<close> of a file; holes read as zeros.\<close>

definition fbyte :: "geom \<Rightarrow> (u64 \<Rightarrow> bytes option) \<Rightarrow> ext2_inode \<Rightarrow> nat \<Rightarrow> u8" where
  "fbyte G v inode n = (let b = ref_blk G v inode (Inl (n div g_bs G)) in
     if b = 0 then 0 else the (v (blkno (unat b))) ! (n mod g_bs G))"

definition frange :: "geom \<Rightarrow> (u64 \<Rightarrow> bytes option) \<Rightarrow> ext2_inode \<Rightarrow> nat \<Rightarrow> nat \<Rightarrow> bytes" where
  "frange G v inode off n = map (fbyte G v inode) [off..<off + n]"

lemma length_frange [simp]: "length (frange G v inode off n) = n"
  by (simp add: frange_def)

lemma frange_split: "c \<le> n \<Longrightarrow> frange G v inode off n = frange G v inode off c @ frange G v inode (off + c) (n - c)"
  unfolding frange_def map_append [symmetric]
  by (metis le_add_diff_inverse upt_add_eq_append add.assoc le_add1)

lemma put_bytes_append:
  assumes "off + length xs + length ys \<le> length buf"
  shows "put_bytes buf off (xs @ ys) = put_bytes (put_bytes buf off xs) (off + length xs) ys"
  using assms by (simp add: put_bytes_def add.commute add.left_commute)

text \<open>Offsets inside one block.\<close>

lemma in_block:
  assumes "i < b - off mod b" "0 < (b :: nat)"
  shows "(off + i) div b = off div b" "(off + i) mod b = off mod b + i"
proof -
  have lt: "off mod b + i < b" using assms by linarith
  have "off + i = off div b * b + (off mod b + i)" by (simp add: add.assoc [symmetric])
  then show "(off + i) div b = off div b" "(off + i) mod b = off mod b + i"
    using lt by (simp_all only: div_mult_self3 mod_mult_self3) (simp_all add: div_mult_self1 assms)
qed

lemma frange_block:
  assumes "c \<le> g_bs G - off mod g_bs G" "0 < g_bs G"
    and "ref_blk G v inode (Inl (off div g_bs G)) = b" "b \<noteq> 0 \<Longrightarrow> length (the (v (blkno (unat b)))) = g_bs G"
  shows "frange G v inode off c =
    (if b = 0 then replicate c 0 else get_bytes (the (v (blkno (unat b)))) (off mod g_bs G) c)"
proof (rule nth_equalityI)
  have lt: "off mod g_bs G < g_bs G" using assms(2) by simp
  show "length (frange G v inode off c) =
      length (if b = 0 then replicate c 0 else get_bytes (the (v (blkno (unat b)))) (off mod g_bs G) c)"
    using assms lt by (simp add: length_get_bytes)
  fix i assume "i < length (frange G v inode off c)"
  then have i: "i < c" "i < g_bs G - off mod g_bs G" using assms(1) by simp_all
  have le: "off mod g_bs G + c \<le> g_bs G" using assms(1) lt by linarith
  show "frange G v inode off c ! i =
      (if b = 0 then replicate c 0 else get_bytes (the (v (blkno (unat b)))) (off mod g_bs G) c) ! i"
    using i(1) in_block [OF i(2) assms(2)] assms(3,4) le
    by (simp add: frange_def fbyte_def nth_get_bytes)
qed

text \<open>The numbers of one round of the loops.\<close>

lemma round_words:
  fixes offset sz :: u64 and b :: u32
  assumes "b \<noteq> 0" "sz \<noteq> 0" "unat offset + unat sz < 2 ^ 64" "c = unat (chunk b offset sz)"
  shows "unat (offset + ucast (chunk b offset sz)) = unat offset + c"
    "unat (sz - ucast (chunk b offset sz)) = unat sz - c" "0 < c" "c \<le> unat sz"
    "c = min (unat b - unat offset mod unat b) (unat sz)"
    "unat offset div unat b < 2 ^ 32 \<Longrightarrow> unat (ucast (offset div ucast b) :: u32) = unat offset div unat b"
proof -
  note cb = chunk_bounds [OF assms(1,2), of offset]
  show "unat (sz - ucast (chunk b offset sz)) = unat sz - c" "0 < c" "c \<le> unat sz"
    using cb assms(4) by simp_all
  show "c = min (unat b - unat offset mod unat b) (unat sz)" using unat_chunk [OF assms(1)] assms(4) by simp
  show "unat (offset + ucast (chunk b offset sz)) = unat offset + c"
    using assms(3,4) cb(2) by (subst unat_add_lem [THEN iffD1]) simp_all
  show "unat offset div unat b < 2 ^ 32 \<Longrightarrow> unat (ucast (offset div ucast b) :: u32) = unat offset div unat b"
    by (simp add: unsigned_ucast_eq unat_div take_bit_nat_eq_self_iff)
qed

text \<open>The blocks that a range touches.\<close>

definition touched :: "nat \<Rightarrow> nat \<Rightarrow> nat \<Rightarrow> nat" where
  "touched b off n = (if n = 0 then 0 else (off + n - 1) div b + 1 - off div b)"

lemma touched_step:
  assumes "0 < (b :: nat)" "c = min (b - off mod b) n" "0 < n"
  shows "Suc (touched b (off + c) (n - c)) \<le> touched b off n"
proof (cases "n \<le> b - off mod b")
  case True
  have "off div b \<le> (off + n - 1) div b" using assms(3) by (intro div_le_mono) simp
  then show ?thesis using True assms(2,3) by (simp add: touched_def)
next
  case False
  have "off div b * b + off mod b = off" "off mod b < b" "(off div b + 1) * b = off div b * b + b"
    using assms(1) by simp_all
  then have "off + c = (off div b + 1) * b" using assms(2) False by linarith
  then have d: "(off + c) div b = off div b + 1" using assms(1) by simp
  have "off + c \<le> off + n - 1" using False assms(2) by simp
  then have "(off + c) div b \<le> (off + n - 1) div b" by (rule div_le_mono)
  moreover have "off + c + (n - c) - 1 = off + n - 1" using assms(2) by simp
  ultimately show ?thesis using d False assms(2) by (simp add: touched_def)
qed

section \<open>The contract of reading\<close>

text \<open>The number of bytes that the block map can address.\<close>

definition max_file :: "geom \<Rightarrow> nat" where
  "max_file G = (12 + apb G + apb G * apb G) * g_bs G"

context block_dev
begin

lemma block_size_pos: "fs_ok s \<Longrightarrow> fs_block_size (k_fs s) \<noteq> 0 \<and> unat (fs_block_size (k_fs s)) = bs \<and> 0 < bs"
  by (auto simp: fs_ok_def geom_ok_def geom_of_def)

text \<open>
  What reading \<open>n\<close> bytes at offset \<open>off\<close> into the buffer \<open>out\<close> at \<open>pos\<close> may give: all the bytes, or an
  error for which there is a reason.
\<close>

definition read_post :: "ext2_inode \<Rightarrow> bytes \<Rightarrow> nat \<Rightarrow> nat \<Rightarrow> nat \<Rightarrow> i32 \<Rightarrow> 'd kstate \<Rightarrow> i32 \<times> bytes \<Rightarrow> 'd kstate \<Rightarrow> bool" where
  "read_post inode out pos off n tot s ro s' = (let G = geom_of (k_fs s); c = touched bs off n * (2 * (bs + 15)) in
     same c s s' \<and>
     (ro = (tot, put_bytes out pos (frange G (view (k_cache s)) inode off n)) \<or>
      fst ro = ERR_NO_MEMORY \<and> \<not> fits c s \<or> fst ro = ERR_INVALID \<and> max_file G < off + n))"

text \<open>One round and then the others.\<close>

lemma read_post_step:
  assumes "same (2 * (bs + 15)) s t" "c = min (bs - off mod bs) n" "0 < n" "0 < bs"
    and "out' = put_bytes out pos (frange (geom_of (k_fs s)) (view (k_cache s)) inode off c)" "pos + n \<le> length out"
    and "read_post inode out' (pos + c) (off + c) (n - c) tot t ro u"
  shows "read_post inode out pos off n tot s ro u"
proof -
  let ?G = "geom_of (k_fs s)" and ?v = "view (k_cache s)" and ?m = "2 * (bs + 15)"
  let ?k = "touched bs (off + c) (n - c)" and ?K = "touched bs off n"
  have t: "k_fs t = k_fs s" "view (k_cache t) = ?v" using assms(1) by (simp_all add: same_def)
  have cn: "c \<le> n" using assms(2) by simp
  have data: "put_bytes out' (pos + c) (frange ?G ?v inode (off + c) (n - c)) = put_bytes out pos (frange ?G ?v inode off n)"
    using put_bytes_append [of pos "frange ?G ?v inode off c" "frange ?G ?v inode (off + c) (n - c)" out] assms(5,6) cn
      frange_split [OF cn] by simp
  have le: "?m + ?k * ?m \<le> ?K * ?m"
    using mult_le_mono1 [OF touched_step [OF assms(4,2,3)], of ?m] by (simp only: mult_Suc)
  have post: "same (?k * ?m) t u" "ro = (tot, put_bytes out pos (frange ?G ?v inode off n)) \<or>
      fst ro = ERR_NO_MEMORY \<and> \<not> fits (?k * ?m) t \<or> fst ro = ERR_INVALID \<and> max_file ?G < off + n"
    using assms(7) data t cn by (simp_all add: read_post_def Let_def)
  have "same (?K * ?m) s u" by (rule same_mono [OF same_trans [OF assms(1) post(1)] le])
  moreover have "\<not> fits (?K * ?m) s" if "\<not> fits (?k * ?m) t"
  proof
    assume "fits (?K * ?m) s"
    then have "fits (?m + ?k * ?m) s" by (rule fits_mono [OF _ le])
    then show False using assms(1) that by (simp add: same_def spent_def)
  qed
  ultimately show ?thesis using post(2) unfolding read_post_def Let_def by blast
qed

lemma cache_read_block:
  fixes b :: u32
  assumes "fs_ok s" "unat b < g_blocks (geom_of (k_fs s))" "length buf = bs"
    and "\<And>s' c. same 0 s s' \<Longrightarrow> view (k_cache s) (blkno (unat b)) = Some c \<Longrightarrow> length c = bs \<Longrightarrow> Q (int bs, c) s'"
  shows "wp (cache_read (ucast b) buf) Q E s"
proof -
  obtain c where c: "view (k_cache s) (blkno (unat b)) = Some c" "length c = bs" "addr (blkno (unat b))"
    by (rule fs_ok_block [OF assms(1,2)])
  show ?thesis
    unfolding ucast_unat_blkno
  proof (rule cache_read_rule [where b = c], goal_cases)
    case (5 ch)
    then show ?case using c by (intro assms(4)) (simp_all add: same_def spent_refl)
  qed (use c assms(1,3) in \<open>simp_all add: fs_ok_def\<close>)
qed

text \<open>The data of one round, read from the block or filled in for a hole.\<close>

lemma read_round:
  assumes "fs_ok s" "G = geom_of (k_fs s)" "v = view (k_cache s)" "file_ok G v inode" "bs \<le> 2 ^ 16"
    and "length bb = bs" "unat fb = off div bs" "unat bo = off mod bs" "unat c \<le> bs - off mod bs" "0 < bs"
    and "pos + unat c \<le> length out" "off < 2 ^ 32"
    and "\<And>bb' t. same (2 * (bs + 15)) s t \<Longrightarrow> length bb' = bs \<Longrightarrow> wp (cont bb' (put_bytes out pos (frange G v inode off (unat c)))) Q E t"
    and "\<And>e t. same (2 * (bs + 15)) s t \<Longrightarrow> e = ERR_NO_MEMORY \<and> \<not> fits (2 * (bs + 15)) s \<or> e = ERR_INVALID \<and> max_file G \<le> off \<Longrightarrow> Q (e, out) t"
  shows "wp (bindP (tryP (ext2_get_block_num inode fb)) (\<lambda>r. case r of
       Inl e \<Rightarrow> ret (e, out)
     | Inr block_num \<Rightarrow>
         if block_num = 0 then bindP (the_or_ub (memset out pos 0 (unat c))) (\<lambda>out'. cont bb out')
         else bindP (tryP (cache_read (ucast block_num) bb)) (\<lambda>r. case r of
             Inl e \<Rightarrow> ret (e, out)
           | Inr (_, bb') \<Rightarrow> bindP (the_or_ub (memcpy out pos bb' (unat bo) (unat c))) (\<lambda>out'. cont bb' out')))) Q E s"
  unfolding wp_bindP [of "tryP (ext2_get_block_num inode fb)"] wp_tryP
proof (rule wp_conseq [OF get_block_num_ok [OF assms(1-5)]], goal_cases)
  case (1 b t)
  have G: "g_bs G = bs" using assms(1,2) by (simp add: fs_ok_def)
  have ref: "ref_blk G v inode (Inl (off div bs)) = b" using 1 ref_blk_bmap assms(7) by simp
  have t: "same (2 * (bs + 15)) s t" "fs_ok t" "geom_of (k_fs t) = G" "view (k_cache t) = v"
    using 1 fs_ok_same [OF assms(1), of "2 * (bs + 15)" t] assms(2,3) by (simp_all add: same_def)
  have lt: "unat b < g_blocks G" if "b \<noteq> 0"
    using file_okD(2) [OF assms(4), of "Inl (off div bs)"] that ref by simp
  have blk: "length (the (v (blkno (unat b)))) = g_bs G" if "b \<noteq> 0"
    using fs_ok_block [OF assms(1), of "unat b"] lt [OF that] unfolding assms(2,3) [symmetric] G by (metis option.sel)
  have data: "frange G v inode off (unat c) = (if b = 0 then replicate (unat c) 0 else get_bytes (the (v (blkno (unat b)))) (off mod bs) (unat c))"
    using frange_block [of "unat c" G off v inode b] assms(9,10) G ref blk by simp
  show ?case
  proof (cases "b = 0")
    case True
    then show ?thesis
      using assms(6,11) data assms(13) [OF t(1)] by (simp add: wp_simps memset_block)
  next
    case False
    have "off mod bs + unat c \<le> bs" using assms(9) mod_less_divisor [OF assms(10), of off] by linarith
    note le = this
    have "wp (cache_read (ucast b) bb) (\<lambda>x. wp (bindP (the_or_ub (memcpy out pos (snd x) (unat bo) (unat c))) (cont (snd x))) Q E)
        (\<lambda>e. Q (e, out)) t"
    proof (rule cache_read_block [OF t(2) _ assms(6)], goal_cases)
      case (2 u blk')
      have "same (2 * (bs + 15)) s u" using same_trans [OF t(1) 2(1)] by simp
      from assms(13) [OF this 2(3)] show ?case
        using 2(2,3) le assms(8,11) data False t(4) by (simp add: wp_simps memcpy_block)
    qed (use lt [OF False] t(3) in simp)
    then show ?thesis using False by (simp add: wp_simps case_prod_beta)
  qed
next
  case (2 e t)
  have "max_file G \<le> off" if "bmap G v inode (unat fb) = None"
  proof -
    have "12 + apb G + apb G * apb G \<le> off div bs" using that assms(7) by (simp add: bmap_def Let_def split: if_splits)
    then have "(12 + apb G + apb G * apb G) * bs \<le> off div bs * bs" by (rule mult_le_mono1)
    also have "\<dots> \<le> off" by (rule div_times_less_eq_dividend)
    finally show ?thesis using assms(1,2) by (simp add: max_file_def fs_ok_def)
  qed
  then show ?case using 2 assms(14) [of t e] by (auto simp: wp_simps no_mem_def)
qed

lemma round_facts:
  fixes offset sz :: u64
  assumes "fs_ok s" "sz \<noteq> 0" "unat offset + unat sz < 2 ^ 32"
  defines "b \<equiv> fs_block_size (k_fs s)" and "c \<equiv> unat (chunk (fs_block_size (k_fs s)) offset sz)"
  shows "unat (offset + ucast (chunk b offset sz)) = unat offset + c" "unat (sz - ucast (chunk b offset sz)) = unat sz - c"
    "0 < c" "c \<le> unat sz" "c = min (bs - unat offset mod bs) (unat sz)"
    "unat (ucast (offset div ucast b) :: u32) = unat offset div bs" "unat (ucast (offset mod ucast b) :: u32) = unat offset mod bs"
proof -
  have b: "b \<noteq> 0" "unat b = bs" using block_size_pos [OF assms(1)] by (simp_all add: b_def)
  have "unat offset + unat sz < 2 ^ 64" using assms(3) by simp
  moreover have "unat offset div unat b < 2 ^ 32"
    by (rule order.strict_trans1 [OF div_le_dividend]) (use assms(3) in simp)
  ultimately have lt: "unat offset + unat sz < 2 ^ 64" "unat offset div unat b < 2 ^ 32" .
  from round_words [OF b(1) assms(2) lt(1) refl] lt(2) unat_block_offset [OF b(1), of offset] b(2)
  show "unat (offset + ucast (chunk b offset sz)) = unat offset + c" "unat (sz - ucast (chunk b offset sz)) = unat sz - c"
    "0 < c" "c \<le> unat sz" "c = min (bs - unat offset mod bs) (unat sz)"
    "unat (ucast (offset div ucast b) :: u32) = unat offset div bs" "unat (ucast (offset mod ucast b) :: u32) = unat offset mod bs"
    by (simp_all add: b_def c_def)
qed

lemma read_loop_ok:
  assumes "fs_ok s" "G = geom_of (k_fs s)" "v = view (k_cache s)" "file_ok G v inode" "bs \<le> 2 ^ 16"
    and "length bb = bs" "pos + unat sz \<le> length out" "unat offset + unat sz < 2 ^ 32"
  shows "wp (read_loop (fs_block_size (k_fs s)) inode bb out pos offset sz br)
    (read_post inode out pos (unat offset) (unat sz) (to_i32 (br + sz)) s) E s"
  using assms
proof (induction "unat sz" arbitrary: s bb out pos offset sz br rule: less_induct)
  case less
  let ?b = "fs_block_size (k_fs s)" and ?n = "unat sz" and ?off = "unat offset"
  note b = block_size_pos [OF less.prems(1)]
  show ?case
  proof (cases "sz = 0")
    case True
    have "same 0 s s" using less.prems(1) by (simp add: same_refl fs_ok_def)
    with True show ?thesis
      by (simp add: read_loop.simps wp_simps read_post_def touched_def frange_def put_bytes_def)
  next
    case False
    let ?c = "chunk ?b offset sz"
    note w = round_facts [OF less.prems(1) False less.prems(8)]
    have n0: "0 < ?n" using False by (simp add: unat_gt_0)
    let ?cont = "\<lambda>bb' out'. read_loop ?b inode bb' out' (pos + unat ?c) (offset + ucast ?c) (sz - ucast ?c) (br + ucast ?c)"
    let ?out = "put_bytes out pos (frange G v inode ?off (unat ?c))"
    have rest: "wp (?cont bb' ?out) (read_post inode out pos ?off ?n (to_i32 (br + sz)) s) E t"
      if t: "same (2 * (bs + 15)) s t" "length bb' = bs" for bb' t
    proof -
      have f: "k_fs t = k_fs s" "view (k_cache t) = v" using t(1) less.prems(3) by (simp_all add: same_def)
      have len: "length ?out = length out" using less.prems(7) w(4) by (simp add: length_put_bytes)
      have "wp (?cont bb' ?out) (read_post inode ?out (pos + unat ?c) (?off + unat ?c) (?n - unat ?c) (to_i32 (br + sz)) t) E t"
        using less.hyps [of "sz - ucast ?c" t bb' "pos + unat ?c" ?out "offset + ucast ?c" "br + ucast ?c"]
          fs_ok_same [OF less.prems(1) t(1)] f len t(2) w less.prems by simp
      then show ?thesis
        by (rule wp_conseq) (rule read_post_step [OF t(1) w(5) n0], use b less.prems(2,3,7) in simp_all)
    qed
    have fail: "read_post inode out pos ?off ?n (to_i32 (br + sz)) s (e, out) t"
      if "same (2 * (bs + 15)) s t" "e = ERR_NO_MEMORY \<and> \<not> fits (2 * (bs + 15)) s \<or> e = ERR_INVALID \<and> max_file G \<le> ?off" for e t
    proof -
      have "1 \<le> touched bs ?off ?n" using touched_step [OF _ w(5) n0] b by simp
      then have le: "2 * (bs + 15) \<le> touched bs ?off ?n * (2 * (bs + 15))" using mult_le_mono1 [of 1 _ "2 * (bs + 15)"] by simp
      then show ?thesis
        using that same_mono [OF that(1) le] fits_mono [OF _ le, of s] n0 less.prems(2)
        by (auto simp: read_post_def Let_def)
    qed
    have "wp (bindP (tryP (ext2_get_block_num inode (ucast (offset div ucast ?b)))) (\<lambda>r. case r of
       Inl e \<Rightarrow> ret (e, out)
     | Inr block_num \<Rightarrow>
         if block_num = 0 then bindP (the_or_ub (memset out pos 0 (unat ?c))) (\<lambda>out'. ?cont bb out')
         else bindP (tryP (cache_read (ucast block_num) bb)) (\<lambda>r. case r of
             Inl e \<Rightarrow> ret (e, out)
           | Inr (_, bb') \<Rightarrow> bindP (the_or_ub (memcpy out pos bb' (unat (ucast (offset mod ucast ?b) :: u32)) (unat ?c))) (\<lambda>out'. ?cont bb' out'))))
      (read_post inode out pos ?off ?n (to_i32 (br + sz)) s) E s"
      by (rule read_round [OF less.prems(1-6) w(6,7)]) (use w b less.prems(7,8) rest fail in simp_all)
    then show ?thesis using False b by (subst read_loop.simps) (simp add: Let_def)
  qed
qed

lemma read_file_ok:
  assumes "fs_ok s" "G = geom_of (k_fs s)" "v = view (k_cache s)" "file_ok G v inode" "bs \<le> 2 ^ 16"
    and "unat offset + unat sz < 2 ^ 64" "n = min (unat sz) (unat (i_size inode) - unat offset)" "n \<le> length buffer"
    and "unat offset < unat (i_size inode)"
  shows "wp (ext2_read_file inode offset sz buffer)
    (\<lambda>ro s'. \<exists>t. same (bs + 15) s t \<and> read_post inode buffer 0 (unat offset) n (to_i32 (word_of_nat n)) t ro s' \<or>
       fst ro = ERR_NO_MEMORY \<and> \<not> fits (bs + 15) s \<and> same (bs + 15) s s') E s"
proof -
  let ?i = "ucast (i_size inode) :: u64" and ?Q = "\<lambda>ro s'. \<exists>t. same (bs + 15) s t \<and>
      read_post inode buffer 0 (unat offset) n (to_i32 (word_of_nat n)) t ro s' \<or>
       fst ro = ERR_NO_MEMORY \<and> \<not> fits (bs + 15) s \<and> same (bs + 15) s s'"
  let ?n = "if offset + sz > ?i then ?i - offset else sz"
  note lt = assms(9)
  have sum: "unat (offset + sz) = unat offset + unat sz" using assms(6) by (subst unat_add_lem [THEN iffD1]) simp_all
  have n1: "unat ?n = n"
    using lt sum assms(7) by (auto simp: word_less_nat_alt unat_sub word_le_nat_alt)
  have n: "unat ?n = n" "?n = word_of_nat n" unfolding n1 [symmetric] by simp_all
  have sz: "unat (ucast (fs_block_size (k_fs s)) :: u64) = bs" by (rule block_size_word [OF assms(1)])
  have loop: "wp (read_loop (fs_block_size (k_fs s)) inode (replicate bs 0) buffer 0 offset ?n 0) ?Q E t"
    if t: "same (bs + 15) s t" for t
  proof -
    have f: "k_fs t = k_fs s" "view (k_cache t) = v" using t assms(3) by (simp_all add: same_def)
    have "unat offset + n < 2 ^ 32" using assms(7) lt unat_u32_lt [of "i_size inode"] by linarith
    then have "wp (read_loop (fs_block_size (k_fs t)) inode (replicate bs 0) buffer 0 offset ?n 0)
        (read_post inode buffer 0 (unat offset) (unat ?n) (to_i32 (0 + ?n)) t) E t"
      using fs_ok_same [OF assms(1) t] f assms n(1) by (intro read_loop_ok) simp_all
    then show ?thesis
      unfolding f(1) n(1) by (rule wp_conseq) (use t n(2) in auto)
  qed
  have "wp (alloc_buffer (ucast (fs_block_size (k_fs s))))
      (\<lambda>bb. wp (read_loop (fs_block_size (k_fs s)) inode bb buffer 0 offset ?n 0) ?Q E) (\<lambda>e. ?Q (e, buffer)) s"
  proof (rule alloc_spent_rule, goal_cases)
    case (1 h)
    then have "same (bs + 15) s (s\<lparr>k_heap := h\<rparr>)" using assms(1) sz by (simp add: same_def fs_ok_def)
    then show ?case unfolding sz by (rule loop)
  next
    case 2
    then show ?case using assms(1) sz by (simp add: same_refl fs_ok_def)
  qed
  moreover have "\<not> ?i \<le> offset" using lt by (simp add: word_le_nat_alt)
  ultimately show ?thesis
    by (simp only: ext2_read_file_def Let_def wp_gets wp_bindP wp_tryP wp_ret sum.case if_False)
qed

end

text \<open>
  C2. \<^verbatim>\<open>ext2_read_file\<close> returns the bytes of the file: the requested number of bytes, cut off at the
  end of the file, is returned and the bytes at that offset are in the buffer, zeros for holes; the
  rest of the buffer, disk and file system are as they were.  It fails only when the heap has no room
  for its buffers, or on a file that is larger than what the block map can address.
\<close>

theorem read_file_correct:
  assumes "ext2_ok bs s" "G = geom_of (k_fs s)" "v = ram_view bs (k_cache s)" "file_ok G v inode" "bs \<le> 2 ^ 16"
    and "unat offset + unat sz < 2 ^ 64" "n = min (unat sz) (unat (i_size inode) - unat offset)" "n \<le> length buffer"
    and "unat (i_size inode) < 2 ^ 31"
  shows "wp (ext2_read_file inode offset sz buffer)
    (\<lambda>(r, out) s'. ram_view bs (k_cache s') = v \<and> k_fs s' = k_fs s \<and>
       (r = int n \<and> out = put_bytes buffer 0 (frange G v inode (unat offset) n) \<or>
        r = ERR_NO_MEMORY \<and> \<not> fits ((1 + 2 * touched bs (unat offset) n) * (bs + 15)) s \<or>
        r = ERR_INVALID \<and> max_file G < unat (i_size inode)))
    (\<lambda>_ _. False) s"
proof (cases "unat offset < unat (i_size inode)")
  case False
  then show ?thesis
    using assms(3,7) by (simp add: ext2_read_file_def wp_simps word_le_nat_alt frange_def put_bytes_def)
next
  case True
  have ok: "ram.fs_ok bs s" using assms(1) by (simp add: ram_fs_ok)
  have "n < 2 ^ 31" using assms(7,9) by simp
  then have i32: "to_i32 (word_of_nat n) = int n" by (rule to_i32_of_nat)
  have off: "unat offset + n \<le> unat (i_size inode)" using assms(7) True by simp
  have K: "(1 + 2 * k) * (bs + 15) = bs + 15 + k * (2 * (bs + 15))" for k by (simp add: algebra_simps)
  show ?thesis
  proof (rule wp_conseq [OF ram.read_file_ok [OF ok assms(2-8), where E = "\<lambda>_ _. False"]], goal_cases)
    case (2 ro s')
    then consider t where "ram.same bs (bs + 15) s t" "ram.read_post bs inode buffer 0 (unat offset) n (int n) t ro s'"
      | "fst ro = ERR_NO_MEMORY" "\<not> fits (bs + 15) s" "ram.same bs (bs + 15) s s'" using i32 by auto
    then show ?case
    proof cases
      case 1
      then have "k_fs s' = k_fs s" "ram_view bs (k_cache s') = v" "geom_of (k_fs t) = G" "ram_view bs (k_cache t) = v"
        using assms(2,3) by (auto simp: ram.same_def ram.read_post_def Let_def)
      moreover have "\<not> fits ((1 + 2 * k) * (bs + 15)) s" if "\<not> fits (k * (2 * (bs + 15))) t" for k
        using that 1(1) unfolding K by (auto simp: ram.same_def spent_def)
      ultimately show ?thesis
        using 1(2) off by (cases ro) (auto simp: ram.read_post_def Let_def)
    next
      case 2
      then show ?thesis
        using assms(3) fits_mono [of "(1 + 2 * touched bs (unat offset) n) * (bs + 15)" s "bs + 15"]
        by (cases ro) (auto simp: ram.same_def)
    qed
  qed (use True in simp_all)
qed

lemma demo_root_size: "i_size demo_root = 1024"
  by (simp add: demo_root_def)

theorem read_file_correct_witness:
  "\<exists>c. wp (ext2_read_file demo_root 4 6 (replicate 8 7)) (\<lambda>ro _. ro = (6, [12, 0, 1, 2, 0x2E, 0, 7, 7])) (\<lambda>_ _. False) (demo_state c)"
proof -
  obtain c where c: "ext2_ok 1024 (demo_state c)" and v: "ram_view 1024 c (blkno 3) = Some (demo_blocks ! 3)"
    and d: "ram_view 1024 c (blkno 6) = Some (demo_blocks ! 6)"
    by (rule demo_ext2_ok) simp
  let ?G = "geom_of (demo_fs False)"
  have bs: "g_bs ?G = 1024" by (simp add: demo_geom)
  have "frange ?G (ram_view 1024 c) demo_root 4 6 = get_bytes (demo_blocks ! 6) 4 6"
    using frange_block [of 6 ?G 4 "ram_view 1024 c" demo_root 6] d demo_blocks_length(2) [of 6]
    by (simp add: bs demo_root_refs)
  also have "\<dots> = [12, 0, 1, 2, 0x2E, 0]" by (simp add: demo_blocks_def get_bytes_def)
  finally have data: "frange ?G (ram_view 1024 c) demo_root 4 6 = [12, 0, 1, 2, 0x2E, 0]" .
  have put: "put_bytes (replicate 8 7) 0 [12, 0, 1, 2, 0x2E, 0] = [12, 0, 1, 2, 0x2E, 0, 7, 7 :: u8]"
    by (simp add: put_bytes_def numeral_eq_Suc)
  have "wp (ext2_read_file demo_root 4 6 (replicate 8 7)) (\<lambda>ro _. ro = (6, [12, 0, 1, 2, 0x2E, 0, 7, 7])) (\<lambda>_ _. False) (demo_state c)"
    by (rule wp_conseq [OF read_file_correct [OF c refl refl, where n = 6]])
      (use demo_root_ok [OF v] in \<open>auto simp: demo_free data put max_file_def bs touched_def demo_root_size apb_def\<close>)
  then show ?thesis by blast
qed

end
