(* ===== verification/Ext2_Dir.thy ===== *)
theory Ext2_Dir
  imports Ext2_File "HOL-Library.Monad_Syntax"
begin

unbundle bit_operations_syntax

text \<open>
  Directories, \<^verbatim>\<open>src/fs/ext2/dir.c\<close>.  A directory block is scanned as bytes, with the fields of
  \<^verbatim>\<open>ext2_dir_entry_t\<close> read at their offsets: reading or writing outside of the block buffer is
  undefined, which is the value \<open>None\<close> of the functions on a buffer.  The offset in a block is a
  natural number: it cannot wrap around, as a buffer has at most the 1 MB of the heap.
\<close>

section \<open>Entries in a block\<close>

definition de_inode :: "bytes \<Rightarrow> nat \<Rightarrow> u32 option" where
  "de_inode buf off = (if off + 4 \<le> length buf then Some (of_le32 (get_bytes buf off 4)) else None)"

definition de_rec_len :: "bytes \<Rightarrow> nat \<Rightarrow> u16 option" where
  "de_rec_len buf off = (if off + 6 \<le> length buf then Some (of_le16 (get_bytes buf (off + 4) 2)) else None)"

definition de_name_len :: "bytes \<Rightarrow> nat \<Rightarrow> u8 option" where
  "de_name_len buf off = (if off + 6 < length buf then Some (buf ! (off + 6)) else None)"

definition sizeof_dir_entry :: nat where "sizeof_dir_entry = 263"

text \<open>Stores the bytes \<open>xs\<close> at \<open>off\<close>.\<close>

definition put_at :: "bytes \<Rightarrow> nat \<Rightarrow> bytes \<Rightarrow> bytes option" where
  "put_at buf off xs = (if off + length xs \<le> length buf then Some (put_bytes buf off xs) else None)"

text \<open>\<^verbatim>\<open>for (i = 0; i < num_blocks; i++)\<close>: the blocks of a directory of \<open>sz\<close> bytes.\<close>

definition num_dir_blocks :: "u32 \<Rightarrow> u32 \<Rightarrow> u32 option" where
  "num_dir_blocks sz block_size = (if block_size = 0 then None else Some ((sz + block_size - 1) div block_size))"

section \<open>Lookup\<close>

text \<open>
  The inner loop of \<^verbatim>\<open>ext2_lookup\<close>; the outer \<open>None\<close> is undefined and the inner one that the block
  has no entry with the name.
\<close>

definition name_matches :: "bytes \<Rightarrow> bytes \<Rightarrow> nat \<Rightarrow> bool option" where
  "name_matches name buf off = do {
     ino \<leftarrow> de_inode buf off;
     if ino = 0 then Some False else do {
     len \<leftarrow> de_name_len buf off;
     n \<leftarrow> strlen name;
     if unat len \<noteq> n then Some False else do {
     c \<leftarrow> strncmp (drop (off + 8) buf) name (unat len);
     Some (c = 0) } } }"

function find_entry :: "bytes \<Rightarrow> bytes \<Rightarrow> nat \<Rightarrow> nat \<Rightarrow> u32 option option" where
  "find_entry name buf block_size off =
     (if off < block_size then
        (case de_rec_len buf off of
           None \<Rightarrow> None
         | Some rec_len \<Rightarrow>
             if rec_len = 0 then Some None
             else (case name_matches name buf off of
                None \<Rightarrow> None
              | Some True \<Rightarrow> map_option Some (de_inode buf off)
              | Some False \<Rightarrow> find_entry name buf block_size (off + unat rec_len)))
      else Some None)"
  by pat_completeness auto
termination
  by (relation "measure (\<lambda>(name, buf, block_size, off). block_size - off)") (auto simp: unat_gt_0 intro!: diff_less_mono2)

declare find_entry.simps [simp del]

fun lookup_from :: "nat list \<Rightarrow> ext2_inode \<Rightarrow> bytes \<Rightarrow> u32 \<Rightarrow> bytes \<Rightarrow> ('d kstate, u32) prog" where
  "lookup_from [] inode name block_size block_buffer = throw ERR_NOT_FOUND"
| "lookup_from (i # is) inode name block_size block_buffer =
     bindP (tryP (ext2_get_block_num inode (word_of_nat i))) (\<lambda>r. case r of
       Inl _ \<Rightarrow> lookup_from is inode name block_size block_buffer
     | Inr block_num \<Rightarrow>
         if block_num = 0 then lookup_from is inode name block_size block_buffer else
         bindP (cache_read (ucast block_num) block_buffer) (\<lambda>(_, block_buffer').
         bindP (the_or_ub (find_entry name block_buffer' (unat block_size) 0)) (\<lambda>found. case found of
           Some ino \<Rightarrow> ret ino
         | None \<Rightarrow> lookup_from is inode name block_size block_buffer')))"

definition ext2_lookup :: "u32 \<Rightarrow> bytes \<Rightarrow> ('d kstate, u32) prog" where
  "ext2_lookup parent_ino name =
     bindP (ext2_read_inode parent_ino) (\<lambda>inode.
     if i_mode inode AND 0xF000 \<noteq> EXT2_S_IFDIR then throw ERR_INVALID else
     bindP (gets (\<lambda>s. fs_block_size (k_fs s))) (\<lambda>block_size.
     bindP (alloc_buffer (ucast block_size)) (\<lambda>block_buffer.
     bindP (the_or_ub (num_dir_blocks (i_size inode) block_size)) (\<lambda>num_blocks.
     lookup_from [0..<unat num_blocks] inode name block_size block_buffer))))"

section \<open>Listing\<close>

text \<open>
  The inner loop of \<^verbatim>\<open>ext2_readdir\<close>: the copy of the entry, or the number of entries counted so
  far.
\<close>

function scan_entries :: "u64 \<Rightarrow> bytes \<Rightarrow> nat \<Rightarrow> nat \<Rightarrow> u64 \<Rightarrow> (bytes + u64) option" where
  "scan_entries index buf block_size off current =
     (if off < block_size then
        (case de_rec_len buf off of
           None \<Rightarrow> None
         | Some rec_len \<Rightarrow>
             if rec_len = 0 then Some (Inr current)
             else (case de_inode buf off of
                None \<Rightarrow> None
              | Some ino \<Rightarrow>
                  if ino \<noteq> 0 \<and> current = index then
                    map_option Inl (memcpy (replicate sizeof_dir_entry 0) 0 buf off sizeof_dir_entry)
                  else scan_entries index buf block_size (off + unat rec_len)
                    (if ino \<noteq> 0 then current + 1 else current)))
      else Some (Inr current))"
  by pat_completeness auto
termination
  by (relation "measure (\<lambda>(index, buf, block_size, off, current). block_size - off)") (auto simp: unat_gt_0 intro!: diff_less_mono2)

declare scan_entries.simps [simp del]

fun readdir_from :: "nat list \<Rightarrow> ext2_inode \<Rightarrow> u64 \<Rightarrow> u32 \<Rightarrow> bytes \<Rightarrow> u64 \<Rightarrow> ('d kstate, bytes) prog" where
  "readdir_from [] inode index block_size block_buffer current = throw ERR_NOT_FOUND"
| "readdir_from (i # is) inode index block_size block_buffer current =
     bindP (tryP (ext2_get_block_num inode (word_of_nat i))) (\<lambda>r. case r of
       Inl _ \<Rightarrow> readdir_from is inode index block_size block_buffer current
     | Inr block_num \<Rightarrow>
         if block_num = 0 then readdir_from is inode index block_size block_buffer current else
         bindP (cache_read (ucast block_num) block_buffer) (\<lambda>(_, block_buffer').
         bindP (the_or_ub (scan_entries index block_buffer' (unat block_size) 0 current)) (\<lambda>r. case r of
           Inl de \<Rightarrow> ret de
         | Inr current' \<Rightarrow> readdir_from is inode index block_size block_buffer' current')))"

definition ext2_readdir :: "u32 \<Rightarrow> u64 \<Rightarrow> ('d kstate, bytes) prog" where
  "ext2_readdir ino index =
     bindP (ext2_read_inode ino) (\<lambda>inode.
     if i_mode inode AND 0xF000 \<noteq> EXT2_S_IFDIR then throw ERR_INVALID else
     bindP (gets (\<lambda>s. fs_block_size (k_fs s))) (\<lambda>block_size.
     bindP (alloc_buffer (ucast block_size)) (\<lambda>block_buffer.
     bindP (the_or_ub (num_dir_blocks (i_size inode) block_size)) (\<lambda>num_blocks.
     readdir_from [0..<unat num_blocks] inode index block_size block_buffer 0))))"

section \<open>Adding an entry\<close>

text \<open>The length of an entry with a name of \<open>n\<close> bytes.\<close>

definition entry_len :: "u32 \<Rightarrow> u32" where
  "entry_len n = (8 + n + 3) AND NOT 3"

text \<open>The assignments to the fields of a new entry, with the terminator after the name.\<close>

definition put_entry :: "bytes \<Rightarrow> nat \<Rightarrow> u32 \<Rightarrow> u16 \<Rightarrow> u32 \<Rightarrow> u8 \<Rightarrow> bytes \<Rightarrow> bytes option" where
  "put_entry buf off ino rec_len name_len file_type name = do {
     b1 \<leftarrow> put_at buf off (le32 ino @ le16 rec_len @ [ucast name_len, file_type]);
     xs \<leftarrow> strncpy_bytes name (unat name_len);
     b2 \<leftarrow> put_at b1 (off + 8) xs;
     put_at b2 (off + 8 + unat name_len) [0] }"

datatype slot = No_slot | New_slot nat bytes | Split_slot bytes

text \<open>The inner loop of \<^verbatim>\<open>ext2_add_dir_entry\<close>: where the entry goes, and the block with it.\<close>

function add_in_block :: "bytes \<Rightarrow> u32 \<Rightarrow> u32 \<Rightarrow> u8 \<Rightarrow> bytes \<Rightarrow> u32 \<Rightarrow> nat \<Rightarrow> slot option" where
  "add_in_block name name_len ino file_type buf block_size off =
     (if off < unat block_size then
        (case de_rec_len buf off of
           None \<Rightarrow> None
         | Some rec_len \<Rightarrow>
             if rec_len = 0 then
               map_option (New_slot off)
                 (put_entry buf off ino (ucast (block_size - word_of_nat off)) name_len file_type name)
             else
               (case de_name_len buf off of
                  None \<Rightarrow> None
                | Some len \<Rightarrow>
                    let actual_len = entry_len (ucast len);
                        free_space = ucast rec_len - actual_len
                    in (case de_inode buf off of
                          None \<Rightarrow> None
                        | Some old \<Rightarrow>
                            if old \<noteq> 0 \<and> free_space \<ge> entry_len name_len then do {
                              b1 \<leftarrow> put_entry buf (off + unat actual_len) ino (ucast free_space) name_len file_type name;
                              b2 \<leftarrow> put_at b1 (off + 4) (le16 (ucast actual_len));
                              Some (Split_slot b2) }
                            else add_in_block name name_len ino file_type buf block_size (off + unat rec_len))))
      else Some No_slot)"
  by pat_completeness auto
termination
  by (relation "measure (\<lambda>(name, name_len, ino, file_type, buf, block_size, off). unat block_size - off)")
    (auto simp: unat_gt_0 intro!: diff_less_mono2)

declare add_in_block.simps [simp del]

text \<open>
  The block of round \<open>i\<close> with its contents.  \<^verbatim>\<open>block_num\<close> is not initialised when
  \<^verbatim>\<open>ext2_get_block_num\<close> fails, and the error is not looked at: using it is undefined.
\<close>

definition dir_block_for :: "u32 \<Rightarrow> ext2_inode \<Rightarrow> nat \<Rightarrow> bytes \<Rightarrow> ('d kstate, u32 \<times> bytes \<times> ext2_inode) prog" where
  "dir_block_for block_size inode i block_buffer =
     bindP (tryP (ext2_get_block_num inode (word_of_nat i))) (\<lambda>r. case r of
       Inl _ \<Rightarrow> bindP (guard False) (\<lambda>_. throw ERR_INVALID)
     | Inr block_num \<Rightarrow>
         if block_num = 0 then
           bindP ext2_alloc_block (\<lambda>new_block.
           bindP (ext2_set_block_num inode (word_of_nat i) new_block) (\<lambda>(result, inode').
           if result < 0 then throw result else
           bindP (the_or_ub (memset block_buffer 0 0 (unat block_size))) (\<lambda>b.
           ret (new_block, b, inode'))))
         else
           bindP (cache_read (ucast block_num) block_buffer) (\<lambda>(_, b).
           ret (block_num, b, inode)))"

fun add_from ::
  "nat list \<Rightarrow> u32 \<Rightarrow> ext2_inode \<Rightarrow> bytes \<Rightarrow> u32 \<Rightarrow> u32 \<Rightarrow> u8 \<Rightarrow> u32 \<Rightarrow> bytes \<Rightarrow> ('d kstate, i32) prog" where
  "add_from [] parent_ino parent name name_len ino file_type block_size block_buffer = throw ERR_NO_MEMORY"
| "add_from (i # is) parent_ino parent name name_len ino file_type block_size block_buffer =
     bindP (dir_block_for block_size parent i block_buffer) (\<lambda>(block_num, b, parent').
     bindP (the_or_ub (add_in_block name name_len ino file_type b block_size 0)) (\<lambda>slot. case slot of
       No_slot \<Rightarrow> add_from is parent_ino parent' name name_len ino file_type block_size b
     | Split_slot b' \<Rightarrow> cache_write (ucast block_num) b'
     | New_slot off b' \<Rightarrow>
         bindP (tryP (cache_write (ucast block_num) b')) (\<lambda>result.
         let new_size = word_of_nat i * block_size + word_of_nat off + entry_len name_len in
         bindP (if new_size > i_size parent'
                then ignoreP (ext2_write_inode parent_ino (parent'\<lparr>i_size := new_size\<rparr>))
                else ret ()) (\<lambda>_.
         case result of Inl e \<Rightarrow> throw e | Inr x \<Rightarrow> ret x))))"

definition ext2_add_dir_entry :: "u32 \<Rightarrow> bytes \<Rightarrow> u32 \<Rightarrow> u8 \<Rightarrow> ('d kstate, i32) prog" where
  "ext2_add_dir_entry parent_ino name ino file_type =
     bindP (ext2_read_inode parent_ino) (\<lambda>parent.
     bindP (the_or_ub (strlen name)) (\<lambda>n.
     bindP (gets (\<lambda>s. fs_block_size (k_fs s))) (\<lambda>block_size.
     bindP (alloc_buffer (ucast block_size)) (\<lambda>block_buffer.
     bindP (the_or_ub (num_dir_blocks (i_size parent) block_size)) (\<lambda>num_blocks.
     add_from [0..<max 1 (unat num_blocks)] parent_ino parent name (word_of_nat n) ino file_type
       block_size block_buffer)))))"

section \<open>Creating and removing files\<close>

definition new_inode :: "u16 \<Rightarrow> u32 \<Rightarrow> u16 \<Rightarrow> u32 \<Rightarrow> u32 \<Rightarrow> u32 \<Rightarrow> ext2_inode" where
  "new_inode mode sz links blocks first now =
     \<lparr>i_mode = mode, i_uid = 0, i_size = sz, i_atime = now, i_ctime = now, i_mtime = now, i_dtime = 0,
      i_gid = 0, i_links_count = links, i_blocks = blocks, i_flags = 0, i_osd1 = 0,
      i_block = first # replicate 14 0, i_generation = 0, i_file_acl = 0, i_dir_acl = 0, i_faddr = 0,
      i_osd2 = replicate 12 0\<rparr>"

text \<open>\<^verbatim>\<open>if (result < 0) { undo; return result; }\<close> after a call.\<close>

definition or_undo :: "('s, 'a) prog \<Rightarrow> ('s, unit) prog \<Rightarrow> ('s, 'a) prog" where
  "or_undo m undo = catch m (\<lambda>e. bindP undo (\<lambda>_. throw e))"

definition ext2_create :: "u32 \<Rightarrow> bytes \<Rightarrow> u16 \<Rightarrow> ('d kstate, u32) prog" where
  "ext2_create parent_ino name mode =
     bindP ext2_alloc_inode (\<lambda>ino.
     bindP (gets k_time) (\<lambda>system_time.
     let inode = new_inode (EXT2_S_IFREG OR (mode AND 0xFFF)) 0 1 0 0 (ucast system_time);
         undo = ignoreP (ext2_free_inode ino)
     in bindP (or_undo (ext2_write_inode ino inode) undo) (\<lambda>_.
        bindP (or_undo (ext2_add_dir_entry parent_ino name ino EXT2_FT_REG_FILE) undo) (\<lambda>_.
        ret ino))))"

text \<open>The block of a new directory with its two entries.\<close>

definition dot_block :: "u32 \<Rightarrow> bytes \<Rightarrow> u32 \<Rightarrow> u32 \<Rightarrow> bytes option" where
  "dot_block block_size block_buffer ino parent_ino = do {
     b0 \<leftarrow> memset block_buffer 0 0 (unat block_size);
     b1 \<leftarrow> put_at b0 0 (le32 ino @ le16 12 @ [1, EXT2_FT_DIR, 0x2E]);
     put_at b1 12 (le32 parent_ino @ le16 (ucast (block_size - 12)) @ [2, EXT2_FT_DIR, 0x2E, 0x2E]) }"

definition ext2_mkdir :: "u32 \<Rightarrow> bytes \<Rightarrow> u16 \<Rightarrow> ('d kstate, u32) prog" where
  "ext2_mkdir parent_ino name mode =
     bindP ext2_alloc_inode (\<lambda>ino.
     bindP (gets k_time) (\<lambda>system_time.
     bindP (gets (\<lambda>s. fs_block_size (k_fs s))) (\<lambda>block_size.
     bindP (or_undo ext2_alloc_block (ignoreP (ext2_free_inode ino))) (\<lambda>block_num.
     let inode = new_inode (EXT2_S_IFDIR OR (mode AND 0xFFF)) block_size 2 (block_size div 512) block_num
           (ucast system_time);
         undo = bindP (ignoreP (ext2_free_block block_num)) (\<lambda>_. ignoreP (ext2_free_inode ino))
     in bindP (or_undo (alloc_buffer (ucast block_size)) undo) (\<lambda>block_buffer.
        bindP (the_or_ub (dot_block block_size block_buffer ino parent_ino)) (\<lambda>b.
        bindP (or_undo (cache_write (ucast block_num) b) undo) (\<lambda>_.
        bindP (or_undo (ext2_write_inode ino inode) undo) (\<lambda>_.
        bindP (or_undo (ext2_add_dir_entry parent_ino name ino EXT2_FT_DIR) undo) (\<lambda>_.
        bindP (tryP (ext2_read_inode parent_ino)) (\<lambda>r.
        bindP (case r of
            Inl _ \<Rightarrow> ret ()
          | Inr parent \<Rightarrow> ignoreP (ext2_write_inode parent_ino (parent\<lparr>i_links_count := i_links_count parent + 1\<rparr>))) (\<lambda>_.
        ret ino)))))))))))"

fun free_blocks_of :: "u32 list \<Rightarrow> ('d kstate, unit) prog" where
  "free_blocks_of [] = ret ()"
| "free_blocks_of (b # bs) =
     bindP (if b \<noteq> 0 then ignoreP (ext2_free_block b) else ret ()) (\<lambda>_. free_blocks_of bs)"

definition ext2_unlink :: "u32 \<Rightarrow> bytes \<Rightarrow> ('d kstate, i32) prog" where
  "ext2_unlink parent_ino name =
     bindP (ext2_lookup parent_ino name) (\<lambda>ino.
     bindP (ext2_read_inode ino) (\<lambda>inode.
     let inode' = inode\<lparr>i_links_count := i_links_count inode - 1\<rparr> in
     bindP (if i_links_count inode' = 0
            then bindP (free_blocks_of (i_block inode')) (\<lambda>_. ignoreP (ext2_free_inode ino))
            else ignoreP (ext2_write_inode ino inode')) (\<lambda>_.
     ret ERR_SUCCESS)))"


section \<open>Blocks as lists of entries\<close>

text \<open>
  An entry with its name and the bytes that follow the name up to the next entry.  A directory block
  is the bytes of its entries one after the other.
\<close>

record dent =
  dn_ino :: u32
  dn_type :: u8
  dn_name :: bytes
  dn_pad :: bytes

definition dent_len :: "dent \<Rightarrow> nat" where
  "dent_len e = 8 + length (dn_name e) + length (dn_pad e)"

definition dent_bytes :: "dent \<Rightarrow> bytes" where
  "dent_bytes e = le32 (dn_ino e) @ le16 (word_of_nat (dent_len e)) @ [word_of_nat (length (dn_name e)), dn_type e]
     @ dn_name e @ dn_pad e"

definition dir_bytes :: "dent list \<Rightarrow> bytes" where
  "dir_bytes es = concat (map dent_bytes es)"

text \<open>The least length of an entry with the name, a multiple of 4.\<close>

definition min_len :: "bytes \<Rightarrow> nat" where
  "min_len name = (length name + 11) div 4 * 4"

definition dent_ok :: "dent \<Rightarrow> bool" where
  "dent_ok e \<longleftrightarrow> length (dn_name e) < 256 \<and> min_len (dn_name e) \<le> dent_len e \<and> dent_len e < 2 ^ 16"

lemma length_dent_bytes [simp]: "length (dent_bytes e) = dent_len e"
  by (simp add: dent_bytes_def dent_len_def)

lemma dir_bytes_simps [simp]:
  "dir_bytes [] = []" "dir_bytes (e # es) = dent_bytes e @ dir_bytes es"
  "dir_bytes (es @ es') = dir_bytes es @ dir_bytes es'"
  by (simp_all add: dir_bytes_def)

lemma dent_len_pos: "8 \<le> dent_len e" "0 < dent_len e"
  by (simp_all add: dent_len_def)

lemma unat_dent_len [simp]: "dent_ok e \<Longrightarrow> unat (word_of_nat (dent_len e) :: u16) = dent_len e"
  by (simp add: dent_ok_def unsigned_of_nat take_bit_nat_eq_self_iff)

lemma dent_len_nonzero [simp]: "dent_ok e \<Longrightarrow> (word_of_nat (dent_len e) :: u16) \<noteq> 0"
  using unat_dent_len [of e] dent_len_pos(2) [of e] by (metis unat_0 less_irrefl)

text \<open>The fields of the entry that starts at an offset.\<close>

lemma entry_fields:
  assumes "buf = pre @ dent_bytes e @ post"
  shows "de_inode buf (length pre) = Some (dn_ino e)"
    and "de_rec_len buf (length pre) = Some (word_of_nat (dent_len e))"
    and "de_name_len buf (length pre) = Some (word_of_nat (length (dn_name e)))"
    and "drop (length pre + 8) buf = dn_name e @ dn_pad e @ post"
  using assms of_le32_le32 [of "dn_ino e" "[]"] of_le16_le16 [of "word_of_nat (dent_len e)" "[]"]
  by (simp_all add: de_inode_def de_rec_len_def de_name_len_def dent_bytes_def get_bytes_def nth_append)

text \<open>The inode of the first used entry with the name.\<close>

definition entry_of :: "bytes \<Rightarrow> dent list \<Rightarrow> u32 option" where
  "entry_of name es = map_option dn_ino (find (\<lambda>e. dn_ino e \<noteq> 0 \<and> dn_name e = name) es)"

lemma entry_of_simps [simp]:
  "entry_of name [] = None"
  "entry_of name (e # es) = (if dn_ino e \<noteq> 0 \<and> dn_name e = name then Some (dn_ino e) else entry_of name es)"
  by (simp_all add: entry_of_def)

lemma entry_of_append: "entry_of name (es @ es') = (case entry_of name es of None \<Rightarrow> entry_of name es' | Some i \<Rightarrow> Some i)"
  by (induction es) simp_all

lemma entry_of_None: "entry_of name es = None \<longleftrightarrow> (\<forall>e \<in> set es. dn_ino e \<noteq> 0 \<longrightarrow> dn_name e \<noteq> name)"
  by (induction es) auto

lemma name_matches_entry:
  assumes "buf = pre @ dent_bytes e @ post" "dent_ok e" "cstr name"
  shows "name_matches (name @ 0 # r) buf (length pre) = Some (dn_ino e \<noteq> 0 \<and> dn_name e = name)"
proof -
  have len: "unat (word_of_nat (length (dn_name e)) :: u8) = length (dn_name e)" "length (dn_name e) < 256"
    using assms(2) by (simp_all add: dent_ok_def unsigned_of_nat take_bit_nat_eq_self_iff)
  have "\<exists>k. strncmp (dn_name e @ dn_pad e @ post) (name @ 0 # r) (length name) = Some k \<and> (k = 0 \<longleftrightarrow> dn_name e = name)"
    if "length (dn_name e) = length name" using strncmp_prefix_iff [OF that assms(3)] .
  then show ?thesis
    using entry_fields [OF assms(1)] assms(3) len by (cases "length (dn_name e) = length name") (auto simp: name_matches_def)
qed

text \<open>The search in a block is the search in the list of its entries.\<close>

lemma find_entry_dents:
  assumes "\<forall>e \<in> set es. dent_ok e" "cstr name" "bs = length (pre @ dir_bytes es)"
  shows "find_entry (name @ 0 # r) (pre @ dir_bytes es) bs (length pre) =
    Some (entry_of name es)"
  using assms
proof (induction es arbitrary: pre)
  case Nil
  then show ?case by (simp add: find_entry.simps)
next
  case (Cons e es)
  let ?buf = "pre @ dir_bytes (e # es)"
  have buf: "?buf = pre @ dent_bytes e @ dir_bytes es" by simp
  note f = entry_fields [OF buf] name_matches_entry [OF buf _ Cons.prems(2), of r]
  have IH: "find_entry (name @ 0 # r) ?buf bs (length pre + dent_len e) =
      Some (entry_of name es)"
    using Cons.IH [of "pre @ dent_bytes e"] Cons.prems by simp
  have "length pre < bs" using Cons.prems(3) dent_len_pos(2) [of e] by simp
  then show ?case
    using IH f Cons.prems(1) by (subst find_entry.simps) (auto split: bool.split)
qed


section \<open>Adding to a list of entries\<close>

text \<open>
  The entry that gives up its unused bytes, and the new entry in them: the terminator of the name is
  the first byte of its padding.
\<close>

definition shrink :: "dent \<Rightarrow> dent" where
  "shrink e = e\<lparr>dn_pad := take (min_len (dn_name e) - 8 - length (dn_name e)) (dn_pad e)\<rparr>"

definition unused :: "dent \<Rightarrow> bytes" where
  "unused e = drop (min_len (dn_name e) - 8 - length (dn_name e)) (dn_pad e)"

definition dent_in :: "u32 \<Rightarrow> u8 \<Rightarrow> bytes \<Rightarrow> dent \<Rightarrow> dent" where
  "dent_in ino ft name e = \<lparr>dn_ino = ino, dn_type = ft, dn_name = name, dn_pad = 0 # drop (9 + length name) (unused e)\<rparr>"

definition has_room :: "bytes \<Rightarrow> dent \<Rightarrow> bool" where
  "has_room name e \<longleftrightarrow> dn_ino e \<noteq> 0 \<and> min_len name \<le> length (unused e)"

fun insert_dent :: "u32 \<Rightarrow> u8 \<Rightarrow> bytes \<Rightarrow> dent list \<Rightarrow> dent list option" where
  "insert_dent ino ft name [] = None"
| "insert_dent ino ft name (e # es) =
     (if has_room name e then Some (shrink e # dent_in ino ft name e # es)
      else map_option ((#) e) (insert_dent ino ft name es))"

lemma min_len_bounds: "8 + length name \<le> min_len name" "min_len name < 12 + length name"
  unfolding min_len_def by presburger+

lemma min_len_slack: "\<not> 4 dvd length name \<Longrightarrow> 8 + length name < min_len name"
  unfolding min_len_def by presburger

lemma clear_low_bits: "(x :: u32) AND NOT (mask n) = push_bit n (drop_bit n x)"
  by (auto intro!: bit_word_eqI simp: bit_simps)

lemma unat_entry_len:
  assumes "length name < 2 ^ 16"
  shows "unat (entry_len (word_of_nat (length name))) = min_len name"
proof -
  let ?x = "word_of_nat (length name + 11) :: u32"
  have x: "unat ?x = length name + 11" using assms by (intro of_nat_inverse [OF refl]) simp
  have "mask 2 = (3 :: u32)" by (simp add: mask_eq_exp_minus_1)
  moreover have "entry_len (word_of_nat (length name)) = ?x AND NOT 3"
    by (simp add: entry_len_def add.commute)
  ultimately have "entry_len (word_of_nat (length name)) = push_bit 2 (drop_bit 2 ?x)" by (simp only: clear_low_bits flip: \<open>mask 2 = 3\<close>)
  moreover have "(length name + 11) div 4 * 4 < 2 ^ 32" using assms by simp
  ultimately show ?thesis
    using x by (simp add: push_bit_eq_mult drop_bit_eq_div unat_word_ariths(2) unat_div min_len_def)
qed

lemma dent_split:
  assumes "dent_ok e"
  shows "dent_len (shrink e) = min_len (dn_name e)" "dent_len e = min_len (dn_name e) + length (unused e)"
    "dn_pad e = dn_pad (shrink e) @ unused e"
  using assms min_len_bounds(1) [of "dn_name e"]
  by (auto simp: dent_ok_def dent_len_def shrink_def unused_def min_def)

lemma put_at_mid: "length x = length y \<Longrightarrow> put_at (a @ x @ b) (length a) y = Some (a @ y @ b)"
  by (simp add: put_at_def put_bytes_def)

lemma put_entry_at:
  assumes "buf = pre @ old" "off = length pre" "9 + length name \<le> length old" "cstr name" "length name < 256"
  shows "put_entry buf off ino rl (word_of_nat (length name)) ft (name @ 0 # r) =
    Some (pre @ le32 ino @ le16 rl @ [word_of_nat (length name), ft] @ name @ 0 # drop (9 + length name) old)"
proof -
  let ?h = "le32 ino @ le16 rl @ [ucast (word_of_nat (length name) :: u32), ft]" and ?n = "length name"
  have u: "unat (word_of_nat ?n :: u32) = ?n" using assms(5) by (intro of_nat_inverse [OF refl]) simp
  then have h: "ucast (word_of_nat ?n :: u32) = (word_of_nat ?n :: u8)" by (metis of_nat_unat)
  define o1 o2 o3 o4 where "o1 = take 8 old" "o2 = take ?n (drop 8 old)" "o3 = take 1 (drop (8 + ?n) old)"
    "o4 = drop (9 + ?n) old"
  note o_defs = this
  have "drop 8 old = o2 @ drop (8 + ?n) old"
    using append_take_drop_id [of ?n "drop 8 old"] by (simp add: o_defs add.commute)
  moreover have "drop (8 + ?n) old = o3 @ o4"
    using append_take_drop_id [of 1 "drop (8 + ?n) old"] by (simp add: o_defs add.commute)
  ultimately have "drop 8 old = o2 @ o3 @ o4" by simp
  then have old: "old = o1 @ o2 @ o3 @ o4"
    using append_take_drop_id [of 8 old] unfolding o_defs(1) by metis
  have len: "length o1 = 8" "length o2 = ?n" "length o3 = 1" using assms(3) by (simp_all add: o_defs)
  have "put_at (pre @ o1 @ o2 @ o3 @ o4) (length pre) ?h = Some (pre @ ?h @ o2 @ o3 @ o4)"
    using len by (intro put_at_mid) simp
  moreover have "put_at (pre @ ?h @ o2 @ o3 @ o4) (length pre + 8) name = Some (pre @ ?h @ name @ o3 @ o4)"
    using put_at_mid [of o2 name "pre @ ?h" "o3 @ o4"] len by simp
  moreover have "put_at (pre @ ?h @ name @ o3 @ o4) (length pre + 8 + ?n) [0] = Some (pre @ ?h @ name @ [0] @ o4)"
    using put_at_mid [of o3 "[0]" "pre @ ?h @ name" o4] len by (simp add: add.assoc)
  ultimately show ?thesis
    using strncpy_bytes_exact [OF assms(4), of "0 # r"] u
    unfolding put_entry_def assms(1,2) o_defs(4) [symmetric] unfolding old by (simp add: h)
qed

text \<open>What the entry keeps, with the record length as a parameter.\<close>

definition head_bytes :: "u16 \<Rightarrow> dent \<Rightarrow> bytes" where
  "head_bytes rl e = le32 (dn_ino e) @ le16 rl @ [word_of_nat (length (dn_name e)), dn_type e] @ dn_name e @ dn_pad (shrink e)"

lemma head_bytes:
  assumes "dent_ok e"
  shows "dent_bytes e = head_bytes (word_of_nat (dent_len e)) e @ unused e"
    and "dent_bytes (shrink e) = head_bytes (word_of_nat (min_len (dn_name e))) e"
    and "length (head_bytes rl e) = min_len (dn_name e)"
    and "put_at (pre @ head_bytes rl e @ post) (length pre + 4) (le16 rl') = Some (pre @ head_bytes rl' e @ post)"
proof -
  have f: "dn_ino (shrink e) = dn_ino e" "dn_type (shrink e) = dn_type e" "dn_name (shrink e) = dn_name e"
    by (simp_all add: shrink_def)
  show "dent_bytes e = head_bytes (word_of_nat (dent_len e)) e @ unused e"
    unfolding dent_bytes_def head_bytes_def using dent_split(3) [OF assms] by simp
  show "dent_bytes (shrink e) = head_bytes (word_of_nat (min_len (dn_name e))) e"
    unfolding dent_bytes_def head_bytes_def f dent_split(1) [OF assms] ..
  show "length (head_bytes rl e) = min_len (dn_name e)"
    using dent_split(1) [OF assms] by (simp add: head_bytes_def dent_len_def f)
  show "put_at (pre @ head_bytes rl e @ post) (length pre + 4) (le16 rl') = Some (pre @ head_bytes rl' e @ post)"
    by (simp add: put_at_def put_bytes_def head_bytes_def)
qed

lemma add_words:
  assumes "dent_ok e"
  shows "unat (entry_len (ucast (word_of_nat (length (dn_name e)) :: u8))) = min_len (dn_name e)"
    and "unat (ucast (word_of_nat (dent_len e) :: u16) - entry_len (ucast (word_of_nat (length (dn_name e)) :: u8))) = length (unused e)"
proof -
  have "(ucast (word_of_nat (length (dn_name e)) :: u8) :: u32) = word_of_nat (length (dn_name e))"
    using assms by (intro word_unat_eq_iff [THEN iffD2]) (simp add: dent_ok_def unsigned_ucast_eq unsigned_of_nat take_bit_nat_eq_self)
  then show a: "unat (entry_len (ucast (word_of_nat (length (dn_name e)) :: u8))) = min_len (dn_name e)"
    using assms by (simp add: unat_entry_len dent_ok_def)
  have "unat (ucast (word_of_nat (dent_len e) :: u16) :: u32) = dent_len e"
    using unat_dent_len [OF assms] assms by (simp add: unsigned_ucast_eq take_bit_nat_eq_self dent_ok_def)
  then show "unat (ucast (word_of_nat (dent_len e) :: u16) - entry_len (ucast (word_of_nat (length (dn_name e)) :: u8))) = length (unused e)"
    using dent_split(2) [OF assms] a by (simp add: unat_sub word_le_nat_alt)
qed

lemma ucast_unat_u16: "unat (w :: u32) = n \<Longrightarrow> (ucast w :: u16) = word_of_nat n"
  by auto


text \<open>The entry that has room takes the new entry behind it.\<close>

lemma add_here:
  assumes "dent_ok e" "has_room name e" "cstr name" "length name < 256" "9 + length name \<le> length (unused e @ post)"
    and "length pre < unat block_size"
  shows "add_in_block (name @ 0 # r) (word_of_nat (length name)) ino ft (pre @ dent_bytes e @ post) block_size (length pre) =
    Some (Split_slot (pre @ dent_bytes (shrink e) @ le32 ino @ le16 (word_of_nat (length (unused e)))
      @ [word_of_nat (length name), ft] @ name @ 0 # drop (9 + length name) (unused e @ post)))"
proof -
  let ?act = "entry_len (ucast (word_of_nat (length (dn_name e)) :: u8))"
  let ?free = "ucast (word_of_nat (dent_len e) :: u16) - ?act"
  let ?new = "le32 ino @ le16 (word_of_nat (length (unused e))) @ [word_of_nat (length name), ft] @ name
      @ 0 # drop (9 + length name) (unused e @ post)"
  note w = add_words [OF assms(1)] and u16 = ucast_unat_u16
  have buf: "pre @ dent_bytes e @ post = (pre @ head_bytes (word_of_nat (dent_len e)) e) @ unused e @ post"
    using head_bytes(1) [OF assms(1)] by simp
  have put: "put_entry (pre @ dent_bytes e @ post) (length pre + unat ?act) ino (ucast ?free) (word_of_nat (length name)) ft (name @ 0 # r)
      = Some (pre @ head_bytes (word_of_nat (dent_len e)) e @ ?new)"
    using put_entry_at [OF buf _ assms(5,3,4)] head_bytes(3) [OF assms(1)] w u16 [OF w(2)] by simp
  have room: "entry_len (word_of_nat (length name)) \<le> ?free"
    using assms(2,4) w(2) by (simp add: word_le_nat_alt unat_entry_len has_room_def)
  show ?thesis
    using entry_fields [OF refl, of pre e post] put room assms(1,2,6) u16 [OF w(1)]
      head_bytes(2) [OF assms(1)] head_bytes(4) [OF assms(1)]
    by (subst add_in_block.simps) (simp add: Let_def has_room_def)
qed

text \<open>The other entries are passed over.\<close>

lemma add_later:
  assumes "dent_ok e" "\<not> has_room name e" "length name < 256" "length pre < unat block_size"
  shows "add_in_block (name @ 0 # r) (word_of_nat (length name)) ino ft (pre @ dent_bytes e @ post) block_size (length pre) =
    add_in_block (name @ 0 # r) (word_of_nat (length name)) ino ft (pre @ dent_bytes e @ post) block_size (length (pre @ dent_bytes e))"
proof -
  let ?free = "ucast (word_of_nat (dent_len e) :: u16) - entry_len (ucast (word_of_nat (length (dn_name e)) :: u8))"
  have "dn_ino e = 0 \<or> \<not> entry_len (word_of_nat (length name)) \<le> ?free"
    using assms(2,3) add_words(2) [OF assms(1)] by (auto simp: word_le_nat_alt unat_entry_len has_room_def)
  then show ?thesis
    using entry_fields [OF refl, of pre e post] assms(1,4) by (subst add_in_block.simps) (auto simp: Let_def)
qed

lemma dent_in_bytes:
  assumes "9 + length name \<le> length (unused e)"
  shows "dent_bytes (dent_in ino ft name e) = le32 ino @ le16 (word_of_nat (length (unused e)))
      @ [word_of_nat (length name), ft] @ name @ 0 # drop (9 + length name) (unused e)"
proof -
  have "dent_len (dent_in ino ft name e) = length (unused e)" using assms by (simp add: dent_len_def dent_in_def)
  then show ?thesis by (simp add: dent_bytes_def dent_in_def)
qed

text \<open>
  A name whose length is not a multiple of 4 has its terminator in its entry: adding it to a block
  is adding it to the list of entries.
\<close>

lemma add_in_block_dents:
  assumes "\<forall>e \<in> set es. dent_ok e" "cstr name" "length name < 256" "\<not> 4 dvd length name"
    and "unat block_size = length (pre @ dir_bytes es)"
  shows "add_in_block (name @ 0 # r) (word_of_nat (length name)) ino ft (pre @ dir_bytes es) block_size (length pre) =
    Some (case insert_dent ino ft name es of None \<Rightarrow> No_slot | Some es' \<Rightarrow> Split_slot (pre @ dir_bytes es'))"
  using assms
proof (induction es arbitrary: pre)
  case Nil
  then show ?case by (simp add: add_in_block.simps)
next
  case (Cons e es)
  have ok: "dent_ok e" and lt: "length pre < unat block_size" using Cons.prems(1,5) dent_len_pos [of e] by auto
  show ?case
  proof (cases "has_room name e")
    case True
    then have "9 + length name \<le> length (unused e)"
      using min_len_slack [OF Cons.prems(4)] by (simp add: has_room_def)
    then show ?thesis
      using add_here [OF ok True Cons.prems(2,3) _ lt, of "dir_bytes es" r ino ft] True
      by (simp add: dent_in_bytes)
  next
    case False
    then show ?thesis
      using add_later [OF ok False Cons.prems(3) lt, of r ino ft "dir_bytes es"] Cons.IH [of "pre @ dent_bytes e"] Cons.prems
      by (simp split: option.split)
  qed
qed


text \<open>The two entries that take the place of one.\<close>

lemma room_facts:
  assumes "has_room name e" "dent_ok e" "length name < 256" "\<not> 4 dvd length name"
  shows "dent_ok (shrink e)" "dent_ok (dent_in ino ft name e)"
    "dent_len (shrink e) + dent_len (dent_in ino ft name e) = dent_len e"
proof -
  have le: "9 + length name \<le> length (unused e)" "min_len name \<le> length (unused e)"
    using assms(1) min_len_slack [OF assms(4)] by (simp_all add: has_room_def)
  then have l: "dent_len (dent_in ino ft name e) = length (unused e)" by (simp add: dent_len_def dent_in_def)
  note sp = dent_split(1,2) [OF assms(2)]
  have lt: "dent_len e < 2 ^ 16" "length (dn_name e) < 256" using assms(2) by (simp_all add: dent_ok_def)
  have n: "dn_name (shrink e) = dn_name e" "dn_name (dent_in ino ft name e) = name" by (simp_all add: shrink_def dent_in_def)
  show "dent_len (shrink e) + dent_len (dent_in ino ft name e) = dent_len e" using sp l by simp
  show "dent_ok (shrink e)" unfolding dent_ok_def n using sp lt by simp
  show "dent_ok (dent_in ino ft name e)" unfolding dent_ok_def l n using sp lt le assms(3) by simp
qed

lemma insert_dent_ok:
  assumes "insert_dent ino ft name es = Some es'" "\<forall>e \<in> set es. dent_ok e" "length name < 256" "\<not> 4 dvd length name"
  shows "(\<forall>e \<in> set es'. dent_ok e) \<and> length (dir_bytes es') = length (dir_bytes es)"
  using assms
proof (induction es arbitrary: es')
  case (Cons e es)
  show ?case
  proof (cases "has_room name e")
    case True
    then show ?thesis using Cons.prems room_facts(1) [OF True] room_facts(2,3) [OF True, of ino ft] by auto
  next
    case False
    then show ?thesis using Cons by auto
  qed
qed simp

lemma insert_dent_entry:
  assumes "insert_dent ino ft name es = Some es'" "ino \<noteq> 0" "entry_of name es = None"
  shows "entry_of name' es' = (if name' = name then Some ino else entry_of name' es)"
  using assms
proof (induction es arbitrary: es')
  case (Cons e es)
  then show ?case by (cases "has_room name e") (auto simp: shrink_def dent_in_def has_room_def split: if_splits)
qed simp

section \<open>Lookup on a disk\<close>

text \<open>The entries of a directory, block by block; a hole has none.\<close>

definition dir_on :: "geom \<Rightarrow> (u64 \<Rightarrow> bytes option) \<Rightarrow> ext2_inode \<Rightarrow> dent list list \<Rightarrow> bool" where
  "dir_on G v inode ess = (\<forall>i < length ess. (\<forall>e \<in> set (ess ! i). dent_ok e) \<and> (\<exists>b. bmap G v inode i = Some b \<and>
     (if b = 0 then ess ! i = [] else v (blkno (unat b)) = Some (dir_bytes (ess ! i)))))"

lemma num_dir_blocks_words:
  assumes "unat sz + unat b < 2 ^ 32" "b \<noteq> 0"
  obtains n where "num_dir_blocks sz b = Some n" "unat n = (unat sz + unat b - 1) div unat b"
proof
  show "num_dir_blocks sz b = Some ((sz + b - 1) div b)" using assms(2) by (simp add: num_dir_blocks_def)
  have "unat (sz + b) = unat sz + unat b" using assms(1) by (subst unat_add_lem [THEN iffD1]) simp_all
  moreover have "1 \<le> unat b" using assms(2) by (simp add: unat_gt_0 Suc_leI)
  ultimately show "unat ((sz + b - 1) div b) = (unat sz + unat b - 1) div unat b"
    by (simp add: unat_div unat_sub word_le_nat_alt)
qed

context block_dev
begin

lemma lookup_from_ok:
  assumes "fs_ok s" "G = geom_of (k_fs s)" "v = view (k_cache s)" "file_ok G v inode" "bs \<le> 2 ^ 16"
    and "length bb = bs" "cstr name" "dir_on G v inode ess" "length ess < 2 ^ 32" "\<forall>i \<in> set is. i < length ess"
    and "fits (length is * (2 * (bs + 15))) s"
  shows "wp (lookup_from is inode (name @ 0 # r) (fs_block_size (k_fs s)) bb)
    (\<lambda>ino s'. same (length is * (2 * (bs + 15))) s s' \<and> entry_of name (concat (map ((!) ess) is)) = Some ino)
    (\<lambda>e s'. same (length is * (2 * (bs + 15))) s s' \<and> e = ERR_NOT_FOUND \<and> entry_of name (concat (map ((!) ess) is)) = None) s"
  using assms
proof (induction "is" arbitrary: s bb)
  case Nil
  then show ?case by (simp add: wp_simps same_refl fs_ok_def)
next
  case (Cons i "is")
  let ?m = "2 * (bs + 15)" and ?bs = "fs_block_size (k_fs s)"
  let ?Q = "\<lambda>ino s'. same (length (i # is) * ?m) s s' \<and> entry_of name (concat (map ((!) ess) (i # is))) = Some ino"
  let ?E = "\<lambda>e s'. same (length (i # is) * ?m) s s' \<and> e = ERR_NOT_FOUND \<and> entry_of name (concat (map ((!) ess) (i # is))) = None"
  have i: "unat (word_of_nat i :: u32) = i" using Cons.prems(9,10) by (intro of_nat_inverse [OF refl]) simp
  obtain b where b: "bmap G v inode i = Some b" "if b = 0 then ess ! i = [] else v (blkno (unat b)) = Some (dir_bytes (ess ! i))"
    and ok: "\<forall>e \<in> set (ess ! i). dent_ok e"
    using Cons.prems(8,10) unfolding dir_on_def by auto
  have m: "length (i # is) * ?m = ?m + length is * ?m" by simp
  have rest: "wp (lookup_from is inode (name @ 0 # r) ?bs bb') ?Q ?E t"
    if t: "same ?m s t" "length bb' = bs" "entry_of name (ess ! i) = None" for t bb'
  proof -
    have t': "fs_ok t" "k_fs t = k_fs s" "view (k_cache t) = view (k_cache s)"
      using fs_ok_same [OF Cons.prems(1) t(1)] t(1) by (simp_all add: same_def)
    have "fits (length is * ?m) t" using t(1) Cons.prems(11) unfolding m by (simp only: same_def spent_def)
    then have "wp (lookup_from is inode (name @ 0 # r) ?bs bb')
        (\<lambda>ino s'. same (length is * ?m) t s' \<and> entry_of name (concat (map ((!) ess) is)) = Some ino)
        (\<lambda>e s'. same (length is * ?m) t s' \<and> e = ERR_NOT_FOUND \<and> entry_of name (concat (map ((!) ess) is)) = None) t"
      using Cons.IH [OF t'(1) _ _ Cons.prems(4,5) t(2) Cons.prems(7-9)] t' Cons.prems(2,3,10) by simp
    then show ?thesis
      by (rule wp_conseq) (use same_trans [OF t(1)] t(3) in \<open>simp_all only: m, simp_all add: entry_of_append\<close>)
  qed
  have fit: "fits ?m s" using Cons.prems(11) unfolding m by (rule fits_mono) simp
  show ?case
    unfolding lookup_from.simps wp_bindP [of "tryP (ext2_get_block_num inode (word_of_nat i))"] wp_tryP
  proof (rule wp_conseq [OF get_block_num_ok [OF Cons.prems(1-5)]], goal_cases)
    case (1 b' t)
    then have t: "same ?m s t" "b' = b" using i b(1) by simp_all
    show ?case
    proof (cases "b = 0")
      case True
      then show ?thesis using rest [OF t(1) Cons.prems(6)] b(2) t(2) by simp
    next
      case False
      have t': "fs_ok t" "k_fs t = k_fs s" "view (k_cache t) = view (k_cache s)"
        using fs_ok_same [OF Cons.prems(1) t(1)] t(1) by (simp_all add: same_def)
      have lt: "unat b < g_blocks (geom_of (k_fs t))"
        using file_okD(2) [OF Cons.prems(4), of "Inl i"] ref_blk_bmap [OF b(1)] False t'(2) Cons.prems(2) by simp
      have "wp (cache_read (ucast b) bb) (\<lambda>x. wp (bindP (the_or_ub (find_entry (name @ 0 # r) (snd x) (unat ?bs) 0)) (\<lambda>found.
          case found of Some ino \<Rightarrow> ret ino | None \<Rightarrow> lookup_from is inode (name @ 0 # r) ?bs (snd x))) ?Q ?E) ?E t"
      proof (rule cache_read_block [OF t'(1) lt Cons.prems(6)], goal_cases)
        case (1 u c)
        have c: "c = dir_bytes (ess ! i)" using 1(2) b(2) False t'(3) Cons.prems(3) by simp
        have u: "same ?m s u" using same_trans [OF t(1) 1(1)] by simp
        have "find_entry (name @ 0 # r) c (unat ?bs) 0 = Some (entry_of name (ess ! i))"
          using find_entry_dents [OF ok Cons.prems(7), of "unat ?bs" "[]" r] c 1(3) block_size_pos [OF Cons.prems(1)] by simp
        then show ?case
          using rest [OF u 1(3)] same_mono [OF u, of "length (i # is) * ?m"]
          by (auto simp: wp_simps entry_of_append split: option.split)
      qed
      then show ?thesis using False t(2) by (simp add: wp_bindP case_prod_beta)
    qed
  next
    case (2 e t)
    then show ?case using fit i b(1) by (auto simp: no_mem_def)
  qed
qed

lemma lookup_ok:
  assumes "fs_ok s" "G = geom_of (k_fs s)" "v = view (k_cache s)" "has_inode G (unat parent_ino)"
    and "inode = inode_at G v (unat parent_ino)" "i_mode inode AND 0xF000 = EXT2_S_IFDIR" "file_ok G v inode" "bs \<le> 2 ^ 16"
    and "dir_on G v inode ess" "unat (i_size inode) + bs < 2 ^ 32" "length ess = (unat (i_size inode) + bs - 1) div bs" "cstr name"
    and "fits ((1 + length ess) * (2 * (bs + 15))) s"
  shows "wp (ext2_lookup parent_ino (name @ 0 # r))
    (\<lambda>ino s'. same ((1 + length ess) * (2 * (bs + 15))) s s' \<and> entry_of name (concat ess) = Some ino)
    (\<lambda>e s'. same ((1 + length ess) * (2 * (bs + 15))) s s' \<and> e = ERR_NOT_FOUND \<and> entry_of name (concat ess) = None) s"
  unfolding ext2_lookup_def wp_bindP [of "ext2_read_inode parent_ino"]
proof (rule wp_conseq [OF read_inode_ok [OF assms(1,2,4)]], goal_cases)
  case (1 i t)
  let ?bs = "fs_block_size (k_fs s)" and ?m = "2 * (bs + 15)" and ?n = "length ess"
  let ?Q = "\<lambda>ino s'. same ((1 + ?n) * ?m) s s' \<and> entry_of name (concat ess) = Some ino"
  let ?E = "\<lambda>e s'. same ((1 + ?n) * ?m) s s' \<and> e = ERR_NOT_FOUND \<and> entry_of name (concat ess) = None"
  have t: "same (bs + 15) s t" "i = inode" using 1 assms(3,5) by simp_all
  have fit: "fits (bs + 15 + ?n * ?m) t"
    using t(1) assms(13) by (simp add: same_def spent_def algebra_simps)
  have t': "fs_ok t" "k_fs t = k_fs s" "view (k_cache t) = view (k_cache s)"
    using fs_ok_same [OF assms(1) t(1)] t(1) by (simp_all add: same_def)
  note b = block_size_pos [OF assms(1)] and sz = block_size_word [OF assms(1)]
  obtain nb where nb: "num_dir_blocks (i_size inode) ?bs = Some nb" "unat nb = ?n"
    using num_dir_blocks_words [of "i_size inode" ?bs] b assms(10,11) by auto
  have lt: "?n < 2 ^ 32" using nb(2) unat_u32_lt [of nb] by simp
  have "wp (alloc_buffer (ucast ?bs)) (\<lambda>bb. wp (lookup_from [0..<?n] inode (name @ 0 # r) ?bs bb) ?Q ?E) ?E t"
  proof (rule alloc_spent_rule, goal_cases)
    case (1 h)
    let ?u = "t\<lparr>k_heap := h\<rparr>"
    have u: "same (bs + 15) t ?u" using 1 sz t'(1) by (simp add: same_def fs_ok_def)
    have b': "fs_block_size (k_fs ?u) = ?bs" using t'(2) by simp
    have "fits (?n * ?m) ?u" using u fit by (simp add: same_def spent_def)
    then have "wp (lookup_from [0..<?n] inode (name @ 0 # r) ?bs (replicate (unat (ucast ?bs :: u64)) 0))
      (\<lambda>ino s'. same (length [0..<?n] * ?m) ?u s' \<and> entry_of name (concat (map ((!) ess) [0..<?n])) = Some ino)
      (\<lambda>e s'. same (length [0..<?n] * ?m) ?u s' \<and> e = ERR_NOT_FOUND \<and> entry_of name (concat (map ((!) ess) [0..<?n])) = None) ?u"
      unfolding b' [symmetric] by (intro lookup_from_ok [OF fs_ok_same [OF t'(1) u]]) (use assms(2,3,7-9,12) lt t' sz in simp_all)
    moreover have "same ((1 + ?n) * ?m) s s'" if "same (length [0..<?n] * ?m) ?u s'" for s'
      using same_trans [OF same_trans [OF t(1) u] that] by (simp add: algebra_simps)
    ultimately show ?case by (elim wp_conseq) (simp_all add: map_nth)
  next
    case 2
    then show ?case using fit sz fits_mono [of "bs + 15 + ?n * ?m" t "bs + 15"] by simp
  qed
  then show ?case using t(2) t'(2) nb assms(6) by (simp add: wp_bindP wp_gets wp_the_or_ub)
next
  case (2 e t)
  then show ?case using fits_mono [OF assms(13), of "bs + 15"] by (simp add: no_mem_def)
qed

end


section \<open>Properties\<close>

text \<open>
  C11. \<^verbatim>\<open>ext2_lookup\<close> is the search in the list of entries of the directory: it returns the inode of
  the first used entry with the name and fails with \<^verbatim>\<open>ERR_NOT_FOUND\<close> just when there is none, for a
  directory in order and a heap with room for its buffers.  Disk and file system are unchanged.
\<close>

theorem lookup_correct:
  assumes "ext2_ok bs s" "G = geom_of (k_fs s)" "v = ram_view bs (k_cache s)" "has_inode G (unat parent_ino)"
    and "inode = inode_at G v (unat parent_ino)" "i_mode inode AND 0xF000 = EXT2_S_IFDIR" "file_ok G v inode" "bs \<le> 2 ^ 16"
    and "dir_on G v inode ess" "unat (i_size inode) + bs < 2 ^ 32" "length ess = (unat (i_size inode) + bs - 1) div bs" "cstr name"
    and "fits ((1 + length ess) * (2 * (bs + 15))) s"
  shows "wp (ext2_lookup parent_ino (name @ 0 # r))
    (\<lambda>ino s'. entry_of name (concat ess) = Some ino \<and> ram_view bs (k_cache s') = v \<and> k_fs s' = k_fs s)
    (\<lambda>e s'. e = ERR_NOT_FOUND \<and> entry_of name (concat ess) = None \<and> ram_view bs (k_cache s') = v \<and> k_fs s' = k_fs s) s"
  by (rule wp_conseq [OF ram.lookup_ok [OF assms(1) [folded ram_fs_ok] assms(2-13)]])
    (simp_all add: ram.same_def assms(3))


text \<open>A list of entries that is passed over.\<close>

lemma add_skip:
  assumes "\<forall>e \<in> set es. dent_ok e \<and> \<not> has_room name e" "length name < 256" "length (pre @ dir_bytes es) \<le> unat block_size"
  shows "add_in_block (name @ 0 # r) (word_of_nat (length name)) ino ft (pre @ dir_bytes es @ post) block_size (length pre) =
    add_in_block (name @ 0 # r) (word_of_nat (length name)) ino ft (pre @ dir_bytes es @ post) block_size (length (pre @ dir_bytes es))"
  using assms
proof (induction es arbitrary: pre)
  case (Cons e es)
  have "length pre < unat block_size" using Cons.prems(3) dent_len_pos(2) [of e] by simp
  then show ?case
    using add_later [of e name pre block_size r ino ft "dir_bytes es @ post"] Cons.IH [of "pre @ dent_bytes e"] Cons.prems
    by (simp add: add.assoc)
qed simp

text \<open>A zero in the first byte of an entry: an inode number below 256 is lost.\<close>

lemma zero_first_byte:
  assumes "unat (dn_ino e) < 256"
  shows "0 # drop 1 (dent_bytes e) = dent_bytes (e\<lparr>dn_ino := 0\<rparr>)"
proof -
  have "drop_bit 8 (dn_ino e) = 0" "drop_bit 16 (dn_ino e) = 0" "drop_bit 24 (dn_ino e) = 0"
    using assms by (simp_all add: word_unat_eq_iff drop_bit_eq_div unat_div)
  then show ?thesis by (simp add: dent_bytes_def dent_len_def le32_def)
qed




text \<open>The entries of the root directory of the demonstration disk, and a block with a file in it.\<close>

definition demo_dents :: "dent list" where
  "demo_dents = [\<lparr>dn_ino = 2, dn_type = 2, dn_name = [0x2E], dn_pad = [0, 0, 0]\<rparr>,
     \<lparr>dn_ino = 2, dn_type = 2, dn_name = [0x2E, 0x2E], dn_pad = replicate 1002 0\<rparr>]"

lemma demo_dents_bytes: "dir_bytes demo_dents = demo_blocks ! 6"
  by (simp add: demo_dents_def dent_bytes_def dent_len_def demo_blocks_def le32_def le16_def)

lemma demo_dents_ok: "\<forall>e \<in> set demo_dents. dent_ok e"
  by (simp add: demo_dents_def dent_ok_def dent_len_def min_len_def)

theorem lookup_correct_witness:
  "\<exists>c. wp (ext2_lookup 2 [0x2E, 0x2E, 0]) (\<lambda>ino _. ino = 2) (\<lambda>_ _. False) (demo_state c) \<and>
    wp (ext2_lookup 2 [0x41, 0]) (\<lambda>_ _. False) (\<lambda>e _. e = ERR_NOT_FOUND) (demo_state c)"
proof -
  obtain c where c: "ext2_ok 1024 (demo_state c)" and m: "\<And>m. m < 16 \<Longrightarrow> ram_view 1024 c (blkno m) = Some (demo_blocks ! m)"
    by (rule demo_ext2_ok) blast
  let ?G = "geom_of (k_fs (demo_state c))" and ?v = "ram_view 1024 c"
  have root: "inode_at ?G ?v 2 = demo_root"
    using m [of 5] decode_encode_inode [OF demo_root_wf, of "[]"]
    by (simp add: inode_at_def iblk_def ioff_def demo_geom demo_blocks_def get_bytes_def length_encode_inode demo_root_wf)
  have "bmap ?G ?v demo_root 0 = Some 6" by (simp add: bmap_def demo_root_def)
  then have dir: "dir_on ?G ?v demo_root [demo_dents]"
    using m [of 6] demo_dents_ok demo_dents_bytes by (simp add: dir_on_def)
  have "wp (ext2_lookup 2 (name @ 0 # []))
      (\<lambda>ino s'. entry_of name (concat [demo_dents]) = Some ino \<and> ram_view 1024 (k_cache s') = ?v \<and> k_fs s' = k_fs (demo_state c))
      (\<lambda>e s'. e = ERR_NOT_FOUND \<and> entry_of name (concat [demo_dents]) = None \<and> ram_view 1024 (k_cache s') = ?v \<and> k_fs s' = k_fs (demo_state c))
      (demo_state c)" if "cstr name" for name
    by (rule lookup_correct [OF c refl, where inode = demo_root])
      (use m [of 3] demo_root_ok [of c] root dir that in \<open>simp_all add: demo_free demo_root_size has_inode_def demo_geom demo_root_def EXT2_S_IFDIR_def\<close>)
  from this [of "[0x2E, 0x2E]"] this [of "[0x41]"] have
    "wp (ext2_lookup 2 [0x2E, 0x2E, 0]) (\<lambda>ino _. ino = 2) (\<lambda>_ _. False) (demo_state c)"
    "wp (ext2_lookup 2 [0x41, 0]) (\<lambda>_ _. False) (\<lambda>e _. e = ERR_NOT_FOUND) (demo_state c)"
    by (auto simp: demo_dents_def elim!: wp_conseq)
  then show ?thesis by blast
qed


text \<open>The second entry is in the way of a name of four bytes.\<close>

definition demo_tight :: "dent list" where
  "demo_tight = [\<lparr>dn_ino = 2, dn_type = 2, dn_name = [0x2E], dn_pad = replicate 15 0\<rparr>,
     \<lparr>dn_ino = 11, dn_type = 1, dn_name = [0x66], dn_pad = replicate 991 0\<rparr>]"


end
