(* ===== verification/Vfs.thy ===== *)
theory Vfs
  imports Ext2_Dir
begin

unbundle bit_operations_syntax

text \<open>
  The virtual file system, \<^verbatim>\<open>src/vfs/vfs.c\<close>.  Nodes and mount points live in stores that are
  addressed by the offset of their block in the kernel heap; \<^verbatim>\<open>NULL\<close> is \<open>None\<close>.  The heap position and
  \<^verbatim>\<open>system_time\<close> are those of the kernel state \<open>v_k\<close>, which also holds the file system behind the
  callbacks.  Functions that follow the links of the nodes may not return; this is the value
  \<open>None\<close>, as is a read past the end of an array.  The table of operations a node points to is
  an argument \<open>tab\<close> of the functions that call through it.  An array on the stack is not
  initialised: \<open>stk k\<close> is what the array of the call number \<open>k\<close> holds at first.
\<close>

section \<open>Data\<close>

record vfs_node =
  n_name :: bytes
  n_inode :: u64
  n_mode :: u64
  n_size :: u64
  n_permissions :: u64
  n_owner_uid :: u64
  n_owner_gid :: u64
  n_create_time :: u64
  n_access_time :: u64
  n_modify_time :: u64
  n_link_count :: u64
  n_ops :: "u64 option"
  n_fs_data :: "u64 option"
  n_mount_point :: "u64 option"
  n_next :: "u64 option"
  n_prev :: "u64 option"
  n_parent :: "u64 option"
  n_children :: "u64 option"

record mount_point =
  mp_device :: bytes
  mp_fstype :: bytes
  mp_mount_point :: "u64 option"
  mp_root :: "u64 option"
  mp_fs_data :: "u64 option"
  mp_next :: "u64 option"

record file_descriptor =
  fd_node :: "u64 option"
  fd_offset :: u64
  fd_flags :: u32
  fd_reference_count :: u32

text \<open>
  The globals, with the globals of \<^verbatim>\<open>ext2_init.c\<close> that other files use: the root node of the mounted
  file system and the blocks that \<^verbatim>\<open>fs_data\<close> points to, which hold an inode number.  \<open>v_base\<close> is the
  address of the heap.
\<close>

record 'd vfs =
  v_k :: "'d kstate"
  v_nodes :: "u64 \<Rightarrow> vfs_node option"
  v_mps :: "u64 \<Rightarrow> mount_point option"
  v_data :: "u64 \<Rightarrow> u32 option"
  v_root :: "u64 option"
  v_mount_points :: "u64 option"
  v_fds :: "file_descriptor list"
  v_ext2_root :: "u64 option"
  v_base :: u64

record 'd vfs_ops =
  op_open :: "(u64 \<Rightarrow> u32 \<Rightarrow> ('d vfs, i32) prog) option"
  op_close :: "(u64 \<Rightarrow> ('d vfs, i32) prog) option"
  op_read :: "(u64 \<Rightarrow> u64 \<Rightarrow> u64 \<Rightarrow> bytes \<Rightarrow> ('d vfs, i32 \<times> bytes) prog) option"
  op_write :: "(u64 \<Rightarrow> u64 \<Rightarrow> u64 \<Rightarrow> bytes \<Rightarrow> ('d vfs, i32) prog) option"
  op_ioctl :: "(u64 \<Rightarrow> u32 \<Rightarrow> ('d vfs, i32) prog) option"
  op_mkdir :: "(u64 \<Rightarrow> bytes \<Rightarrow> u64 \<Rightarrow> ('d vfs, i32) prog) option"
  op_rmdir :: "(u64 \<Rightarrow> ('d vfs, i32) prog) option"
  op_create :: "(u64 \<Rightarrow> bytes \<Rightarrow> u64 \<Rightarrow> ('d vfs, i32) prog) option"
  op_unlink :: "(u64 \<Rightarrow> ('d vfs, i32) prog) option"
  op_mount :: "(u64 \<Rightarrow> bytes \<Rightarrow> bytes \<Rightarrow> ('d vfs, i32) prog) option"
  op_umount :: "(u64 \<Rightarrow> ('d vfs, i32) prog) option"
  op_sync :: "(u64 \<Rightarrow> ('d vfs, i32) prog) option"
  op_lookup :: "(u64 \<Rightarrow> bytes \<Rightarrow> ('d vfs, u64 option) prog) option"
  op_readdir :: "(u64 \<Rightarrow> u64 \<Rightarrow> u64 \<Rightarrow> ('d vfs, i32) prog) option"

definition O_READ :: u32 where "O_READ = 0x1"
definition O_WRITE :: u32 where "O_WRITE = 0x2"
definition O_CREATE :: u32 where "O_CREATE = 0x4"
definition S_IFREG :: u64 where "S_IFREG = 0x1000"
definition S_IFDIR :: u64 where "S_IFDIR = 0x2000"
definition S_IFLNK :: u64 where "S_IFLNK = 0x3000"
definition CAP_READ :: u64 where "CAP_READ = 0x1"
definition CAP_WRITE :: u64 where "CAP_WRITE = 0x2"

text \<open>
  The stubs \<^verbatim>\<open>get_current_pid\<close> and \<^verbatim>\<open>security_check_capability\<close> at the head of the file, which the
  functions below call and not those of the scheduler and the security framework.
\<close>

definition vfs_current_pid :: u64 where "vfs_current_pid = 0"

definition vfs_check_capability :: "u64 \<Rightarrow> u64 \<Rightarrow> u64 \<Rightarrow> bool" where
  "vfs_check_capability pid permissions cap = True"

definition sizeof_vfs_node :: u64 where "sizeof_vfs_node = 392"
definition sizeof_mount_point :: u64 where "sizeof_mount_point = 544"

text \<open>Access through a pointer.\<close>

definition node_at :: "u64 \<Rightarrow> ('d vfs, vfs_node) prog" where
  "node_at a = (\<lambda>s. the_or_ub (v_nodes s a) s)"

definition set_node :: "u64 \<Rightarrow> (vfs_node \<Rightarrow> vfs_node) \<Rightarrow> ('d vfs, unit) prog" where
  "set_node a f = bindP (node_at a) (\<lambda>n. modify (\<lambda>s. s\<lparr>v_nodes := (v_nodes s)(a \<mapsto> f n)\<rparr>))"

definition kmalloc :: "u64 \<Rightarrow> ('d vfs, u64 option) prog" where
  "kmalloc sz = (\<lambda>s. case malloc sz (k_heap (v_k s)) of (p, h) \<Rightarrow> (Val p, s\<lparr>v_k := (v_k s)\<lparr>k_heap := h\<rparr>\<rparr>))"

definition system_time :: "('d vfs, u64) prog" where
  "system_time = gets (\<lambda>s. k_time (v_k s))"

section \<open>Nodes\<close>

definition vfs_create_node :: "bytes \<Rightarrow> u64 \<Rightarrow> u64 \<Rightarrow> u64 \<Rightarrow> ('d vfs, u64 option) prog" where
  "vfs_create_node name mode uid gid =
     bindP (kmalloc sizeof_vfs_node) (\<lambda>p. case p of
       None \<Rightarrow> ret None
     | Some a \<Rightarrow>
         bindP (the_or_ub (strncpy (replicate MAX_STRING_LEN 0) name (MAX_STRING_LEN - 1))) (\<lambda>nm.
         bindP system_time (\<lambda>now.
         bindP (modify (\<lambda>s. s\<lparr>v_nodes := (v_nodes s)(a \<mapsto>
           \<lparr>n_name = nm[MAX_STRING_LEN - 1 := 0], n_inode = v_base s + a, n_mode = mode, n_size = 0,
            n_permissions = mode AND 0x1FF, n_owner_uid = uid, n_owner_gid = gid,
            n_create_time = now, n_access_time = now, n_modify_time = now, n_link_count = 1,
            n_ops = None, n_fs_data = None, n_mount_point = None, n_next = None, n_prev = None,
            n_parent = None, n_children = None\<rparr>)\<rparr>)) (\<lambda>_.
         ret (Some a)))))"

definition vfs_add_child :: "u64 option \<Rightarrow> u64 option \<Rightarrow> ('d vfs, unit) prog" where
  "vfs_add_child parent child = (case (parent, child) of
     (Some p, Some c) \<Rightarrow>
       bindP (node_at p) (\<lambda>pn.
       bindP (set_node c (\<lambda>n. n\<lparr>n_next := n_children pn\<rparr>)) (\<lambda>_.
       bindP (case n_children pn of None \<Rightarrow> ret () | Some h \<Rightarrow> set_node h (\<lambda>n. n\<lparr>n_prev := Some c\<rparr>)) (\<lambda>_.
       set_node p (\<lambda>n. n\<lparr>n_children := Some c, n_link_count := n_link_count n + 1\<rparr>))))
   | _ \<Rightarrow> ret ())"

partial_function (option) find_child_from :: "(u64 \<Rightarrow> vfs_node option) \<Rightarrow> bytes \<Rightarrow> u64 option \<Rightarrow> u64 option option" where
  "find_child_from nodes name child = (case child of
     None \<Rightarrow> Some None
   | Some a \<Rightarrow> do {
       n \<leftarrow> nodes a;
       c \<leftarrow> strcmp (n_name n) name;
       if c \<noteq> 0 then find_child_from nodes name (n_next n) else Some (Some a) })"

definition vfs_find_child :: "(u64 \<Rightarrow> vfs_node option) \<Rightarrow> u64 option \<Rightarrow> bytes \<Rightarrow> u64 option option" where
  "vfs_find_child nodes parent name = (case parent of
     None \<Rightarrow> Some None
   | Some p \<Rightarrow> do { n \<leftarrow> nodes p; find_child_from nodes name (n_children n) })"

section \<open>Paths\<close>

text \<open>The loop over the tokens of a path.\<close>

partial_function (option) walk_path ::
  "(u64 \<Rightarrow> vfs_node option) \<Rightarrow> nat option \<Rightarrow> bytes \<Rightarrow> nat option \<Rightarrow> u64 option \<Rightarrow> u64 option option" where
  "walk_path nodes token buf nxt current = (case token of
     None \<Rightarrow> Some current
   | Some t \<Rightarrow> (case current of
       None \<Rightarrow> Some None
     | Some _ \<Rightarrow> do {
         child \<leftarrow> vfs_find_child nodes current (drop t buf);
         (token', buf', nxt') \<leftarrow> strtok None [0x2F] (buf, nxt);
         walk_path nodes token' buf' nxt' child }))"

definition lookup_path :: "(u64 \<Rightarrow> vfs_node option) \<Rightarrow> u64 option \<Rightarrow> bytes \<Rightarrow> bytes \<Rightarrow> u64 option option" where
  "lookup_path nodes root stk path = (case path of
     [] \<Rightarrow> None
   | c # _ \<Rightarrow>
       if c \<noteq> 0x2F then Some None else do {
       path_copy \<leftarrow> strncpy stk path (MAX_STRING_LEN - 1);
       (token, buf, nxt) \<leftarrow> strtok (Some 1) [0x2F] (path_copy, None);
       walk_path nodes token buf nxt root })"

definition vfs_lookup :: "bytes \<Rightarrow> bytes \<Rightarrow> ('d vfs, u64 option) prog" where
  "vfs_lookup stk path = (\<lambda>s. the_or_ub (lookup_path (v_nodes s) (v_root s) stk path) s)"

definition vfs_get_parent :: "(nat \<Rightarrow> bytes) \<Rightarrow> bytes \<Rightarrow> ('d vfs, u64 option) prog" where
  "vfs_get_parent stk path =
     bindP (the_or_ub (strncpy (stk 0) path (MAX_STRING_LEN - 1))) (\<lambda>path_copy.
     bindP (the_or_ub (strrchr path_copy 0x2F)) (\<lambda>last_slash. case last_slash of
       None \<Rightarrow> gets v_root
     | Some k \<Rightarrow> if k = 0 then gets v_root else vfs_lookup (stk 1) (path_copy[k := 0])))"

definition vfs_get_basename :: "bytes \<Rightarrow> bytes option" where
  "vfs_get_basename path = map_option (\<lambda>last_slash. case last_slash of
     None \<Rightarrow> path | Some k \<Rightarrow> drop (Suc k) path) (strrchr path 0x2F)"

section \<open>Descriptors\<close>

fun alloc_fd_from :: "file_descriptor list \<Rightarrow> u32 \<Rightarrow> u32" where
  "alloc_fd_from [] i = 0xFFFFFFFF"
| "alloc_fd_from (f # fs) i = (if fd_node f = None then i else alloc_fd_from fs (i + 1))"

definition vfs_alloc_fd :: "('d vfs, u32) prog" where
  "vfs_alloc_fd = gets (\<lambda>s. alloc_fd_from (take 256 (v_fds s)) 0)"

definition set_fd :: "u32 \<Rightarrow> (file_descriptor \<Rightarrow> file_descriptor) \<Rightarrow> ('d vfs, unit) prog" where
  "set_fd fd f = bindP (guard (unat fd < 256)) (\<lambda>_.
     modify (\<lambda>s. s\<lparr>v_fds := (v_fds s)[unat fd := f (v_fds s ! unat fd)]\<rparr>))"

definition no_fd :: file_descriptor where
  "no_fd = \<lparr>fd_node = None, fd_offset = 0, fd_flags = 0, fd_reference_count = 0\<rparr>"

definition vfs_free_fd :: "u32 \<Rightarrow> ('d vfs, unit) prog" where
  "vfs_free_fd fd = (if fd < 256 then set_fd fd (\<lambda>_. no_fd) else ret ())"

text \<open>\<^verbatim>\<open>fd >= 256 || !file_descriptors[fd].node\<close>.\<close>

definition fd_open :: "u32 \<Rightarrow> ('d vfs, file_descriptor option) prog" where
  "fd_open fd = gets (\<lambda>s. if fd \<ge> 256 \<or> fd_node (v_fds s ! unat fd) = None then None else Some (v_fds s ! unat fd))"

definition node_op :: "(u64 \<Rightarrow> 'd vfs_ops) \<Rightarrow> ('d vfs_ops \<Rightarrow> 'f option) \<Rightarrow> vfs_node \<Rightarrow> 'f option" where
  "node_op tab sel n = (case n_ops n of None \<Rightarrow> None | Some t \<Rightarrow> sel (tab t))"

section \<open>Files\<close>

definition create_file :: "(nat \<Rightarrow> bytes) \<Rightarrow> bytes \<Rightarrow> ('d vfs, u64 option) prog" where
  "create_file stk path =
     bindP (vfs_get_parent stk path) (\<lambda>parent.
     bindP (the_or_ub (vfs_get_basename path)) (\<lambda>name.
     bindP (vfs_create_node name (S_IFREG OR 0x1B6) 0 0) (\<lambda>node. case node of
       None \<Rightarrow> ret None
     | Some a \<Rightarrow>
         bindP (set_node a (\<lambda>n. n\<lparr>n_parent := parent\<rparr>)) (\<lambda>_.
         bindP (vfs_add_child parent node) (\<lambda>_.
         ret node)))))"

definition open_node :: "(u64 \<Rightarrow> 'd vfs_ops) \<Rightarrow> u32 \<Rightarrow> u64 \<Rightarrow> vfs_node \<Rightarrow> ('d vfs, u32) prog" where
  "open_node tab flags a n =
     bindP vfs_alloc_fd (\<lambda>fd.
     if fd = 0xFFFFFFFF then throw ERR_BUSY else
     bindP (set_fd fd (\<lambda>_. \<lparr>fd_node = Some a, fd_offset = 0, fd_flags = flags, fd_reference_count = 1\<rparr>)) (\<lambda>_.
     case node_op tab op_open n of
       None \<Rightarrow> ret fd
     | Some f \<Rightarrow>
         bindP (f a flags) (\<lambda>result.
         if result < 0 then bindP (vfs_free_fd fd) (\<lambda>_. throw result) else ret fd)))"

definition vfs_open :: "(u64 \<Rightarrow> 'd vfs_ops) \<Rightarrow> (nat \<Rightarrow> bytes) \<Rightarrow> bytes \<Rightarrow> u32 \<Rightarrow> ('d vfs, u32) prog" where
  "vfs_open tab stk path flags =
     bindP (vfs_lookup (stk 2) path) (\<lambda>node.
     if node = None \<and> flags AND O_CREATE = 0 then throw ERR_NOT_FOUND else
     bindP (if node = None then create_file stk path else ret node) (\<lambda>node. case node of
       None \<Rightarrow> throw ERR_INVALID
     | Some a \<Rightarrow>
         bindP (node_at a) (\<lambda>n.
         if flags AND O_WRITE \<noteq> 0 \<and> \<not> vfs_check_capability vfs_current_pid (n_permissions n) CAP_WRITE
         then throw ERR_PERMISSION
         else open_node tab flags a n)))"

definition vfs_close :: "(u64 \<Rightarrow> 'd vfs_ops) \<Rightarrow> u32 \<Rightarrow> ('d vfs, i32) prog" where
  "vfs_close tab fd =
     bindP (fd_open fd) (\<lambda>d. case d of
       None \<Rightarrow> throw ERR_INVALID
     | Some d \<Rightarrow>
         bindP (set_fd fd (\<lambda>f. f\<lparr>fd_reference_count := fd_reference_count f - 1\<rparr>)) (\<lambda>_.
         bindP (if fd_reference_count d - 1 \<noteq> 0 then ret () else
           bindP (node_at (the (fd_node d))) (\<lambda>n.
           bindP (case node_op tab op_close n of
               None \<Rightarrow> ret ()
             | Some f \<Rightarrow> bindP (f (the (fd_node d))) (\<lambda>_. ret ())) (\<lambda>_.
           set_fd fd (\<lambda>f. f\<lparr>fd_node := None, fd_flags := 0, fd_offset := 0\<rparr>)))) (\<lambda>_.
         ret ERR_SUCCESS)))"

definition vfs_read :: "(u64 \<Rightarrow> 'd vfs_ops) \<Rightarrow> u32 \<Rightarrow> u64 \<Rightarrow> bytes \<Rightarrow> ('d vfs, i32 \<times> bytes) prog" where
  "vfs_read tab fd sz buffer =
     bindP (fd_open fd) (\<lambda>d. case d of
       None \<Rightarrow> ret (ERR_INVALID, buffer)
     | Some d \<Rightarrow>
         bindP (node_at (the (fd_node d))) (\<lambda>n.
         if \<not> vfs_check_capability vfs_current_pid (n_permissions n) CAP_READ then ret (ERR_PERMISSION, buffer)
         else case node_op tab op_read n of
           None \<Rightarrow> ret (0, buffer)
         | Some f \<Rightarrow>
             bindP (f (the (fd_node d)) (fd_offset d) sz buffer) (\<lambda>(bytes_read, out).
             bindP (if bytes_read > 0
                    then set_fd fd (\<lambda>f. f\<lparr>fd_offset := fd_offset f + word_of_int bytes_read\<rparr>) else ret ()) (\<lambda>_.
             ret (bytes_read, out)))))"

definition vfs_write :: "(u64 \<Rightarrow> 'd vfs_ops) \<Rightarrow> u32 \<Rightarrow> u64 \<Rightarrow> bytes \<Rightarrow> ('d vfs, i32) prog" where
  "vfs_write tab fd sz buffer =
     bindP (fd_open fd) (\<lambda>d. case d of
       None \<Rightarrow> ret ERR_INVALID
     | Some d \<Rightarrow>
         bindP (node_at (the (fd_node d))) (\<lambda>n.
         if \<not> vfs_check_capability vfs_current_pid (n_permissions n) CAP_WRITE then ret ERR_PERMISSION
         else case node_op tab op_write n of
           None \<Rightarrow> ret 0
         | Some f \<Rightarrow>
             bindP (f (the (fd_node d)) (fd_offset d) sz buffer) (\<lambda>bytes_written.
             if bytes_written > 0 then
               bindP (set_fd fd (\<lambda>f. f\<lparr>fd_offset := fd_offset f + word_of_int bytes_written\<rparr>)) (\<lambda>_.
               bindP system_time (\<lambda>now.
               bindP (set_node (the (fd_node d))
                 (\<lambda>n. n\<lparr>n_size := n_size n + word_of_int bytes_written, n_modify_time := now\<rparr>)) (\<lambda>_.
               ret bytes_written)))
             else ret bytes_written)))"

section \<open>Directories and mount points\<close>

definition vfs_mkdir :: "u64 option \<Rightarrow> bytes \<Rightarrow> u64 \<Rightarrow> ('d vfs, i32) prog" where
  "vfs_mkdir parent name permissions = (case parent of
     None \<Rightarrow> throw ERR_INVALID
   | Some p \<Rightarrow>
       bindP (node_at p) (\<lambda>pn.
       if \<not> vfs_check_capability vfs_current_pid (n_permissions pn) CAP_WRITE then throw ERR_PERMISSION else
       bindP (vfs_create_node name (S_IFDIR OR permissions) 0 0) (\<lambda>dir. case dir of
         None \<Rightarrow> throw ERR_NO_MEMORY
       | Some a \<Rightarrow>
           bindP (set_node a (\<lambda>n. n\<lparr>n_parent := parent\<rparr>)) (\<lambda>_.
           bindP (vfs_add_child parent dir) (\<lambda>_.
           ret ERR_SUCCESS)))))"

definition vfs_mount :: "bytes \<Rightarrow> bytes \<Rightarrow> bytes \<Rightarrow> bytes \<Rightarrow> ('d vfs, i32) prog" where
  "vfs_mount stk device mount_point fstype =
     bindP (vfs_lookup stk mount_point) (\<lambda>mount_node. case mount_node of
       None \<Rightarrow> throw ERR_NOT_FOUND
     | Some m \<Rightarrow>
         bindP (kmalloc sizeof_mount_point) (\<lambda>mp. case mp of
           None \<Rightarrow> throw ERR_NO_MEMORY
         | Some a \<Rightarrow>
             bindP (the_or_ub (strncpy (replicate MAX_STRING_LEN 0) device (MAX_STRING_LEN - 1))) (\<lambda>dev.
             bindP (the_or_ub (strncpy (replicate MAX_STRING_LEN 0) fstype (MAX_STRING_LEN - 1))) (\<lambda>typ.
             bindP (the_or_ub (strcmp fstype [0x65, 0x78, 0x74, 0x32, 0])) (\<lambda>c.
             bindP (gets v_ext2_root) (\<lambda>ext2_root.
             let root = if c = 0 then ext2_root else None in
             bindP (if root = None then ret () else set_node m (\<lambda>n. n\<lparr>n_mount_point := root\<rparr>)) (\<lambda>_.
             bindP (modify (\<lambda>s. s\<lparr>v_mps := (v_mps s)(a \<mapsto>
                 \<lparr>mp_device = dev, mp_fstype = typ, mp_mount_point = Some m,
                  mp_root = (if root = None then Some m else root), mp_fs_data = None, mp_next = v_mount_points s\<rparr>),
               v_mount_points := Some a\<rparr>)) (\<lambda>_.
             ret ERR_SUCCESS))))))))"

text \<open>
  The names of the standard directories, with the octal 755 as mode.  What the calls return is not
  looked at.
\<close>

definition std_dirs :: "bytes list" where
  "std_dirs = [[0x64, 0x65, 0x76, 0], [0x70, 0x72, 0x6F, 0x63, 0], [0x74, 0x6D, 0x70, 0],
     [0x75, 0x73, 0x72, 0], [0x62, 0x69, 0x6E, 0], [0x6C, 0x69, 0x62, 0]]"

fun make_dirs :: "u64 option \<Rightarrow> bytes list \<Rightarrow> ('d vfs, unit) prog" where
  "make_dirs root [] = ret ()"
| "make_dirs root (d # ds) = bindP (ignoreP (vfs_mkdir root d 0x1ED)) (\<lambda>_. make_dirs root ds)"

definition vfs_init :: "('d vfs, unit) prog" where
  "vfs_init =
     bindP (vfs_create_node [0x2F, 0] (S_IFDIR OR 0x1ED) 0 0) (\<lambda>root.
     bindP (modify (\<lambda>s. s\<lparr>v_root := root\<rparr>)) (\<lambda>_.
     bindP (make_dirs root std_dirs) (\<lambda>_.
     modify (\<lambda>s. s\<lparr>v_fds := replicate 256 no_fd\<rparr>))))"


section \<open>The tree of nodes\<close>

text \<open>
  A chain of siblings is a doubly linked list: \<open>pv\<close> is the node before and \<open>c\<close> the first node.
\<close>

fun chain :: "(u64 \<Rightarrow> vfs_node option) \<Rightarrow> u64 option \<Rightarrow> u64 option \<Rightarrow> u64 list \<Rightarrow> bool" where
  "chain nodes pv c [] = (c = None)"
| "chain nodes pv c (a # as) =
     (c = Some a \<and> (\<exists>n. nodes a = Some n \<and> n_prev n = pv \<and> chain nodes (Some a) (n_next n) as))"

definition str_of :: "bytes \<Rightarrow> bytes" where
  "str_of b = takeWhile (\<lambda>c. c \<noteq> 0) b"

definition node_name :: "(u64 \<Rightarrow> vfs_node option) \<Rightarrow> u64 \<Rightarrow> bytes" where
  "node_name nodes a = str_of (n_name (the (nodes a)))"

text \<open>
  The nodes form a tree with the children \<open>K a\<close> of the node \<open>a\<close>: names are terminated, the children are
  a chain, and each of them points to its parent, so that no node has two parents.
\<close>

definition tree :: "(u64 \<Rightarrow> vfs_node option) \<Rightarrow> (u64 \<Rightarrow> u64 list) \<Rightarrow> bool" where
  "tree nodes K = (\<forall>a n. nodes a = Some n \<longrightarrow>
     length (n_name n) = MAX_STRING_LEN \<and> 0 \<in> set (n_name n) \<and> chain nodes None (n_children n) (K a) \<and>
     (\<forall>c \<in> set (K a). \<exists>m. nodes c = Some m \<and> n_parent m = Some a))"

lemma treeD:
  assumes "tree nodes K" "nodes a = Some n"
  shows "length (n_name n) = MAX_STRING_LEN" "0 \<in> set (n_name n)" "chain nodes None (n_children n) (K a)"
    "c \<in> set (K a) \<Longrightarrow> \<exists>m. nodes c = Some m \<and> n_parent m = Some a"
  using assms by (auto simp: tree_def)

lemma str_of_split: "0 \<in> set b \<Longrightarrow> \<exists>r. b = str_of b @ 0 # r" "cstr (str_of b)"
proof -
  show "cstr (str_of b)" by (auto simp: str_of_def cstr_def dest: set_takeWhileD)
  assume "0 \<in> set b"
  then have "dropWhile (\<lambda>c. c \<noteq> 0) b \<noteq> []" by simp
  then obtain c r where c: "dropWhile (\<lambda>c. c \<noteq> 0) b = c # r" by (cases "dropWhile (\<lambda>c. c \<noteq> 0) b") auto
  then have "c = 0" using hd_dropWhile [of "\<lambda>c. c \<noteq> 0" b] by simp
  with c show "\<exists>r. b = str_of b @ 0 # r" unfolding str_of_def by (metis takeWhile_dropWhile_id)
qed

lemma str_of_cstr [simp]: "cstr s \<Longrightarrow> str_of (s @ 0 # r) = s"
  unfolding str_of_def by (induction s) auto

section \<open>Lookup is a walk in the tree\<close>

fun resolve :: "(u64 \<Rightarrow> vfs_node option) \<Rightarrow> (u64 \<Rightarrow> u64 list) \<Rightarrow> u64 \<Rightarrow> bytes list \<Rightarrow> u64 option" where
  "resolve nodes K a [] = Some a"
| "resolve nodes K a (c # cs) =
     (case find (\<lambda>x. node_name nodes x = c) (K a) of None \<Rightarrow> None | Some x \<Rightarrow> resolve nodes K x cs)"

text \<open>The components of a path: the maximal pieces without a slash.\<close>

function comps :: "bytes \<Rightarrow> bytes list" where
  "comps p = (let q = dropWhile (\<lambda>c. c = 0x2F) p in
     if q = [] then [] else takeWhile (\<lambda>c. c \<noteq> 0x2F) q # comps (dropWhile (\<lambda>c. c \<noteq> 0x2F) q))"
  by pat_completeness auto
termination
proof (relation "measure length", goal_cases)
  case (2 p q)
  then have hd: "hd q \<noteq> 0x2F" using hd_dropWhile [of "\<lambda>c. c = 0x2F" p] by simp
  obtain x xs where "q = x # xs" using 2(2) by (cases q) auto
  then have "length (dropWhile (\<lambda>c. c \<noteq> 0x2F) q) < length q"
    using hd length_dropWhile_le [of "\<lambda>c. c \<noteq> 0x2F" xs] by simp
  also have "\<dots> \<le> length p" using 2(1) by (simp add: length_dropWhile_le)
  finally show ?case by simp
qed simp

declare comps.simps [simp del]

lemma find_child_chain:
  assumes "chain nodes pv c as" "\<forall>a \<in> set as. \<exists>n. nodes a = Some n \<and> 0 \<in> set (n_name n)" "cstr name"
  shows "find_child_from nodes (name @ 0 # r) c = Some (find (\<lambda>x. node_name nodes x = name) as)"
  using assms
proof (induction "as" arbitrary: pv c)
  case Nil
  then show ?case by (simp add: find_child_from.simps)
next
  case (Cons a "as")
  obtain n where n: "nodes a = Some n" "0 \<in> set (n_name n)" "c = Some a" "chain nodes (Some a) (n_next n) as"
    using Cons.prems by auto
  obtain r' where "n_name n = str_of (n_name n) @ 0 # r'" using str_of_split(1) [OF n(2)] by blast
  moreover obtain k where "strcmp (str_of (n_name n) @ 0 # r') (name @ 0 # r) = Some k" "(k = 0) = (str_of (n_name n) = name)"
    using strcmp_eq_iff [OF str_of_split(2) Cons.prems(3)] by blast
  ultimately have "strcmp (n_name n) (name @ 0 # r) = Some k" "(k = 0) = (node_name nodes a = name)"
    using n(1) by (simp_all add: node_name_def)
  then show ?case
    using n Cons.IH [OF n(4)] Cons.prems by (subst find_child_from.simps) auto
qed

lemma find_child_tree:
  assumes "tree nodes K" "nodes a = Some n" "cstr name"
  shows "vfs_find_child nodes (Some a) (name @ 0 # r) = Some (find (\<lambda>x. node_name nodes x = name) (K a))"
proof -
  have "\<exists>m. nodes c = Some m \<and> 0 \<in> set (n_name m)" if "c \<in> set (K a)" for c
    using treeD(4) [OF assms(1,2) that] treeD(2) [OF assms(1)] by auto
  then show ?thesis
    using find_child_chain [OF treeD(3) [OF assms(1,2)] _ assms(3)] assms(2) by (simp add: vfs_find_child_def)
qed

lemma scan_until_stop:
  assumes "drop i buf = xs @ y # ys" "\<forall>x \<in> set xs. x \<noteq> 0 \<and> \<not> stop x" "y = 0 \<or> stop y"
  shows "scan_until stop buf i = Some (i + length xs)"
  using assms
proof (induction xs arbitrary: i)
  case Nil
  then have "i < length buf" "buf ! i = y" by (metis append_Nil drop_eq_Nil list.distinct(1) not_le, metis append_Nil nth_via_drop)
  with Nil show ?case by (subst scan_until.simps) auto
next
  case (Cons x xs)
  then have i: "i < length buf" "buf ! i = x" by (metis append_Cons drop_eq_Nil list.distinct(1) not_le, metis append_Cons nth_via_drop)
  then have "drop (Suc i) buf = xs @ y # ys" using Cons.prems(1) by (simp add: Cons_nth_drop_Suc [symmetric])
  with Cons i show ?case by (subst scan_until.simps) auto
qed


lemma drop_split:
  assumes "drop n buf = xs @ ys"
  shows "drop (n + length xs) buf = ys" "ys \<noteq> [] \<Longrightarrow> n + length xs < length buf"
proof -
  have "drop (length xs) (drop n buf) = ys" using assms by simp
  then show *: "drop (n + length xs) buf = ys" by (simp add: add.commute)
  show "n + length xs < length buf" if "ys \<noteq> []" using * that by (metis drop_eq_Nil not_le)
qed

text \<open>The first component of a path, with the slashes before it and the rest.\<close>

lemma comps_cases:
  obtains "comps p = []" "\<forall>x \<in> set p. x = 0x2F"
  | sl c p' where "p = sl @ c @ p'" "\<forall>x \<in> set sl. x = 0x2F" "c \<noteq> []" "0x2F \<notin> set c" "p' = [] \<or> hd p' = 0x2F"
    "comps p = c # comps p'"
proof -
  let ?q = "dropWhile (\<lambda>c. c = 0x2F) p"
  show thesis
  proof (cases ?q)
    case Nil
    then show ?thesis using that(1) by (simp add: comps.simps [of p] Let_def)
  next
    case (Cons x xs)
    let ?c = "takeWhile (\<lambda>c. c \<noteq> 0x2F) ?q" and ?p' = "dropWhile (\<lambda>c. c \<noteq> 0x2F) ?q"
    have x: "x \<noteq> 0x2F" using hd_dropWhile [of "\<lambda>c. c = 0x2F" p] Cons by simp
    show ?thesis
    proof (rule that(2))
      show "p = takeWhile (\<lambda>c. c = 0x2F) p @ ?c @ ?p'" by simp
      show "\<forall>x \<in> set (takeWhile (\<lambda>c. c = 0x2F) p). x = 0x2F" by (auto dest: set_takeWhileD)
      show "?c \<noteq> []" using Cons x by simp
      show "0x2F \<notin> set ?c" by (auto dest: set_takeWhileD)
      show "?p' = [] \<or> hd ?p' = 0x2F" using hd_dropWhile [of "\<lambda>c. c \<noteq> 0x2F" ?q] by blast
      show "comps p = ?c # comps ?p'" using Cons by (subst comps.simps) (simp add: Let_def)
    qed
  qed
qed

lemma comps_slash: "comps (0x2F # p) = comps p"
  by (subst (1 2) comps.simps) simp

text \<open>
  A call of \<^verbatim>\<open>strtok\<close> on what is left of the path returns the next component, terminated in the
  array, and leaves the rest.
\<close>

lemma strtok_none:
  assumes "drop n buf = p @ 0 # junk" "\<forall>x \<in> set p. x = 0x2F" "str = Some n \<or> str = None \<and> nxt = Some n"
  shows "strtok str [0x2F] (buf, nxt) = Some (None, buf, Some (n + length p))"
proof -
  have "scan_until (\<lambda>c. c \<notin> set [0x2F]) buf n = Some (n + length p)"
    by (rule scan_until_stop [OF assms(1)]) (use assms(2) in auto)
  moreover have "buf ! (n + length p) = 0" using drop_split(1) [OF assms(1)] by (simp add: nth_via_drop)
  ultimately show ?thesis using assms(3) by (auto simp: strtok_def)
qed

lemma strtok_some:
  assumes "drop n buf = sl @ c @ y # ys" "\<forall>x \<in> set sl. x = 0x2F" "c \<noteq> []" "cstr c" "0x2F \<notin> set c" "y = 0 \<or> y = 0x2F"
    and "str = Some n \<or> str = None \<and> nxt = Some n"
  shows "strtok str [0x2F] (buf, nxt) = Some (Some (n + length sl), buf[n + length sl + length c := 0],
      Some (n + length sl + length c + (if y = 0 then 0 else 1)))"
    and "drop (n + length sl) (buf[n + length sl + length c := 0]) = c @ 0 # ys"
proof -
  let ?n1 = "n + length sl" and ?n2 = "n + length sl + length c"
  note d1 = drop_split [OF assms(1)]
  note d2 = drop_split [OF d1(1)]
  obtain x xs where c: "c = x # xs" using assms(3) by (cases c) auto
  have "scan_until (\<lambda>c. c \<notin> set [0x2F]) buf n = Some ?n1"
    by (rule scan_until_stop [of n buf sl x "xs @ y # ys"]) (use assms(1,2,5) c in auto)
  moreover have "scan_until (\<lambda>c. c \<in> set [0x2F]) buf ?n1 = Some ?n2"
    by (rule scan_until_stop [OF d1(1)]) (use assms(4-6) in \<open>auto simp: cstr_def\<close>)
  moreover have "buf ! ?n1 = x" using d1(1) c by (simp add: nth_via_drop)
  moreover have y: "buf ! ?n2 = y" "?n2 < length buf" using d2 by (simp_all add: nth_via_drop)
  ultimately show "strtok str [0x2F] (buf, nxt) = Some (Some ?n1, buf[?n2 := 0], Some (?n2 + (if y = 0 then 0 else 1)))"
    using assms(4,6,7) c list_update_id [of buf ?n2] by (auto simp: strtok_def)
  have "drop ?n1 (buf[?n2 := 0]) = (drop ?n1 buf)[length c := 0]" by (simp add: drop_update_swap)
  then show "drop ?n1 (buf[?n2 := 0]) = c @ 0 # ys" using d1(1) by simp
qed

lemma strtok_comps:
  assumes "drop n buf = p @ 0 # junk" "cstr p" "str = Some n \<or> str = None \<and> nxt = Some n"
  obtains n' where "comps p = []" "strtok str [0x2F] (buf, nxt) = Some (None, buf, Some n')"
  | c cs t buf' n' r p' junk' where "comps p = c # cs" "strtok str [0x2F] (buf, nxt) = Some (Some t, buf', Some n')"
    "drop t buf' = c @ 0 # r" "cstr c" "drop n' buf' = p' @ 0 # junk'" "cstr p'" "comps p' = cs"
proof (cases rule: comps_cases [of p])
  case 1
  then show thesis using that(1) strtok_none [OF assms(1) _ assms(3)] by blast
next
  case (2 sl c p')
  have c: "cstr c" "cstr p'" using assms(2) 2(1) by simp_all
  let ?t = "n + length sl"
  show thesis
  proof (cases p')
    case Nil
    then have d: "drop n buf = sl @ c @ 0 # junk" using assms(1) 2(1) by simp
    note st = strtok_some [OF d 2(2,3) c(1) 2(4) _ assms(3), simplified]
    show thesis using that(2) [OF 2(6) st(1,2) c(1), of "[]" junk] drop_split(1) [OF st(2)] Nil by simp
  next
    case (Cons y ys)
    then have d: "drop n buf = sl @ c @ y # ys @ 0 # junk" and y: "y = 0x2F" using assms(1) 2(1,5) by simp_all
    have st: "strtok str [0x2F] (buf, nxt) = Some (Some ?t, buf[?t + length c := 0], Some (?t + length c + 1))"
      "drop ?t (buf[?t + length c := 0]) = c @ 0 # ys @ 0 # junk"
      using strtok_some [OF d 2(2,3) c(1) 2(4) _ assms(3)] y by simp_all
    have "drop (?t + length c + 1) (buf[?t + length c := 0]) = ys @ 0 # junk"
      using drop_split(1) [of ?t "buf[?t + length c := 0]" "c @ [0]" "ys @ 0 # junk"] st(2) by (simp add: add.assoc)
    then show thesis using that(2) [OF 2(6) st c(1)] c(2) Cons y comps_slash by simp
  qed
qed


lemma walk_none: "walk_path nodes token buf nxt None = Some None"
  by (subst walk_path.simps) (simp split: option.split)

lemma walk_path_resolve:
  assumes "tree nodes K" "nodes a \<noteq> None" "drop t buf = c @ 0 # r" "cstr c" "drop n buf = p @ 0 # junk" "cstr p"
  shows "walk_path nodes (Some t) buf (Some n) (Some a) = Some (resolve nodes K a (c # comps p))"
  using assms(2-)
proof (induction "comps p" arbitrary: a t buf c r n p junk)
  case Nil
  obtain m where m: "nodes a = Some m" using Nil.prems(1) by blast
  have tok: "\<exists>n'. strtok None [0x2F] (buf, Some n) = Some (None, buf, Some n')"
    using strtok_comps [OF Nil.prems(4,5), of None "Some n"] Nil.hyps by (metis list.distinct(1))
  then show ?case
    using find_child_tree [OF assms(1) m Nil.prems(3), of r] Nil.prems(2) Nil.hyps
    by (subst walk_path.simps) (auto simp: walk_path.simps split: option.split)
next
  case (Cons d ds)
  obtain m where m: "nodes a = Some m" using Cons.prems(1) by blast
  obtain t' buf' n' r' p' junk' where tok: "strtok None [0x2F] (buf, Some n) = Some (Some t', buf', Some n')"
    "drop t' buf' = d @ 0 # r'" "cstr d" "drop n' buf' = p' @ 0 # junk'" "cstr p'" "comps p' = ds"
    using strtok_comps [OF Cons.prems(4,5), of None "Some n"] Cons.hyps(2) by (metis list.distinct(1) list.inject)
  let ?f = "find (\<lambda>x. node_name nodes x = c) (K a)"
  have step: "walk_path nodes (Some t) buf (Some n) (Some a) = walk_path nodes (Some t') buf' (Some n') ?f"
    using find_child_tree [OF assms(1) m Cons.prems(3), of r] Cons.prems(2) tok(1)
    by (subst walk_path.simps) simp
  show ?case
  proof (cases ?f)
    case None
    then show ?thesis using step walk_none by simp
  next
    case (Some x)
    then have "x \<in> set (K a)" by (auto simp: find_Some_iff)
    then have "nodes x \<noteq> None" using treeD(4) [OF assms(1) m] by auto
    then show ?thesis
      using step Some Cons.hyps(1) [OF tok(6) [symmetric] _ tok(2-5)] tok(6) Cons.hyps(2) by simp
  qed
qed

lemma lookup_path_resolve:
  assumes "tree nodes K" "nodes a \<noteq> None" "cstr p" "length p < MAX_STRING_LEN - 2" "length stk = MAX_STRING_LEN"
  shows "lookup_path nodes (Some a) stk (0x2F # p @ 0 # rest) = Some (resolve nodes K a (comps p))"
proof -
  let ?buf = "0x2F # p @ replicate (255 - length p) 0"
  have "strncpy_bytes ((0x2F # p) @ 0 # rest) 255 = Some ((0x2F # p) @ replicate (255 + 1 - length (0x2F # p)) 0)"
    using assms(3,4) by (intro strncpy_bytes_padded) (simp_all add: MAX_STRING_LEN_def)
  then have copy: "strncpy stk (0x2F # p @ 0 # rest) 255 = Some ?buf"
    using assms(4,5) by (simp add: strncpy_def store_bytes_def put_bytes_whole MAX_STRING_LEN_def)
  have "replicate (255 - length p) 0 = 0 # replicate (254 - length p) (0 :: u8)"
    using assms(4) by (simp add: MAX_STRING_LEN_def Suc_diff_le flip: replicate_Suc)
  then have d: "drop 1 ?buf = p @ 0 # replicate (254 - length p) 0" by simp
  have lk: "lookup_path nodes (Some a) stk (0x2F # p @ 0 # rest) =
      (case strtok (Some 1) [0x2F] (?buf, None) of None \<Rightarrow> None
       | Some (token, buf, nxt) \<Rightarrow> walk_path nodes token buf nxt (Some a))"
    using copy by (simp add: lookup_path_def MAX_STRING_LEN_def split: option.split)
  show ?thesis
  proof (cases rule: strtok_comps [OF d assms(3) disjI1 [OF refl], where nxt = None])
    case (1 n')
    then show ?thesis unfolding lk by (simp add: walk_path.simps)
  next
    case (2 c cs t buf' n' r p' junk')
    then show ?thesis unfolding lk using walk_path_resolve [OF assms(1,2) 2(3-6)] by simp
  qed
qed


section \<open>Changes of the tree\<close>

lemma chain_unique: "chain nodes pv c xs \<Longrightarrow> chain nodes pv' c ys \<Longrightarrow> xs = ys"
proof (induction xs arbitrary: pv pv' c ys)
  case Nil
  then show ?case by (cases ys) auto
next
  case (Cons x xs)
  then show ?case by (cases ys) auto
qed

lemma chain_suffix: "chain nodes pv c (xs @ y # ys) \<Longrightarrow> \<exists>n. nodes y = Some n \<and> chain nodes (Some y) (n_next n) ys"
  by (induction xs arbitrary: pv c) auto

lemma chain_distinct: "chain nodes pv c xs \<Longrightarrow> distinct xs"
proof (induction xs arbitrary: pv c)
  case (Cons x xs)
  obtain n where n: "nodes x = Some n" "chain nodes (Some x) (n_next n) xs" using Cons.prems by auto
  have "x \<notin> set xs"
  proof
    assume "x \<in> set xs"
    then obtain ys zs where xs: "xs = ys @ x # zs" by (meson split_list)
    then obtain m where "nodes x = Some m" "chain nodes (Some x) (n_next m) zs"
      using chain_suffix n(2) by blast
    then have "xs = zs" using chain_unique n by (metis option.inject)
    then show False using xs by simp
  qed
  then show ?case using Cons.IH n(2) by simp
qed simp

text \<open>A chain depends on the links of its nodes only.\<close>

lemma chain_agree:
  assumes "chain nodes pv c xs"
    and "\<And>x n. x \<in> set xs \<Longrightarrow> nodes x = Some n \<Longrightarrow> \<exists>m. nodes' x = Some m \<and> n_next m = n_next n \<and> n_prev m = n_prev n"
  shows "chain nodes' pv c xs"
  using assms
proof (induction xs arbitrary: pv c)
  case (Cons x xs)
  obtain n where n: "c = Some x" "nodes x = Some n" "n_prev n = pv" "chain nodes (Some x) (n_next n) xs" using Cons.prems(1) by auto
  then obtain m where "nodes' x = Some m" "n_next m = n_next n" "n_prev m = n_prev n" using Cons.prems(2) [of x n] by auto
  then show ?case using Cons.IH [OF n(4)] Cons.prems(2) n by auto
qed simp

text \<open>An update that keeps name and links.\<close>

definition same_links :: "vfs_node \<Rightarrow> vfs_node \<Rightarrow> bool" where
  "same_links n m = (n_name m = n_name n \<and> n_next m = n_next n \<and> n_prev m = n_prev n \<and> n_parent m = n_parent n \<and>
     n_children m = n_children n)"

lemma tree_upd:
  assumes "tree nodes K" "nodes a = Some n" "same_links n m"
  shows "tree (nodes(a \<mapsto> m)) K"
  unfolding tree_def
proof (intro allI impI, goal_cases)
  case (1 b k)
  obtain k' where k': "nodes b = Some k'" "same_links k' k" using 1 assms(2,3) by (auto simp: same_links_def split: if_splits)
  have "chain (nodes(a \<mapsto> m)) None (n_children k') (K b)"
    by (rule chain_agree [OF treeD(3) [OF assms(1) k'(1)]]) (use assms(2,3) in \<open>auto simp: same_links_def\<close>)
  moreover have "\<exists>m'. (nodes(a \<mapsto> m)) c = Some m' \<and> n_parent m' = Some b" if "c \<in> set (K b)" for c
    using treeD(4) [OF assms(1) k'(1) that] assms(2,3) by (auto simp: same_links_def)
  ultimately show ?case using treeD(1,2) [OF assms(1) k'(1)] k'(2) by (simp add: same_links_def)
qed

text \<open>A new node without links.\<close>

lemma tree_new:
  assumes "tree nodes K" "nodes a = None" "length (n_name n) = MAX_STRING_LEN" "0 \<in> set (n_name n)" "n_children n = None"
  shows "tree (nodes(a \<mapsto> n)) (K(a := []))"
  unfolding tree_def
proof (intro allI impI, goal_cases)
  case (1 b k)
  show ?case
  proof (cases "b = a")
    case True
    then show ?thesis using 1 assms by simp
  next
    case False
    then have k: "nodes b = Some k" using 1 by simp
    have "chain (nodes(a \<mapsto> n)) None (n_children k) (K b)"
      by (rule chain_agree [OF treeD(3) [OF assms(1) k]]) (use assms(2) in auto)
    moreover have "\<exists>m'. (nodes(a \<mapsto> n)) c = Some m' \<and> n_parent m' = Some b" if "c \<in> set (K b)" for c
      using treeD(4) [OF assms(1) k that] assms(2) by auto
    ultimately show ?thesis using treeD(1,2) [OF assms(1) k] False by simp
  qed
qed

text \<open>
  What \<^verbatim>\<open>vfs_add_child\<close> does to the nodes: the new child becomes the first one.
\<close>

definition link_child :: "(u64 \<Rightarrow> vfs_node option) \<Rightarrow> u64 \<Rightarrow> u64 \<Rightarrow> u64 \<Rightarrow> vfs_node option" where
  "link_child nodes p c = (let h = n_children (the (nodes p));
     nodes1 = nodes(c \<mapsto> (the (nodes c))\<lparr>n_next := h\<rparr>);
     nodes2 = (case h of None \<Rightarrow> nodes1 | Some x \<Rightarrow> nodes1(x \<mapsto> (the (nodes1 x))\<lparr>n_prev := Some c\<rparr>))
     in nodes2(p \<mapsto> (the (nodes2 p))\<lparr>n_children := Some c, n_link_count := n_link_count (the (nodes2 p)) + 1\<rparr>))"

lemma link_child_fields:
  assumes "nodes p = Some np" "nodes c \<noteq> None" "p \<noteq> c" "n_children np \<noteq> Some c" "\<And>h. n_children np = Some h \<Longrightarrow> nodes h \<noteq> None"
  shows "(link_child nodes p c x = None) = (nodes x = None)"
    and "nodes x = Some n \<Longrightarrow> \<exists>m. link_child nodes p c x = Some m \<and> n_name m = n_name n \<and> n_parent m = n_parent n \<and>
      n_next m = (if x = c then n_children np else n_next n) \<and>
      n_prev m = (if n_children np = Some x then Some c else n_prev n) \<and>
      n_children m = (if x = p then Some c else n_children n)"
proof -
  obtain nc where nc: "nodes c = Some nc" using assms(2) by blast
  show "(link_child nodes p c x = None) = (nodes x = None)"
    using assms(1,3,4,5) nc by (auto simp: link_child_def Let_def split: option.split)
  show "\<exists>m. link_child nodes p c x = Some m \<and> n_name m = n_name n \<and> n_parent m = n_parent n \<and>
      n_next m = (if x = c then n_children np else n_next n) \<and>
      n_prev m = (if n_children np = Some x then Some c else n_prev n) \<and>
      n_children m = (if x = p then Some c else n_children n)" if "nodes x = Some n"
    using assms(1,3,4) nc that by (cases "n_children np") (auto simp: link_child_def Let_def)
qed

lemma tree_head:
  assumes "tree nodes K" "nodes p = Some np"
  shows "n_children np = Some h \<Longrightarrow> h \<in> set (K p)" "n_children np = Some h \<Longrightarrow> nodes h \<noteq> None"
proof -
  show hd: "h \<in> set (K p)" if "n_children np = Some h" using treeD(3) [OF assms] that by (cases "K p") auto
  show "nodes h \<noteq> None" if "n_children np = Some h" using treeD(4) [OF assms hd [OF that]] by auto
qed

lemma link_dom:
  assumes "tree nodes K" "nodes p = Some np" "nodes c \<noteq> None" "p \<noteq> c" "c \<notin> set (K p)"
  shows "(link_child nodes p c x = None) = (nodes x = None)"
proof (rule link_child_fields(1) [OF assms(2,3,4)])
  show "n_children np \<noteq> Some c" using tree_head(1) [OF assms(1,2), of c] assms(5) by blast
  show "nodes h \<noteq> None" if "n_children np = Some h" for h using tree_head(2) [OF assms(1,2) that] .
qed

lemma tree_link:
  assumes "tree nodes K" "nodes p = Some np" "nodes c = Some nc" "p \<noteq> c" "n_parent nc = Some p" "n_prev nc = None"
    and "\<And>q n. nodes q = Some n \<Longrightarrow> c \<notin> set (K q)"
  shows "tree (link_child nodes p c) (K(p := c # K p))"
  unfolding tree_def
proof (intro allI impI, goal_cases)
  case (1 b k)
  let ?N = "link_child nodes p c"
  have chp: "chain nodes None (n_children np) (K p)" by (rule treeD(3) [OF assms(1,2)])
  note hd = tree_head(1) [OF assms(1,2)] and dom = tree_head(2) [OF assms(1,2)]
  have hc: "n_children np \<noteq> Some c" using hd assms(7) [OF assms(2)] by blast
  have c: "nodes c \<noteq> None" using assms(3) by simp
  note f = link_child_fields [where nodes = nodes and p = p and np = np and c = c, OF assms(2) c assms(4) hc dom]
  have fld: "\<exists>m. ?N x = Some m \<and> n_name m = n_name n \<and> n_parent m = n_parent n \<and>
      n_next m = (if x = c then n_children np else n_next n) \<and>
      n_prev m = (if n_children np = Some x then Some c else n_prev n) \<and>
      n_children m = (if x = p then Some c else n_children n)" if "nodes x = Some n" for x n
    using f(2) that by simp
  obtain k' where k': "nodes b = Some k'" using 1 f(1) [of b] by (cases "nodes b") auto
  obtain m where m: "?N b = Some m" "n_name m = n_name k'" "n_children m = (if b = p then Some c else n_children k')"
    using fld [OF k'] by blast
  have k: "k = m" using 1 m(1) by simp
  have agree: "chain ?N pv d xs" if "chain nodes pv d xs" "c \<notin> set xs" "\<And>x. x \<in> set xs \<Longrightarrow> n_children np \<noteq> Some x" for pv d xs
    by (rule chain_agree [OF that(1)]) (use fld that(2,3) in fastforce)
  have kids: "\<exists>m. ?N x = Some m \<and> n_parent m = Some b" if "x \<in> set ((K(p := c # K p)) b)" for x
  proof -
    have "\<exists>n. nodes x = Some n \<and> n_parent n = Some b"
      using that treeD(4) [OF assms(1) k', of x] assms(3,5) by (auto split: if_splits)
    then show ?thesis using fld by fastforce
  qed
  have "chain ?N None (n_children k) ((K(p := c # K p)) b)"
  proof (cases "b = p")
    case False
    have "n_children np \<noteq> Some x" if "x \<in> set (K b)" for x
      using treeD(4) [OF assms(1) k' that] treeD(4) [OF assms(1,2) hd, of x] False by auto
    then show ?thesis
      using agree [OF treeD(3) [OF assms(1) k']] assms(7) [OF k'] False k m(3) by simp
  next
    case True
    have "chain ?N (Some c) (n_children np) (K p)"
    proof (cases "K p")
      case Nil
      then show ?thesis using chp by simp
    next
      case (Cons h t)
      then obtain nh where h: "n_children np = Some h" "nodes h = Some nh" "chain nodes (Some h) (n_next nh) t"
        using chp by auto
      have "h \<notin> set t" "c \<notin> set t" "h \<noteq> c"
        using chain_distinct [OF chp] assms(7) [OF assms(2)] Cons by auto
      then have "chain ?N (Some h) (n_next nh) t" using agree [OF h(3)] h(1) by auto
      then show ?thesis using fld [OF h(2)] h(1) Cons \<open>h \<noteq> c\<close> by auto
    qed
    then show ?thesis using fld [OF assms(3)] hc assms(6) True k m(3) by auto
  qed
  then show ?case using kids k m(2) treeD(1,2) [OF assms(1) k'] by simp
qed


section \<open>The invariant\<close>

text \<open>
  The state is well formed: the nodes are a tree of blocks below the heap position, and the root,
  the root of the mounted file system and the descriptors point to nodes or are empty.
\<close>

definition is_node :: "'d vfs \<Rightarrow> u64 option \<Rightarrow> bool" where
  "is_node s p = (case p of None \<Rightarrow> True | Some a \<Rightarrow> v_nodes s a \<noteq> None)"

definition vfs_ok :: "'d vfs \<Rightarrow> bool" where
  "vfs_ok s = ((\<exists>K. tree (v_nodes s) K) \<and> heap_inv (k_heap (v_k s)) \<and>
     (\<forall>a. v_nodes s a \<noteq> None \<longrightarrow> unat a < unat (k_heap (v_k s))) \<and>
     is_node s (v_root s) \<and> is_node s (v_ext2_root s) \<and>
     length (v_fds s) = 256 \<and> (\<forall>f \<in> set (v_fds s). is_node s (fd_node f)))"

text \<open>The state after a step: it is well formed and no node is lost.\<close>

definition vkept :: "'d vfs \<Rightarrow> 'd vfs \<Rightarrow> bool" where
  "vkept s s' = (vfs_ok s' \<and> (\<forall>a. v_nodes s a \<noteq> None \<longrightarrow> v_nodes s' a \<noteq> None))"

lemma vkept_refl: "vfs_ok s \<Longrightarrow> vkept s s"
  by (simp add: vkept_def)

lemma vkept_trans: "vkept s t \<Longrightarrow> vkept t u \<Longrightarrow> vkept s u"
  by (simp add: vkept_def)

lemma is_node_simps [simp]:
  "is_node s None" "is_node s (Some a) = (v_nodes s a \<noteq> None)"
  by (simp_all add: is_node_def)

lemma is_node_mono: "is_node s p \<Longrightarrow> \<forall>a. v_nodes s a \<noteq> None \<longrightarrow> v_nodes s' a \<noteq> None \<Longrightarrow> is_node s' p"
  by (cases p) auto

lemma vkeptI:
  assumes "vfs_ok s" "tree (v_nodes s') K" "heap_inv (k_heap (v_k s'))" "unat (k_heap (v_k s)) \<le> unat (k_heap (v_k s'))"
    and "\<And>a. v_nodes s a \<noteq> None \<Longrightarrow> v_nodes s' a \<noteq> None"
    and "\<And>a. v_nodes s' a \<noteq> None \<Longrightarrow> v_nodes s a \<noteq> None \<or> unat a < unat (k_heap (v_k s'))"
    and "v_root s' = v_root s" "v_ext2_root s' = v_ext2_root s" "v_fds s' = v_fds s"
  shows "vkept s s'"
proof -
  have m: "\<forall>a. v_nodes s a \<noteq> None \<longrightarrow> v_nodes s' a \<noteq> None" using assms(5) by blast
  have "unat a < unat (k_heap (v_k s'))" if "v_nodes s' a \<noteq> None" for a
    using assms(1,4,6) that unfolding vfs_ok_def by fastforce
  then show ?thesis
    using assms(1-3,7-9) m is_node_mono [OF _ m] unfolding vkept_def vfs_ok_def by metis
qed

text \<open>An update of a node that keeps name and links.\<close>

lemma vkept_upd:
  assumes "vfs_ok s" "v_nodes s a = Some n" "same_links n m"
  shows "vkept s (s\<lparr>v_nodes := (v_nodes s)(a \<mapsto> m)\<rparr>)"
proof -
  obtain K where "tree (v_nodes s) K" using assms(1) by (auto simp: vfs_ok_def)
  from tree_upd [OF this assms(2,3)] show ?thesis
    using assms(1,2) by (intro vkeptI [OF assms(1)]) (auto simp: vfs_ok_def split: if_splits)
qed

lemma vkept_fds:
  assumes "vfs_ok s" "is_node s (fd_node f)"
  shows "vkept s (s\<lparr>v_fds := (v_fds s)[i := f]\<rparr>)"
proof -
  have "is_node (s\<lparr>v_fds := x\<rparr>) p = is_node s p" for x p by (cases p) simp_all
  then show ?thesis
    using assms set_update_subset_insert [of "v_fds s" i f] by (auto simp: vkept_def vfs_ok_def)
qed

lemma wlp_node_at [wlp_simps]: "wlp (node_at a) Q E s = (\<forall>n. v_nodes s a = Some n \<longrightarrow> Q n s)"
  by (simp add: node_at_def wlp_def the_or_ub_def split: option.split)

lemma wlp_set_node [wlp_simps]:
  "wlp (set_node a f) Q E s = (\<forall>n. v_nodes s a = Some n \<longrightarrow> Q () (s\<lparr>v_nodes := (v_nodes s)(a \<mapsto> f n)\<rparr>))"
  by (simp add: set_node_def wlp_simps)

lemma wlp_system_time [wlp_simps]: "wlp system_time Q E = (\<lambda>s. Q (k_time (v_k s)) s)"
  by (simp add: system_time_def wlp_simps)

lemma wlp_fd [wlp_simps]:
  "wlp (fd_open fd) Q' E' s = Q' (if fd \<ge> 256 \<or> fd_node (v_fds s ! unat fd) = None then None else Some (v_fds s ! unat fd)) s"
  "wlp (set_fd fd f) R E s = (unat fd < 256 \<longrightarrow> R () (s\<lparr>v_fds := (v_fds s)[unat fd := f (v_fds s ! unat fd)]\<rparr>))"
  "wlp vfs_alloc_fd Q'' E s = Q'' (alloc_fd_from (take 256 (v_fds s)) 0) s"
  by (simp_all add: fd_open_def set_fd_def vfs_alloc_fd_def wlp_simps)

lemma wlp_vfs_lookup [wlp_simps]:
  "wlp (vfs_lookup stk path) Q E s = (\<forall>p. lookup_path (v_nodes s) (v_root s) stk path = Some p \<longrightarrow> Q p s)"
  by (simp add: vfs_lookup_def wlp_def the_or_ub_def split: option.split)

lemma wlp_kmalloc:
  assumes "vfs_ok s" "unat sz \<le> 2 ^ 32"
    and "\<And>s'. vkept s s' \<Longrightarrow> v_nodes s' = v_nodes s \<Longrightarrow> Q None s'"
    and "\<And>a s'. vkept s s' \<Longrightarrow> v_nodes s' = v_nodes s \<Longrightarrow> v_nodes s a = None \<Longrightarrow> unat a + unat sz \<le> unat (k_heap (v_k s')) \<Longrightarrow> Q (Some a) s'"
  shows "wlp (kmalloc sz) Q E s"
proof -
  obtain p h where m: "malloc sz (k_heap (v_k s)) = (p, h)" by fastforce
  have inv: "heap_inv (k_heap (v_k s))" using assms(1) by (simp add: vfs_ok_def)
  note r = malloc_result [OF inv assms(2) m]
  obtain K where "tree (v_nodes s) K" using assms(1) by (auto simp: vfs_ok_def)
  then have k: "vkept s (s\<lparr>v_k := (v_k s)\<lparr>k_heap := h\<rparr>\<rparr>)" using r(1,2) by (intro vkeptI [OF assms(1)]) simp_all
  have "v_nodes s a = None" if "p = Some a" for a
    using r(3) [OF that] assms(1) by (auto simp: vfs_ok_def)
  then show ?thesis
    using assms(3) [OF k] assms(4) [OF k] r(3) m by (cases p) (auto simp: kmalloc_def wlp_def)
qed

text \<open>A new node, which has no links yet.\<close>

definition unlinked :: "vfs_node \<Rightarrow> bool" where
  "unlinked n = (n_next n = None \<and> n_prev n = None \<and> n_children n = None \<and> length (n_name n) = MAX_STRING_LEN \<and> 0 \<in> set (n_name n))"

lemma wlp_create_node:
  assumes "vfs_ok s"
    and "\<And>s'. vkept s s' \<Longrightarrow> Q None s'"
    and "\<And>a n s'. vkept s s' \<Longrightarrow> v_nodes s a = None \<Longrightarrow> v_nodes s' = (v_nodes s)(a \<mapsto> n) \<Longrightarrow> unlinked n \<Longrightarrow> Q (Some a) s'"
  shows "wlp (vfs_create_node name mode uid gid) Q E s"
  unfolding vfs_create_node_def wlp_bindP [of "kmalloc sizeof_vfs_node"]
proof (rule wlp_kmalloc [OF assms(1)], goal_cases)
  case 1
  then show ?case by (simp add: sizeof_vfs_node_def)
next
  case (2 s')
  then show ?case using assms(2) by (simp add: wlp_simps)
next
  case (3 a t)
  have lt: "unat a < unat (k_heap (v_k t))" using 3(4) by (simp add: sizeof_vfs_node_def)
  obtain K where K: "tree (v_nodes t) K" and ok: "vfs_ok t" using 3(1) by (auto simp: vkept_def vfs_ok_def)
  have step: "vkept s (t\<lparr>v_nodes := (v_nodes t)(a \<mapsto> n)\<rparr>)" if "unlinked n" for n
  proof -
    have "tree ((v_nodes t)(a \<mapsto> n)) (K(a := []))"
      using tree_new [OF K _ ] 3(2,3) that by (simp add: unlinked_def)
    then have "vkept t (t\<lparr>v_nodes := (v_nodes t)(a \<mapsto> n)\<rparr>)"
      using ok lt by (intro vkeptI [OF ok]) (auto simp: vfs_ok_def split: if_splits)
    then show ?thesis using 3(1) vkept_trans by blast
  qed
  have node: "Q (Some a) (t\<lparr>v_nodes := (v_nodes t)(a \<mapsto> n)\<rparr>)" if "unlinked n" for n
    by (rule assms(3) [OF step [OF that] 3(3)]) (use 3(2) that in simp_all)
  have name: "length (nm[255 := 0]) = 256" "0 \<in> set (nm[255 := 0])" if "strncpy (replicate 256 0) name 255 = Some nm" for nm
    using that set_update_memI [of 255 nm 0]
    by (auto simp: strncpy_def store_bytes_def length_put_bytes split: option.splits if_splits)
  show ?case
    using name by (auto simp: wlp_simps unlinked_def MAX_STRING_LEN_def intro!: node)
qed


lemma wlp_add_child:
  assumes "\<And>np nc. v_nodes s p = Some np \<Longrightarrow> v_nodes s c = Some nc \<Longrightarrow> Q () (s\<lparr>v_nodes := link_child (v_nodes s) p c\<rparr>)"
  shows "wlp (vfs_add_child (Some p) (Some c)) Q E s"
proof (cases "v_nodes s p = None \<or> v_nodes s c = None")
  case True
  then show ?thesis by (auto simp: vfs_add_child_def wlp_simps)
next
  case False
  then obtain np nc where n: "v_nodes s p = Some np" "v_nodes s c = Some nc" by auto
  show ?thesis
    using assms [OF n] n by (cases "n_children np") (auto simp: vfs_add_child_def wlp_simps link_child_def Let_def)
qed

text \<open>A new node that becomes a child; without a parent it stays alone.\<close>

lemma wlp_new_child:
  assumes "vfs_ok s" "v_nodes s a = None" "v_nodes t = (v_nodes s)(a \<mapsto> n)" "unlinked n" "vkept s t" "is_node s parent"
    and "\<And>u. vkept s u \<Longrightarrow> v_nodes u a \<noteq> None \<Longrightarrow> wlp (f ()) Q E u"
  shows "wlp (bindP (set_node a (\<lambda>n. n\<lparr>n_parent := parent\<rparr>)) (\<lambda>_. bindP (vfs_add_child parent (Some a)) f)) Q E t"
proof -
  let ?n = "n\<lparr>n_parent := parent\<rparr>"
  let ?t = "t\<lparr>v_nodes := (v_nodes s)(a \<mapsto> ?n)\<rparr>"
  obtain K where K: "tree (v_nodes s) K" using assms(1) by (auto simp: vfs_ok_def)
  have t: "vfs_ok t" "v_nodes t a = Some n" using assms(3,5) by (simp_all add: vkept_def)
  have tree: "tree (v_nodes ?t) (K(a := []))" using tree_new [OF K assms(2), of ?n] assms(4) by (simp add: unlinked_def)
  have kt: "vkept t ?t"
    using t tree assms(3) by (intro vkeptI [OF t(1) tree]) (auto simp: vfs_ok_def split: if_splits)
  have "wlp (vfs_add_child parent (Some a)) (\<lambda>x. wlp (f x) Q E) E ?t"
  proof (cases parent)
    case None
    then show ?thesis using assms(7) [OF vkept_trans [OF assms(5) kt]] by (simp add: vfs_add_child_def wlp_simps)
  next
    case (Some p)
    have p: "p \<noteq> a" "v_nodes s p \<noteq> None" using assms(2,6) Some by auto
    have "wlp (vfs_add_child (Some p) (Some a)) (\<lambda>x. wlp (f x) Q E) E ?t"
    proof (rule wlp_add_child)
      fix np nc assume n: "v_nodes ?t p = Some np" "v_nodes ?t a = Some nc"
      have nc: "n_parent nc = Some p" "n_prev nc = None" using n(2) assms(4) Some by (auto simp: unlinked_def)
      have no: "a \<notin> set ((K(a := [])) q)" if "v_nodes ?t q = Some m" for q m
        using that treeD(4) [OF K, of q _ a] assms(2) by (auto split: if_splits)
      have "tree (link_child (v_nodes ?t) p a) ((K(a := []))(p := a # (K(a := [])) p))"
        by (rule tree_link [OF tree n p(1) nc]) (rule no)
      moreover have dom: "(link_child (v_nodes ?t) p a x = None) = (v_nodes ?t x = None)" for x
        by (rule link_dom [OF tree n(1) _ p(1) no [OF n(1)]]) (use n(2) in simp)
      moreover have "vfs_ok ?t" using kt by (simp add: vkept_def)
      ultimately have "vkept ?t (?t\<lparr>v_nodes := link_child (v_nodes ?t) p a\<rparr>)"
        by (intro vkeptI) (simp_all add: vfs_ok_def)
      then have "vkept s (?t\<lparr>v_nodes := link_child (v_nodes ?t) p a\<rparr>)" using vkept_trans assms(5) kt by blast
      then show "wlp (f ()) Q E (?t\<lparr>v_nodes := link_child (v_nodes ?t) p a\<rparr>)"
        by (rule assms(7)) (use dom [of a] in simp)
    qed
    then show ?thesis unfolding Some .
  qed
  then show ?thesis using t(2) assms(3) by (simp add: wlp_simps)
qed


section \<open>The operations keep the invariant\<close>

lemma fd_node_ok:
  assumes "vfs_ok s" "unat fd < 256"
  shows "is_node s (fd_node (v_fds s ! unat fd))"
  using assms by (simp add: vfs_ok_def)

lemma wlp_fd_open:
  fixes fd :: u32
  assumes "vfs_ok s" "Q None s"
    and "\<And>d a. unat fd < 256 \<Longrightarrow> fd_node d = Some a \<Longrightarrow> v_nodes s a \<noteq> None \<Longrightarrow> d = v_fds s ! unat fd \<Longrightarrow> Q (Some d) s"
  shows "wlp (fd_open fd) Q E s"
proof (cases "fd \<ge> 256 \<or> fd_node (v_fds s ! unat fd) = None")
  case True
  then show ?thesis using assms(2) by (auto simp: wlp_fd)
next
  case False
  then obtain a where "fd_node (v_fds s ! unat fd) = Some a" "unat fd < 256" by (auto simp: word_le_nat_alt)
  then show ?thesis using fd_node_ok [OF assms(1), of fd] assms(3) False by (simp add: wlp_fd)
qed

lemma vkept_fd:
  assumes "vkept s s'" "v_fds s' = fs" "fd_node f = None \<or> fd_node f = fd_node (fs ! unat fd)" "unat (fd :: u32) < 256"
  shows "vkept s (s'\<lparr>v_fds := fs[unat fd := f]\<rparr>)"
proof -
  have s': "vfs_ok s'" using assms(1) by (simp add: vkept_def)
  have "is_node s' (fd_node f)" using fd_node_ok [OF s' assms(4)] assms(2,3) by auto
  from vkept_fds [OF s' this] show ?thesis using vkept_trans [OF assms(1)] assms(2) by simp
qed

text \<open>What a search in the tree returns is a node.\<close>

lemma find_child_node:
  assumes "find_child_from nodes name child = Some r"
  shows "r = Some a \<longrightarrow> nodes a \<noteq> None"
proof (rule find_child_from.raw_induct [OF _ assms, of "\<lambda>nodes name child r. r = Some a \<longrightarrow> nodes a \<noteq> None"], goal_cases)
  case (1 find nodes name child r)
  then show ?case by (auto split: option.splits bind_splits if_splits)
qed

lemma walk_path_node:
  assumes "walk_path nodes token buf nxt current = Some r"
  shows "(\<forall>b. current = Some b \<longrightarrow> nodes b \<noteq> None) \<longrightarrow> r = Some a \<longrightarrow> nodes a \<noteq> None"
proof (rule walk_path.raw_induct [OF _ assms, of "\<lambda>nodes token buf nxt current r.
    (\<forall>b. current = Some b \<longrightarrow> nodes b \<noteq> None) \<longrightarrow> r = Some a \<longrightarrow> nodes a \<noteq> None"], goal_cases)
  case (1 walk nodes token buf nxt current r)
  have "\<forall>b. child = Some b \<longrightarrow> nodes b \<noteq> None" if "vfs_find_child nodes current name = Some child" for name child
    using that find_child_node by (fastforce simp: vfs_find_child_def split: option.splits bind_splits)
  with 1 show ?case by (fastforce split: option.splits bind_splits)
qed

lemma lookup_path_node:
  assumes "lookup_path nodes root stk path = Some (Some a)" "\<And>b. root = Some b \<Longrightarrow> nodes b \<noteq> None"
  shows "nodes a \<noteq> None"
  using assms walk_path_node [of nodes _ _ _ root "Some a" a]
  by (auto simp: lookup_path_def split: list.splits if_splits bind_splits)

lemma lookup_is_node:
  assumes "vfs_ok s" "lookup_path (v_nodes s) (v_root s) stk path = Some p"
  shows "is_node s p"
proof -
  have "is_node s (v_root s)" using assms(1) by (simp add: vfs_ok_def)
  then have "v_nodes s b \<noteq> None" if "v_root s = Some b" for b using that by simp
  then show ?thesis
    using lookup_path_node [of "v_nodes s" "v_root s" stk path] assms(2) by (cases p) (simp_all only: is_node_simps, blast)
qed

lemma get_parent_ok:
  assumes "vfs_ok s" "\<And>p. is_node s p \<Longrightarrow> Q p s"
  shows "wlp (vfs_get_parent stk path) Q E s"
  using assms lookup_is_node [OF assms(1)] by (auto simp: vfs_get_parent_def wlp_simps vfs_ok_def split: option.splits)

lemma create_file_ok:
  assumes "vfs_ok s" "Q None s" "\<And>s'. vkept s s' \<Longrightarrow> Q None s'" "\<And>a s'. vkept s s' \<Longrightarrow> v_nodes s' a \<noteq> None \<Longrightarrow> Q (Some a) s'"
  shows "wlp (create_file stk path) Q E s"
  unfolding create_file_def wlp_bindP [of "vfs_get_parent stk path"]
proof (rule get_parent_ok [OF assms(1)])
  fix parent assume p: "is_node s parent"
  have "wlp (vfs_create_node name (S_IFREG OR 0x1B6) 0 0) (\<lambda>x. wlp (case x of None \<Rightarrow> ret None | Some a \<Rightarrow>
      bindP (set_node a (\<lambda>n. n\<lparr>n_parent := parent\<rparr>)) (\<lambda>_. bindP (vfs_add_child parent x) (\<lambda>_. ret x))) Q E) E s" for name
  proof (rule wlp_create_node [OF assms(1)], goal_cases)
    case (1 s')
    then show ?case using assms(3) by (simp add: wlp_simps)
  next
    case (2 a n s')
    then show ?case
      unfolding option.case by (intro wlp_new_child [OF assms(1) 2(2-4) 2(1) p]) (simp add: wlp_simps assms(4))
  qed
  then show "wlp (bindP (the_or_ub (vfs_get_basename path)) (\<lambda>name. bindP (vfs_create_node name (S_IFREG OR 0x1B6) 0 0) (\<lambda>node.
      case node of None \<Rightarrow> ret None | Some a \<Rightarrow> bindP (set_node a (n_parent_update (\<lambda>_. parent))) (\<lambda>_.
        bindP (vfs_add_child parent node) (\<lambda>_. ret node))))) Q E s"
    by (simp add: wlp_bindP wlp_the_or_ub)
qed

text \<open>
  What the functions of this file rely on when they call through a table of operations: the
  callback leaves the state well formed, loses no node and does not touch the descriptors.
\<close>

definition called :: "'d vfs \<Rightarrow> 'd vfs \<Rightarrow> bool" where
  "called s s' = (vkept s s' \<and> v_fds s' = v_fds s)"

locale node_ops =
  fixes tab :: "u64 \<Rightarrow> 'd vfs_ops"
  assumes open_called: "node_op tab op_open n = Some f1 \<Longrightarrow> vfs_ok s \<Longrightarrow> v_nodes s a \<noteq> None \<Longrightarrow>
      wlp (f1 a flags) (\<lambda>_. called s) (\<lambda>_. called s) s"
    and close_called: "node_op tab op_close n = Some f2 \<Longrightarrow> vfs_ok s \<Longrightarrow> v_nodes s a \<noteq> None \<Longrightarrow>
      wlp (f2 a) (\<lambda>_. called s) (\<lambda>_. called s) s"
    and read_called: "node_op tab op_read n = Some f3 \<Longrightarrow> vfs_ok s \<Longrightarrow> v_nodes s a \<noteq> None \<Longrightarrow>
      wlp (f3 a offset sz buffer) (\<lambda>_. called s) (\<lambda>_. called s) s"
    and write_called: "node_op tab op_write n = Some f4 \<Longrightarrow> vfs_ok s \<Longrightarrow> v_nodes s a \<noteq> None \<Longrightarrow>
      wlp (f4 a offset sz buffer) (\<lambda>_. called s) (\<lambda>_. called s) s"
begin

lemma vfs_read_ok:
  assumes "vfs_ok s"
  shows "wlp (vfs_read tab fd sz buffer) (\<lambda>_. vkept s) (\<lambda>_. vkept s) s"
  unfolding vfs_read_def wlp_bindP [of "fd_open fd"]
proof (rule wlp_fd_open [OF assms], goal_cases)
  case 1
  then show ?case using vkept_refl [OF assms] by (simp add: wlp_simps)
next
  case (2 d a)
  have "wlp (case node_op tab op_read n of None \<Rightarrow> ret (0, buffer) | Some f \<Rightarrow> bindP (f a (fd_offset d) sz buffer) (\<lambda>(br, out).
      bindP (if br > 0 then set_fd fd (\<lambda>f. f\<lparr>fd_offset := fd_offset f + word_of_int br\<rparr>) else ret ()) (\<lambda>_. ret (br, out))))
      (\<lambda>_. vkept s) (\<lambda>_. vkept s) s" for n
  proof (cases "node_op tab op_read n")
    case None
    then show ?thesis using vkept_refl [OF assms] by (simp add: wlp_simps)
  next
    case (Some f)
    have "wlp (f a (fd_offset d) sz buffer) (\<lambda>x. wlp (case x of (br, out) \<Rightarrow>
        bindP (if br > 0 then set_fd fd (\<lambda>f. f\<lparr>fd_offset := fd_offset f + word_of_int br\<rparr>) else ret ()) (\<lambda>_. ret (br, out)))
        (\<lambda>_. vkept s) (\<lambda>_. vkept s)) (\<lambda>_. vkept s) s"
      by (rule wlp_conseq [OF read_called [OF Some assms 2(3)]])
        (auto simp: wlp_simps called_def intro!: vkept_fd)
    then show ?thesis using Some by (simp add: wlp_bindP)
  qed
  moreover have a: "the (fd_node d) = a" using 2(2) by simp
  ultimately show ?case unfolding option.case a by (simp add: wlp_bindP [of "node_at a"] wlp_node_at vfs_check_capability_def)
qed

lemma vfs_write_ok:
  assumes "vfs_ok s"
  shows "wlp (vfs_write tab fd sz buffer) (\<lambda>_. vkept s) (\<lambda>_. vkept s) s"
  unfolding vfs_write_def wlp_bindP [of "fd_open fd"]
proof (rule wlp_fd_open [OF assms], goal_cases)
  case 1
  then show ?case using vkept_refl [OF assms] by (simp add: wlp_simps)
next
  case (2 d a)
  let ?upd = "\<lambda>bw. if bw > 0 then
               bindP (set_fd fd (\<lambda>f. f\<lparr>fd_offset := fd_offset f + word_of_int bw\<rparr>)) (\<lambda>_.
               bindP system_time (\<lambda>now.
               bindP (set_node a (\<lambda>n. n\<lparr>n_size := n_size n + word_of_int bw, n_modify_time := now\<rparr>)) (\<lambda>_. ret bw)))
             else ret bw"
  have upd: "wlp (?upd bw) (\<lambda>_. vkept s) (\<lambda>_. vkept s) s'" if c: "called s s'" for bw s'
  proof -
    have "vkept s (t\<lparr>v_nodes := (v_nodes t)(a \<mapsto> m)\<rparr>)" if "vkept s t" "v_nodes t a = Some n" "same_links n m" for t n m
      using vkept_upd [OF _ that(2,3)] that(1) vkept_trans by (auto simp: vkept_def)
    from this [OF vkept_fd] show ?thesis
      using c 2(1) by (auto simp: wlp_simps called_def same_links_def)
  qed
  have "wlp (case node_op tab op_write n of None \<Rightarrow> ret 0 | Some f \<Rightarrow> bindP (f a (fd_offset d) sz buffer) ?upd)
      (\<lambda>_. vkept s) (\<lambda>_. vkept s) s" for n
  proof (cases "node_op tab op_write n")
    case None
    then show ?thesis using vkept_refl [OF assms] by (simp add: wlp_simps)
  next
    case (Some f)
    have "wlp (f a (fd_offset d) sz buffer) (\<lambda>x. wlp (?upd x) (\<lambda>_. vkept s) (\<lambda>_. vkept s)) (\<lambda>_. vkept s) s"
      by (rule wlp_conseq [OF write_called [OF Some assms 2(3)]]) (use upd in \<open>auto simp: called_def\<close>)
    then show ?thesis using Some by (simp add: wlp_bindP)
  qed
  moreover have a: "the (fd_node d) = a" using 2(2) by simp
  ultimately show ?case unfolding option.case a by (simp add: wlp_bindP [of "node_at a"] wlp_node_at vfs_check_capability_def)
qed

lemma vfs_close_ok:
  assumes "vfs_ok s"
  shows "wlp (vfs_close tab fd) (\<lambda>_. vkept s) (\<lambda>_. vkept s) s"
  unfolding vfs_close_def wlp_bindP [of "fd_open fd"]
proof (rule wlp_fd_open [OF assms], goal_cases)
  case 1
  then show ?case using vkept_refl [OF assms] by (simp add: wlp_simps)
next
  case (2 d a)
  let ?s = "s\<lparr>v_fds := (v_fds s)[unat fd := d\<lparr>fd_reference_count := fd_reference_count d - 1\<rparr>]\<rparr>"
  have s1: "vkept s ?s" using vkept_fd [OF vkept_refl [OF assms] refl] 2 by simp
  let ?clear = "set_fd fd (\<lambda>f. f\<lparr>fd_node := None, fd_flags := 0, fd_offset := 0\<rparr>)"
  let ?P = "\<lambda>n. bindP (case node_op tab op_close n of None \<Rightarrow> ret () | Some f \<Rightarrow> bindP (f a) (\<lambda>_. ret ())) (\<lambda>_. ?clear)"
  have clear: "wlp ?clear (\<lambda>_. vkept s) (\<lambda>_. vkept s) t" if "vkept s t" for t
    using vkept_fd [OF that refl, of _ fd] 2(1) by (simp add: wlp_simps)
  have call: "wlp (?P n) (\<lambda>_. vkept s) (\<lambda>_. vkept s) ?s" for n
  proof (cases "node_op tab op_close n")
    case None
    then show ?thesis using clear [OF s1] by (simp add: wlp_simps)
  next
    case (Some f)
    have ok: "vfs_ok ?s" "v_nodes ?s a \<noteq> None" using s1 2(3) by (simp_all add: vkept_def)
    have "wlp (f a) (\<lambda>_. wlp ?clear (\<lambda>_. vkept s) (\<lambda>_. vkept s)) (\<lambda>_. vkept s) ?s"
    proof (rule wlp_conseq [OF close_called [OF Some ok]], goal_cases)
      case (1 r t)
      then show ?case using clear vkept_trans [OF s1] by (simp add: called_def)
    qed (use vkept_trans [OF s1] in \<open>simp add: called_def\<close>)
    then show ?thesis using Some by (simp add: wlp_bindP wlp_basic(1))
  qed
  have a: "the (fd_node d) = a" using 2(2) by simp
  show ?case
    unfolding option.case a using call s1 2(1,4)
    by (cases "fd_reference_count d = 1") (auto simp: wlp_bindP wlp_fd wlp_basic wlp_node_at)
qed

lemma open_node_ok:
  assumes "vkept s t" "v_nodes t a \<noteq> None"
  shows "wlp (open_node tab flags a n) (\<lambda>_. vkept s) (\<lambda>_. vkept s) t"
proof -
  let ?I = "\<lambda>_. vkept s"
  let ?entry = "\<lparr>fd_node = Some a, fd_offset = 0, fd_flags = flags, fd_reference_count = 1\<rparr>"
  let ?call = "\<lambda>fd. case node_op tab op_open n of None \<Rightarrow> ret fd
     | Some f \<Rightarrow> bindP (f a flags) (\<lambda>r. if r < 0 then bindP (vfs_free_fd fd) (\<lambda>_. throw r) else ret fd)"
  have call: "wlp (?call fd) ?I ?I u" if u: "vkept s u" "v_nodes u a \<noteq> None" for fd u
  proof (cases "node_op tab op_open n")
    case None
    then show ?thesis using u(1) by (simp add: wlp_simps)
  next
    case (Some f)
    have ok: "vfs_ok u" using u(1) by (simp add: vkept_def)
    have "wlp (f a flags) (\<lambda>r. wlp (if r < 0 then bindP (vfs_free_fd fd) (\<lambda>_. throw r) else ret fd) ?I ?I) ?I u"
    proof (rule wlp_conseq [OF open_called [OF Some ok u(2)]], goal_cases)
      case (1 r w)
      then have "vkept s w" using u(1) vkept_trans by (auto simp: called_def)
      then show ?case by (auto simp: vfs_free_fd_def wlp_simps no_fd_def intro!: vkept_fd)
    next
      case (2 e w)
      then show ?case using u(1) vkept_trans by (auto simp: called_def)
    qed
    then show ?thesis using Some by (simp add: wlp_bindP)
  qed
  have "vkept s (t\<lparr>v_fds := (v_fds t)[unat fd := ?entry]\<rparr>)" for fd :: u32
    using vkept_fds [of t ?entry] assms vkept_trans [of s t] by (simp add: vkept_def)
  from call [OF this] show ?thesis
    using assms by (simp add: open_node_def wlp_bindP wlp_fd wlp_if wlp_basic)
qed

lemma vfs_open_ok:
  assumes "vfs_ok s"
  shows "wlp (vfs_open tab stk path flags) (\<lambda>_. vkept s) (\<lambda>_. vkept s) s"
proof -
  let ?I = "\<lambda>_. vkept s"
  let ?rest = "\<lambda>node. case node of None \<Rightarrow> throw ERR_INVALID
     | Some a \<Rightarrow> bindP (node_at a) (\<lambda>n.
         if flags AND O_WRITE \<noteq> 0 \<and> \<not> vfs_check_capability vfs_current_pid (n_permissions n) CAP_WRITE
         then throw ERR_PERMISSION else open_node tab flags a n)"
  have rest: "wlp (?rest node) ?I ?I t" if "vkept s t" for node t
    using that open_node_ok [OF that]
    by (cases node) (simp_all add: wlp_basic wlp_bindP [of "node_at _"] wlp_node_at vfs_check_capability_def)
  have body: "wlp (if node = None then create_file stk path else ret node) (\<lambda>node. wlp (?rest node) ?I ?I) ?I s" for node
  proof (cases node)
    case None
    have "wlp (create_file stk path) (\<lambda>node. wlp (?rest node) ?I ?I) ?I s"
      by (rule create_file_ok [OF assms rest rest rest]) (use vkept_refl [OF assms] in simp_all)
    then show ?thesis unfolding None by (simp only: simp_thms if_True)
  next
    case (Some a)
    have "wlp (ret (Some a)) (\<lambda>node. wlp (?rest node) ?I ?I) ?I s"
      unfolding wlp_basic(1) by (rule rest [OF vkept_refl [OF assms]])
    then show ?thesis unfolding Some by (simp only: option.distinct if_False)
  qed
  show ?thesis
    unfolding vfs_open_def wlp_bindP [of "vfs_lookup (stk 2) path"] wlp_vfs_lookup
  proof (intro allI impI, goal_cases)
    case (1 node)
    show ?case
    proof (cases "node = None \<and> flags AND O_CREATE = 0")
      case True
      then show ?thesis using vkept_refl [OF assms] by (simp add: wlp_basic)
    next
      case False
      show ?thesis
        unfolding if_not_P [OF False] wlp_bindP [of "if node = None then create_file stk path else ret node"] by (rule body)
    qed
  qed
qed

end

lemma vfs_mkdir_ok:
  assumes "vfs_ok s" "is_node s parent"
  shows "wlp (vfs_mkdir parent name permissions) (\<lambda>_. vkept s) (\<lambda>_. vkept s) s"
proof (cases parent)
  case None
  then show ?thesis using vkept_refl [OF assms(1)] by (simp add: vfs_mkdir_def wlp_simps)
next
  case (Some p)
  have "wlp (vfs_create_node name (S_IFDIR OR permissions) 0 0) (\<lambda>x. wlp (case x of None \<Rightarrow> throw ERR_NO_MEMORY | Some a \<Rightarrow>
      bindP (set_node a (\<lambda>n. n\<lparr>n_parent := parent\<rparr>)) (\<lambda>_. bindP (vfs_add_child parent x) (\<lambda>_. ret ERR_SUCCESS)))
      (\<lambda>_. vkept s) (\<lambda>_. vkept s)) (\<lambda>_. vkept s) s"
  proof (rule wlp_create_node [OF assms(1)], goal_cases)
    case (1 s')
    then show ?case by (simp add: wlp_simps)
  next
    case (2 a n s')
    then show ?case
      unfolding option.case by (intro wlp_new_child [OF assms(1) 2(2-4) 2(1) assms(2)]) (simp add: wlp_simps)
  qed
  then show ?thesis
    unfolding Some by (simp add: vfs_mkdir_def wlp_bindP wlp_node_at vfs_check_capability_def)
qed

lemma vfs_mount_ok:
  assumes "vfs_ok s"
  shows "wlp (vfs_mount stk device mount_point fstype) (\<lambda>_. vkept s) (\<lambda>_. vkept s) s"
proof -
  let ?I = "\<lambda>_. vkept s"
  have mps: "vkept s (t\<lparr>v_mps := x, v_mount_points := y\<rparr>) = vkept s t" for t x y
  proof -
    have "is_node (t\<lparr>v_mps := x, v_mount_points := y\<rparr>) p = is_node t p" for p by (cases p) simp_all
    then show ?thesis by (simp add: vkept_def vfs_ok_def)
  qed
  have upd: "vkept s (t\<lparr>v_nodes := (v_nodes t)(m \<mapsto> n\<lparr>n_mount_point := r\<rparr>)\<rparr>)" if "vkept s t" "v_nodes t m = Some n" for t m n r
    using vkept_upd [of t m n "n\<lparr>n_mount_point := r\<rparr>"] that vkept_trans [OF that(1)] by (simp add: vkept_def same_links_def)
  let ?rest = "\<lambda>m a. bindP (the_or_ub (strncpy (replicate MAX_STRING_LEN 0) device (MAX_STRING_LEN - 1))) (\<lambda>dev.
       bindP (the_or_ub (strncpy (replicate MAX_STRING_LEN 0) fstype (MAX_STRING_LEN - 1))) (\<lambda>typ.
       bindP (the_or_ub (strcmp fstype [0x65, 0x78, 0x74, 0x32, 0])) (\<lambda>c.
       bindP (gets v_ext2_root) (\<lambda>ext2_root.
       let root = if c = 0 then ext2_root else None in
       bindP (if root = None then ret () else set_node m (\<lambda>n. n\<lparr>n_mount_point := root\<rparr>)) (\<lambda>_.
       bindP (modify (\<lambda>s. s\<lparr>v_mps := (v_mps s)(a \<mapsto>
           \<lparr>mp_device = dev, mp_fstype = typ, mp_mount_point = Some m,
            mp_root = (if root = None then Some m else root), mp_fs_data = None, mp_next = v_mount_points s\<rparr>),
         v_mount_points := Some a\<rparr>)) (\<lambda>_.
       ret ERR_SUCCESS))))))"
  have rest: "wlp (?rest m a) ?I ?I t" if "vkept s t" for m a t
    using that upd mps by (simp add: wlp_simps Let_def)
  have room: "wlp (kmalloc sizeof_mount_point) (\<lambda>mp. wlp (case mp of None \<Rightarrow> throw ERR_NO_MEMORY | Some a \<Rightarrow> ?rest m a) ?I ?I) ?I s" for m
    by (rule wlp_kmalloc [OF assms]) (use rest in \<open>simp_all add: sizeof_mount_point_def wlp_basic\<close>)
  show ?thesis
    unfolding vfs_mount_def wlp_bindP [of "vfs_lookup stk mount_point"] wlp_vfs_lookup
  proof (intro allI impI, goal_cases)
    case (1 p)
    show ?case
    proof (cases p)
      case None
      then show ?thesis using vkept_refl [OF assms] by (simp add: wlp_basic)
    next
      case (Some m)
      show ?thesis unfolding Some option.case wlp_bindP [of "kmalloc sizeof_mount_point"] by (rule room)
    qed
  qed
qed

lemma make_dirs_ok:
  assumes "vfs_ok s" "is_node s root"
  shows "wlp (make_dirs root ds) (\<lambda>_. vkept s) (\<lambda>_. vkept s) s"
  using assms
proof (induction ds arbitrary: s)
  case Nil
  then show ?case using vkept_refl by (simp add: wlp_simps)
next
  case (Cons d ds)
  have rest: "wlp (make_dirs root ds) (\<lambda>_. vkept s) (\<lambda>_. vkept s) t" if "vkept s t" for t
  proof -
    have "vfs_ok t" "is_node t root" using that is_node_mono [OF Cons.prems(2), of t] by (simp_all add: vkept_def)
    from Cons.IH [OF this] have "wlp (make_dirs root ds) (\<lambda>_. vkept t) (\<lambda>_. vkept t) t" .
    then show ?thesis by (rule wlp_conseq) (use vkept_trans [OF that] in simp_all)
  qed
  show ?case
    unfolding make_dirs.simps wlp_bindP wlp_ignoreP
    by (rule wlp_conseq [OF vfs_mkdir_ok [OF Cons.prems]]) (rule rest, assumption)+
qed

lemma vfs_init_ok:
  assumes "vfs_ok s"
  shows "wlp vfs_init (\<lambda>_. vkept s) (\<lambda>_. vkept s) s"
proof -
  let ?I = "\<lambda>_. vkept s"
  have fds: "vkept s (t\<lparr>v_fds := replicate 256 no_fd\<rparr>)" if "vkept s t" for t
  proof -
    have "is_node (t\<lparr>v_fds := x\<rparr>) p = is_node t p" for p x by (cases p) simp_all
    then show ?thesis using that by (simp add: vkept_def vfs_ok_def no_fd_def)
  qed
  have dirs: "wlp (make_dirs root std_dirs) (\<lambda>_. wlp (modify (\<lambda>s. s\<lparr>v_fds := replicate 256 no_fd\<rparr>)) ?I ?I) ?I (t\<lparr>v_root := root\<rparr>)"
    if "vkept s t" "is_node t root" for t root
  proof -
    let ?t = "t\<lparr>v_root := root\<rparr>"
    have n: "is_node ?t p = is_node t p" for p by (cases p) simp_all
    have t: "vkept s ?t" using that n by (simp add: vkept_def vfs_ok_def)
    have "wlp (make_dirs root std_dirs) (\<lambda>_. vkept ?t) (\<lambda>_. vkept ?t) ?t"
      using make_dirs_ok [of ?t root] t that(2) n by (simp add: vkept_def)
    then show ?thesis by (rule wlp_conseq) (use fds vkept_trans [OF t] in \<open>simp_all add: wlp_basic\<close>)
  qed
  show ?thesis
    unfolding vfs_init_def wlp_bindP [of "vfs_create_node _ _ _ _"]
    by (rule wlp_create_node [OF assms]) (use dirs in \<open>simp_all add: wlp_bindP wlp_basic(4)\<close>)
qed


section \<open>Properties\<close>

text \<open>
  C3. \<^verbatim>\<open>vfs_lookup\<close> is the walk along the components of the path: the copy on the stack, the tokenizer
  and the search along the links of the nodes together compute the node that the names lead to from
  the root, and \<^verbatim>\<open>NULL\<close> when some name does not exist.  This holds for absolute paths that fit into
  the copy, whatever the stack holds.
\<close>

theorem vfs_lookup_resolves:
  assumes "tree (v_nodes s) K" "v_root s = Some r" "v_nodes s r \<noteq> None"
    and "cstr p" "length p < MAX_STRING_LEN - 2" "length stk = MAX_STRING_LEN"
  shows "vfs_lookup stk (0x2F # p @ 0 # rest) s = (Val (resolve (v_nodes s) K r (comps p)), s)"
  using lookup_path_resolve [OF assms(1,3-6), of rest] by (simp add: vfs_lookup_def assms(2) the_or_ub_def)

text \<open>The first descriptor that is not in use.\<close>

lemma alloc_fd_first:
  assumes "unat i + length fs \<le> 256" "alloc_fd_from fs i = fd"
  shows "fd = 0xFFFFFFFF \<and> (\<forall>f \<in> set fs. fd_node f \<noteq> None) \<or>
    (\<exists>k < length fs. unat fd = unat i + k \<and> fd_node (fs ! k) = None \<and> (\<forall>j < k. fd_node (fs ! j) \<noteq> None))"
  using assms
proof (induction fs arbitrary: i)
  case (Cons f fs)
  show ?case
  proof (cases "fd_node f")
    case None
    then show ?thesis using Cons.prems(2) by auto
  next
    case (Some a)
    have "unat i + 1 < 2 ^ LENGTH(32)" using Cons.prems(1) by simp
    then have i: "unat (i + 1) = unat i + 1" by (subst unat_add_lem [THEN iffD1]) simp_all
    have "fd = 0xFFFFFFFF \<and> (\<forall>f \<in> set fs. fd_node f \<noteq> None) \<or>
      (\<exists>k < length fs. unat fd = unat (i + 1) + k \<and> fd_node (fs ! k) = None \<and> (\<forall>j < k. fd_node (fs ! j) \<noteq> None))"
      using Cons.IH [of "i + 1"] Cons.prems i Some by simp
    then show ?thesis
    proof (elim disjE exE conjE)
      fix k
      assume "k < length fs" "unat fd = unat (i + 1) + k" "fd_node (fs ! k) = None" "\<forall>j < k. fd_node (fs ! j) \<noteq> None"
      then show ?thesis using i Some by (intro disjI2 exI [of _ "Suc k"]) (auto simp: less_Suc_eq_0_disj)
    qed (use Some in auto)
  qed
qed simp

lemma wp_fd [wp_simps]:
  "wp (fd_open fd) Q' E' s = Q' (if fd \<ge> 256 \<or> fd_node (v_fds s ! unat fd) = None then None else Some (v_fds s ! unat fd)) s"
  "wp (set_fd fd f) R E s = (unat fd < 256 \<and> R () (s\<lparr>v_fds := (v_fds s)[unat fd := f (v_fds s ! unat fd)]\<rparr>))"
  "wp vfs_alloc_fd Q'' E s = Q'' (alloc_fd_from (take 256 (v_fds s)) 0) s"
  "wp (node_at a) Q E s = (case v_nodes s a of None \<Rightarrow> False | Some n \<Rightarrow> Q n s)"
  by (auto simp: fd_open_def set_fd_def vfs_alloc_fd_def node_at_def wp_simps wp_def the_or_ub_def split: option.split)

text \<open>
  C22. Opening an existing node without operations and closing it again: the descriptor is the
  lowest one that was free, be it one of the three that are meant for the standard streams, and
  afterwards it is free again and nothing else has changed.  The only error is that all 256
  descriptors are in use.
\<close>

theorem open_close:
  assumes "vfs_ok s" "tree (v_nodes s) K" "v_root s = Some r" "cstr p" "length p < MAX_STRING_LEN - 2" "length (stk 2) = MAX_STRING_LEN"
    and "resolve (v_nodes s) K r (comps p) = Some a" "v_nodes s a = Some n" "n_ops n = None"
  shows "wp (bindP (vfs_open tab stk (0x2F # p @ 0 # rest) flags) (\<lambda>fd. bindP (vfs_close tab fd) (\<lambda>x. ret (fd, x))))
    (\<lambda>(fd, x) s'. x = ERR_SUCCESS \<and> unat fd < 256 \<and> fd_node (v_fds s ! unat fd) = None \<and>
       (\<forall>j < unat fd. fd_node (v_fds s ! j) \<noteq> None) \<and> s' = s\<lparr>v_fds := (v_fds s)[unat fd := no_fd]\<rparr>)
    (\<lambda>e s'. e = ERR_BUSY \<and> s' = s \<and> (\<forall>f \<in> set (v_fds s). fd_node f \<noteq> None)) s"
proof -
  have fds: "length (v_fds s) = 256" "v_nodes s r \<noteq> None" using assms(1,3) by (auto simp: vfs_ok_def)
  have "vfs_lookup (stk 2) (0x2F # p @ 0 # rest) s = (Val (Some a), s)"
    using lookup_path_resolve [OF assms(2) fds(2) assms(4-6)] assms(3,7) by (simp add: vfs_lookup_def the_or_ub_def)
  then have op: "wp (vfs_open tab stk (0x2F # p @ 0 # rest) flags) Q E s = wp (open_node tab flags a n) Q E s" for Q E
    by (simp add: vfs_open_def wp_def bindP_def ret_def node_at_def the_or_ub_def assms(8) vfs_check_capability_def)
  let ?fd = "alloc_fd_from (v_fds s) 0"
  consider "?fd = 0xFFFFFFFF" "\<forall>f \<in> set (v_fds s). fd_node f \<noteq> None"
    | "unat ?fd < 256" "fd_node (v_fds s ! unat ?fd) = None" "\<forall>j < unat ?fd. fd_node (v_fds s ! j) \<noteq> None"
    using alloc_fd_first [of 0 "v_fds s"] fds(1) by auto
  then show ?thesis
  proof cases
    case 1
    then show ?thesis using fds(1) by (simp add: wp_bindP op open_node_def wp_simps)
  next
    case 2
    then have fd: "?fd \<noteq> 0xFFFFFFFF" "\<not> 256 \<le> ?fd" by (auto simp: word_le_nat_alt)
    show ?thesis
      unfolding wp_bindP op using 2 fd fds(1) assms(8,9)
      by (simp add: open_node_def vfs_close_def wp_simps node_op_def no_fd_def)
  qed
qed


text \<open>A root directory with one directory in it.\<close>

definition demo_node :: "bytes \<Rightarrow> u64 option \<Rightarrow> u64 option \<Rightarrow> vfs_node" where
  "demo_node name parent children = \<lparr>n_name = name @ replicate (MAX_STRING_LEN - length name) 0, n_inode = 0,
     n_mode = S_IFDIR OR 0x1ED, n_size = 0, n_permissions = 0x1ED, n_owner_uid = 0, n_owner_gid = 0, n_create_time = 0,
     n_access_time = 0, n_modify_time = 0, n_link_count = 1, n_ops = None, n_fs_data = None, n_mount_point = None,
     n_next = None, n_prev = None, n_parent = parent, n_children = children\<rparr>"

definition demo_nodes :: "u64 \<Rightarrow> vfs_node option" where
  "demo_nodes = [0 \<mapsto> demo_node [0x2F] None (Some 400), 400 \<mapsto> demo_node [0x64, 0x65, 0x76] (Some 0) None]"

definition demo_kids :: "u64 \<Rightarrow> u64 list" where
  "demo_kids a = (if a = 0 then [400] else [])"

definition demo_vfs :: "'d kstate \<Rightarrow> 'd vfs" where
  "demo_vfs k = \<lparr>v_k = k\<lparr>k_heap := 800\<rparr>, v_nodes = demo_nodes, v_mps = (\<lambda>_. None), v_data = (\<lambda>_. None), v_root = Some 0,
     v_mount_points = None, v_fds = replicate 256 no_fd, v_ext2_root = None, v_base = 0\<rparr>"

lemma demo_tree: "tree demo_nodes demo_kids"
  by (auto simp: tree_def demo_nodes_def demo_kids_def demo_node_def MAX_STRING_LEN_def split: if_splits)

lemma demo_vfs_ok: "vfs_ok (demo_vfs k)"
  using demo_tree
  by (auto simp: vfs_ok_def demo_vfs_def demo_nodes_def no_fd_def heap_inv_def split: if_splits)

lemma demo_resolve: "resolve demo_nodes demo_kids 0 (comps [0x64, 0x65, 0x76]) = Some 400"
  by (simp add: comps.simps demo_kids_def node_name_def demo_nodes_def demo_node_def str_of_def)

theorem vfs_lookup_resolves_witness:
  "\<forall>c. vfs_lookup (replicate 256 7) [0x2F, 0x64, 0x65, 0x76, 0] (demo_vfs (demo_state c)) = (Val (Some 400), demo_vfs (demo_state c))"
proof
  fix c
  show "vfs_lookup (replicate 256 7) [0x2F, 0x64, 0x65, 0x76, 0] (demo_vfs (demo_state c)) = (Val (Some 400), demo_vfs (demo_state c))"
    using vfs_lookup_resolves [of "demo_vfs (demo_state c)" demo_kids 0 "[0x64, 0x65, 0x76]" "replicate 256 7" "[]"] demo_tree demo_resolve
    by (simp add: demo_vfs_def MAX_STRING_LEN_def demo_nodes_def)
qed

definition demo_ops :: "'d vfs_ops" where
  "demo_ops = \<lparr>op_open = None, op_close = None, op_read = None, op_write = None, op_ioctl = None, op_mkdir = None, op_rmdir = None,
     op_create = None, op_unlink = None, op_mount = None, op_umount = None, op_sync = None, op_lookup = None, op_readdir = None\<rparr>"

theorem open_close_witness:
  "\<forall>c. wp (bindP (vfs_open (\<lambda>_. demo_ops) (\<lambda>_. replicate 256 7) [0x2F, 0x64, 0x65, 0x76, 0] O_READ)
      (\<lambda>fd. bindP (vfs_close (\<lambda>_. demo_ops) fd) (\<lambda>x. ret (fd, x))))
    (\<lambda>(fd, x) s'. fd = 0 \<and> x = ERR_SUCCESS) (\<lambda>_ _. False) (demo_vfs (demo_state c))"
proof
  fix c
  let ?s = "demo_vfs (demo_state c)"
  have s: "v_nodes ?s = demo_nodes" "v_root ?s = Some 0" "v_fds ?s = replicate 256 no_fd" by (simp_all add: demo_vfs_def)
  have "wp (bindP (vfs_open (\<lambda>_. demo_ops) (\<lambda>_. replicate 256 7) (0x2F # [0x64, 0x65, 0x76] @ 0 # []) O_READ)
      (\<lambda>fd. bindP (vfs_close (\<lambda>_. demo_ops) fd) (\<lambda>x. ret (fd, x))))
    (\<lambda>(fd, x) s'. fd = 0 \<and> x = ERR_SUCCESS) (\<lambda>_ _. False) ?s"
  proof (rule wp_conseq [OF open_close [OF demo_vfs_ok, where K = demo_kids and r = 0 and a = 400 and n = "demo_node [0x64, 0x65, 0x76] (Some 0) None"]], goal_cases)
    case (9 x s')
    then show ?case using s(3) by (auto simp: no_fd_def unat_gt_0 unat_0_iff dest!: spec [of _ 0])
  qed (use demo_tree demo_resolve s in \<open>simp_all add: MAX_STRING_LEN_def demo_nodes_def, simp_all add: demo_node_def no_fd_def\<close>)
  then show "wp (bindP (vfs_open (\<lambda>_. demo_ops) (\<lambda>_. replicate 256 7) [0x2F, 0x64, 0x65, 0x76, 0] O_READ)
      (\<lambda>fd. bindP (vfs_close (\<lambda>_. demo_ops) fd) (\<lambda>x. ret (fd, x))))
    (\<lambda>(fd, x) s'. fd = 0 \<and> x = ERR_SUCCESS) (\<lambda>_ _. False) ?s" by simp
qed

end
