(* ===== verification/Ext2_Vfs.thy ===== *)
theory Ext2_Vfs
  imports Vfs
begin

unbundle bit_operations_syntax

text \<open>
  The callbacks of the ext2 file system for the virtual file system,
  \<^verbatim>\<open>src/fs/ext2/vfs_integration.c\<close>.  There is one mounted file system, the field \<open>k_fs\<close> of the
  kernel state, so that the data block of a node is its inode number.  The nodes have the
  structure of \<^verbatim>\<open>vfs.c\<close>; the functions are called with nodes and names that are not null.
  Callbacks return their error codes as values.
\<close>

section \<open>Callbacks\<close>

text \<open>A program of the file system as part of a program on the state of the virtual file system.\<close>

definition on_k :: "('d kstate, 'a) prog \<Rightarrow> ('d vfs, 'a) prog" where
  "on_k m = zoom v_k (\<lambda>k s. s\<lparr>v_k := k\<rparr>) m"

definition data_at :: "u64 \<Rightarrow> ('d vfs, u32) prog" where
  "data_at d = (\<lambda>s. the_or_ub (v_data s d) s)"

definition sizeof_vfs_data :: u64 where "sizeof_vfs_data = 16"

definition EXT2_S_IFLNK :: u16 where "EXT2_S_IFLNK = 0xA000"

definition ext2_mode_to_vfs :: "u16 \<Rightarrow> u64" where
  "ext2_mode_to_vfs ext2_mode = (let vfs_mode = ucast (ext2_mode AND 0xFFF) in
     if ext2_mode AND 0xF000 = EXT2_S_IFREG then vfs_mode OR S_IFREG
     else if ext2_mode AND 0xF000 = EXT2_S_IFDIR then vfs_mode OR S_IFDIR
     else if ext2_mode AND 0xF000 = EXT2_S_IFLNK then vfs_mode OR S_IFLNK
     else vfs_mode)"

definition vfs_mode_to_ext2 :: "u64 \<Rightarrow> u16" where
  "vfs_mode_to_ext2 vfs_mode = (let ext2_mode = ucast (vfs_mode AND 0xFFF) in
     if vfs_mode AND 0xF000 = S_IFREG then ext2_mode OR EXT2_S_IFREG
     else if vfs_mode AND 0xF000 = S_IFDIR then ext2_mode OR EXT2_S_IFDIR
     else if vfs_mode AND 0xF000 = S_IFLNK then ext2_mode OR EXT2_S_IFLNK
     else ext2_mode)"

definition ext2_vfs_open :: "u64 \<Rightarrow> u32 \<Rightarrow> ('d vfs, i32) prog" where
  "ext2_vfs_open node flags = ret ERR_SUCCESS"

definition ext2_vfs_close :: "u64 \<Rightarrow> ('d vfs, i32) prog" where
  "ext2_vfs_close node = ret ERR_SUCCESS"

definition ext2_vfs_read :: "u64 \<Rightarrow> u64 \<Rightarrow> u64 \<Rightarrow> bytes \<Rightarrow> ('d vfs, i32 \<times> bytes) prog" where
  "ext2_vfs_read node offset sz buffer =
     bindP (node_at node) (\<lambda>n. case n_fs_data n of
       None \<Rightarrow> ret (ERR_INVALID, buffer)
     | Some d \<Rightarrow>
         bindP (data_at d) (\<lambda>ino.
         bindP (tryP (on_k (ext2_read_inode ino))) (\<lambda>r. case r of
           Inl e \<Rightarrow> ret (e, buffer)
         | Inr inode \<Rightarrow> on_k (ext2_read_file inode offset sz buffer))))"

definition ext2_vfs_write :: "u64 \<Rightarrow> u64 \<Rightarrow> u64 \<Rightarrow> bytes \<Rightarrow> ('d vfs, i32) prog" where
  "ext2_vfs_write node offset sz buffer =
     bindP (node_at node) (\<lambda>n. case n_fs_data n of
       None \<Rightarrow> ret ERR_INVALID
     | Some d \<Rightarrow>
         bindP (data_at d) (\<lambda>ino.
         bindP (tryP (on_k (ext2_read_inode ino))) (\<lambda>r. case r of
           Inl e \<Rightarrow> ret e
         | Inr inode \<Rightarrow>
             bindP (on_k (ext2_write_file inode offset sz buffer)) (\<lambda>(result, inode').
             bindP (if result > 0 then
                 bindP (ignoreP (on_k (ext2_write_inode ino inode'))) (\<lambda>_.
                 set_node node (\<lambda>n. n\<lparr>n_size := ucast (i_size inode')\<rparr>))
               else ret ()) (\<lambda>_.
             ret result)))))"

text \<open>The data block of a node.\<close>

definition attach_data :: "u64 \<Rightarrow> u32 \<Rightarrow> ext2_inode \<Rightarrow> (vfs_node \<Rightarrow> vfs_node) \<Rightarrow> ('d vfs, u64 option) prog" where
  "attach_data node ino inode f =
     bindP (kmalloc sizeof_vfs_data) (\<lambda>p. case p of
       None \<Rightarrow> ret None
     | Some d \<Rightarrow>
         bindP (modify (\<lambda>s. s\<lparr>v_data := (v_data s)(d \<mapsto> ino)\<rparr>)) (\<lambda>_.
         bindP (set_node node (\<lambda>n. f (n\<lparr>n_fs_data := Some d, n_size := ucast (i_size inode), n_inode := ucast ino\<rparr>))) (\<lambda>_.
         ret (Some node))))"

definition ext2_vfs_lookup :: "u64 \<Rightarrow> bytes \<Rightarrow> ('d vfs, u64 option) prog" where
  "ext2_vfs_lookup parent name =
     bindP (node_at parent) (\<lambda>pn. case n_fs_data pn of
       None \<Rightarrow> ret None
     | Some d \<Rightarrow>
         bindP (data_at d) (\<lambda>parent_ino.
         bindP (tryP (on_k (ext2_lookup parent_ino name))) (\<lambda>r. case r of
           Inl _ \<Rightarrow> ret None
         | Inr ino \<Rightarrow>
             bindP (tryP (on_k (ext2_read_inode ino))) (\<lambda>r. case r of
               Inl _ \<Rightarrow> ret None
             | Inr inode \<Rightarrow>
                 bindP (vfs_create_node name (ext2_mode_to_vfs (i_mode inode)) (ucast (i_uid inode)) (ucast (i_gid inode))) (\<lambda>node.
                 case node of None \<Rightarrow> ret None | Some a \<Rightarrow> attach_data a ino inode (\<lambda>n. n))))))"

definition ext2_vfs_readdir :: "u64 \<Rightarrow> u64 \<Rightarrow> u64 \<Rightarrow> ('d vfs, i32) prog" where
  "ext2_vfs_readdir dir index result =
     bindP (node_at dir) (\<lambda>dn. case n_fs_data dn of
       None \<Rightarrow> ret ERR_INVALID
     | Some d \<Rightarrow>
         bindP (data_at d) (\<lambda>dir_ino.
         bindP (tryP (on_k (ext2_readdir dir_ino index))) (\<lambda>r. case r of
           Inl e \<Rightarrow> ret e
         | Inr de \<Rightarrow>
             let ino = of_le32 (get_bytes de 0 4); name_len = unat (de ! 6) in
             bindP (tryP (on_k (ext2_read_inode ino))) (\<lambda>r. case r of
               Inl e \<Rightarrow> ret e
             | Inr inode \<Rightarrow>
                 bindP (node_at result) (\<lambda>rn.
                 bindP (the_or_ub (strncpy (n_name rn) (drop 8 de) name_len)) (\<lambda>name.
                 bindP (set_node result (\<lambda>n. n\<lparr>n_name := name[name_len := 0], n_mode := ext2_mode_to_vfs (i_mode inode),
                     n_size := ucast (i_size inode), n_inode := ucast ino, n_owner_uid := ucast (i_uid inode),
                     n_owner_gid := ucast (i_gid inode)\<rparr>)) (\<lambda>_.
                 ret ERR_SUCCESS)))))))"

text \<open>The number of the new inode is not used.\<close>

definition status :: "('d vfs, 'a) prog \<Rightarrow> ('d vfs, i32) prog" where
  "status m = catch (bindP m (\<lambda>_. ret ERR_SUCCESS)) ret"

definition ext2_vfs_mkdir :: "u64 \<Rightarrow> bytes \<Rightarrow> u64 \<Rightarrow> ('d vfs, i32) prog" where
  "ext2_vfs_mkdir parent name permissions =
     bindP (node_at parent) (\<lambda>pn. case n_fs_data pn of
       None \<Rightarrow> ret ERR_INVALID
     | Some d \<Rightarrow> bindP (data_at d) (\<lambda>ino. status (on_k (ext2_mkdir ino name (ucast permissions)))))"

definition ext2_vfs_create :: "u64 \<Rightarrow> bytes \<Rightarrow> u64 \<Rightarrow> ('d vfs, i32) prog" where
  "ext2_vfs_create parent name permissions =
     bindP (node_at parent) (\<lambda>pn. case n_fs_data pn of
       None \<Rightarrow> ret ERR_INVALID
     | Some d \<Rightarrow> bindP (data_at d) (\<lambda>ino. status (on_k (ext2_create ino name (ucast permissions)))))"

definition ext2_vfs_unlink :: "u64 \<Rightarrow> ('d vfs, i32) prog" where
  "ext2_vfs_unlink node =
     bindP (node_at node) (\<lambda>n. if n_fs_data n = None then ret ERR_INVALID else
       case n_parent n of
         None \<Rightarrow> ret ERR_INVALID
       | Some p \<Rightarrow> bindP (node_at p) (\<lambda>pn. case n_fs_data pn of
           None \<Rightarrow> ret ERR_INVALID
         | Some d \<Rightarrow> bindP (data_at d) (\<lambda>ino. status (on_k (ext2_unlink ino (n_name n))))))"

definition ext2_vfs_sync :: "bytes \<Rightarrow> u64 \<Rightarrow> ('d vfs, i32) prog" where
  "ext2_vfs_sync stk node =
     bindP (node_at node) (\<lambda>n. case n_fs_data n of
       None \<Rightarrow> ret ERR_INVALID
     | Some d \<Rightarrow> bindP (data_at d) (\<lambda>_. status (on_k (ext2_sync stk True))))"

definition ext2_vfs_mount :: "u64 \<Rightarrow> bytes \<Rightarrow> bytes \<Rightarrow> ('d vfs, i32) prog" where
  "ext2_vfs_mount mount_point device fstype = ret ERR_SUCCESS"

definition ext2_vfs_ops :: "bytes \<Rightarrow> 'd vfs_ops" where
  "ext2_vfs_ops stk = \<lparr>op_open = Some ext2_vfs_open, op_close = Some ext2_vfs_close, op_read = Some ext2_vfs_read,
     op_write = Some ext2_vfs_write, op_ioctl = None, op_mkdir = Some ext2_vfs_mkdir, op_rmdir = None,
     op_create = Some ext2_vfs_create, op_unlink = Some ext2_vfs_unlink, op_mount = Some ext2_vfs_mount,
     op_umount = None, op_sync = Some (ext2_vfs_sync stk), op_lookup = Some ext2_vfs_lookup,
     op_readdir = Some ext2_vfs_readdir\<rparr>"

text \<open>The root node; \<open>ops\<close> is the address of the table.\<close>

definition ext2_create_vfs_root :: "u64 \<Rightarrow> bool \<Rightarrow> ('d vfs, u64 option) prog" where
  "ext2_create_vfs_root ops fs = (if \<not> fs then ret None else
     bindP (tryP (on_k (ext2_read_inode EXT2_ROOT_INO))) (\<lambda>r. case r of
       Inl _ \<Rightarrow> ret None
     | Inr root_inode \<Rightarrow>
         bindP (vfs_create_node [0x2F, 0] (ext2_mode_to_vfs (i_mode root_inode)) (ucast (i_uid root_inode)) (ucast (i_gid root_inode))) (\<lambda>root.
         case root of None \<Rightarrow> ret None
         | Some a \<Rightarrow> attach_data a EXT2_ROOT_INO root_inode (\<lambda>n. n\<lparr>n_ops := Some ops\<rparr>))))"


section \<open>The heap only grows\<close>

text \<open>The programs of the file system take memory only through \<^verbatim>\<open>malloc\<close>, in blocks of at most 4 GB.\<close>

definition heap_up :: "'d kstate \<Rightarrow> 'd kstate \<Rightarrow> bool" where
  "heap_up s s' = (heap_inv (k_heap s') \<and> unat (k_heap s) \<le> unat (k_heap s'))"

definition grows :: "('d kstate, 'a) prog \<Rightarrow> bool" where
  "grows m = (\<forall>s. heap_inv (k_heap s) \<longrightarrow> wlp m (\<lambda>_. heap_up s) (\<lambda>_. heap_up s) s)"

named_theorems grows_rules \<open>programs that only let the heap grow\<close>

lemma heap_up_trans: "heap_up s t \<Longrightarrow> heap_up t u \<Longrightarrow> heap_up s u"
  by (simp add: heap_up_def)

lemma growsD: "grows m \<Longrightarrow> heap_up s t \<Longrightarrow> wlp m (\<lambda>_. heap_up s) (\<lambda>_. heap_up s) t"
  by (rule wlp_conseq [where Q = "\<lambda>_. heap_up t" and E = "\<lambda>_. heap_up t"])
    (auto simp: grows_def heap_up_def)

lemma grows_basic [grows_rules]:
  "grows (ret x)" "grows (throw e)" "grows (gets f)" "grows (guard b)" "grows (the_or_ub v)"
  by (simp_all add: grows_def wlp_simps heap_up_def)

lemma grows_modify [grows_rules]: "(\<And>s. k_heap (f s) = k_heap s) \<Longrightarrow> grows (modify f)"
  by (simp add: grows_def wlp_simps heap_up_def)

lemma grows_bindP [grows_rules]: "grows m \<Longrightarrow> (\<And>x. grows (f x)) \<Longrightarrow> grows (bindP m f)"
  unfolding grows_def [of "bindP m f"] wlp_bindP
  by (intro allI impI wlp_conseq [OF growsD [of m]]) (auto intro: growsD simp: heap_up_def)

lemma grows_catch [grows_rules]: "grows m \<Longrightarrow> (\<And>e. grows (h e)) \<Longrightarrow> grows (catch m h)"
  unfolding grows_def [of "catch m h"] wlp_catch
  by (intro allI impI wlp_conseq [OF growsD [of m]]) (auto intro: growsD simp: heap_up_def)

lemma grows_tryP [grows_rules]: "grows m \<Longrightarrow> grows (tryP m)"
  unfolding tryP_def by (intro grows_rules)

lemma grows_ignoreP [grows_rules]: "grows m \<Longrightarrow> grows (ignoreP m)"
  unfolding ignoreP_def by (intro grows_rules)

lemma grows_if [grows_rules]: "(b \<Longrightarrow> grows m) \<Longrightarrow> (\<not> b \<Longrightarrow> grows n) \<Longrightarrow> grows (if b then m else n)"
  by simp

lemma grows_cases [grows_rules]:
  "(\<And>a b. grows (f a b)) \<Longrightarrow> grows (case x of (a, b) \<Rightarrow> f a b)"
  "grows n \<Longrightarrow> (\<And>a. grows (g a)) \<Longrightarrow> grows (case y of None \<Rightarrow> n | Some a \<Rightarrow> g a)"
  "(\<And>a. grows (l a)) \<Longrightarrow> (\<And>b. grows (r b)) \<Longrightarrow> grows (case z of Inl a \<Rightarrow> l a | Inr b \<Rightarrow> r b)"
  by (simp_all split: prod.split option.split sum.split)

lemma grows_ret_i32 [grows_rules]: "grows (ret_i32 x)"
  by (simp add: grows_def wlp_simps heap_up_def)

lemma grows_on_cache [grows_rules]: "grows (on_cache m)"
  by (simp add: grows_def on_cache_def wlp_def zoom_def heap_up_def split: prod.splits outcome.splits)

lemma grows_alloc [grows_rules]: "grows (alloc_buffer (ucast (b :: u32)))"
  unfolding grows_def
proof (intro allI impI)
  fix s :: "'d kstate"
  assume inv: "heap_inv (k_heap s)"
  have "unat (ucast b :: u64) \<le> 2 ^ 32" using unat_u32_lt [of b] by simp
  from malloc_result(1,2) [OF inv this, of "fst (malloc (ucast b) (k_heap s))" "snd (malloc (ucast b) (k_heap s))"] inv
  show "wlp (alloc_buffer (ucast b)) (\<lambda>_. heap_up s) (\<lambda>_. heap_up s) s"
    by (auto simp: alloc_buffer_def k_malloc_def wlp_def bindP_def throw_def ret_def heap_up_def split: prod.splits option.splits)
qed

lemma grows_cache [grows_rules]: "grows (cache_read n b)" "grows (cache_write n b)"
  unfolding cache_read_def cache_write_def by (intro grows_rules)+

lemma grows_inode [grows_rules]:
  "grows (ext2_read_inode ino)" "grows (ext2_write_inode ino inode)"
  unfolding ext2_read_inode_def ext2_write_inode_def inode_place_def Let_def by (intro grows_rules; simp)+

lemma grows_alloc_block [grows_rules]: "grows ext2_alloc_block"
proof -
  have "grows (alloc_block_from gs)" for gs
    by (induction gs) (auto simp: alloc_in_bitmap_def intro!: grows_rules)
  then show ?thesis unfolding ext2_alloc_block_def by (intro grows_rules)
qed

lemma grows_free_block [grows_rules]: "grows (ext2_free_block b)"
  unfolding ext2_free_block_def free_in_bitmap_def Let_def by (intro grows_rules; simp)+

lemma grows_block_num [grows_rules]:
  "grows (ext2_get_block_num inode n)" "grows (ext2_set_block_num inode n b)"
  unfolding ext2_get_block_num_def ext2_set_block_num_def read_entry_def write_entry_def add_indirect_def Let_def
  by (intro grows_rules)+

lemma grows_read_file [grows_rules]: "grows (ext2_read_file inode offset sz buffer)"
proof -
  have "grows (read_loop block_size inode bb out pos offset sz br)" for block_size bb out pos offset sz br
  proof (induction block_size inode bb out pos offset sz br rule: read_loop.induct)
    case (1 block_size inode bb out pos offset sz br)
    show ?case by (subst read_loop.simps) (auto simp: Let_def intro!: grows_rules 1)
  qed
  then show ?thesis unfolding ext2_read_file_def Let_def by (intro grows_rules)
qed

lemma grows_file_block [grows_rules]: "grows (file_block_for block_size inode file_block)"
  unfolding file_block_for_def new_file_block_def by (intro grows_rules)

lemma grows_write_file [grows_rules]: "grows (ext2_write_file inode offset sz buffer)"
proof -
  have "grows (write_chunk block_size block_num bb bo tw src pos)" for block_size block_num bb bo tw src pos
    unfolding write_chunk_def by (intro grows_rules)
  note chunk = grows_tryP [OF this]
  have "grows (write_loop block_size inode bb src pos offset sz bw)" for block_size inode bb src pos offset sz bw
  proof (induction block_size inode bb src pos offset sz bw rule: write_loop.induct)
    case (1 block_size inode bb src pos offset sz bw)
    show ?case by (subst write_loop.simps) (auto simp: Let_def intro!: grows_rules chunk 1)
  qed
  then show ?thesis unfolding ext2_write_file_def Let_def by (intro grows_rules; simp)+
qed

section \<open>The callbacks keep the tree of nodes\<close>

lemma called_refl: "vfs_ok s \<Longrightarrow> called s s"
  by (simp add: called_def vkept_refl)

lemma called_trans: "called s t \<Longrightarrow> called t u \<Longrightarrow> called s u"
  using vkept_trans by (auto simp: called_def)

lemma called_upd: "called s t \<Longrightarrow> v_nodes t a = Some n \<Longrightarrow> same_links n m \<Longrightarrow> called s (t\<lparr>v_nodes := (v_nodes t)(a \<mapsto> m)\<rparr>)"
  using vkept_upd [of t a n m] vkept_trans by (auto simp: called_def vkept_def)

lemma vkept_kernel: "vfs_ok s \<Longrightarrow> heap_up (v_k s) k \<Longrightarrow> vkept s (s\<lparr>v_k := k\<rparr>)"
proof -
  assume ok: "vfs_ok s" and k: "heap_up (v_k s) k"
  obtain K where "tree (v_nodes s) K" using ok by (auto simp: vfs_ok_def)
  then show ?thesis using k by (intro vkeptI [OF ok]) (auto simp: heap_up_def)
qed

lemma wlp_on_k:
  assumes "grows m" "called s t" "\<And>x u. called s u \<Longrightarrow> v_nodes u = v_nodes t \<Longrightarrow> Q x u" "\<And>e u. called s u \<Longrightarrow> v_nodes u = v_nodes t \<Longrightarrow> E e u"
  shows "wlp (on_k m) Q E t"
proof -
  have ok: "vfs_ok t" using assms(2) by (simp add: called_def vkept_def)
  then have "wlp m (\<lambda>_. heap_up (v_k t)) (\<lambda>_. heap_up (v_k t)) (v_k t)"
    using assms(1) by (simp add: grows_def vfs_ok_def)
  moreover have "called s (t\<lparr>v_k := k\<rparr>)" if "heap_up (v_k t) k" for k
    using vkept_kernel [OF ok that] assms(2) vkept_trans by (auto simp: called_def)
  ultimately show ?thesis
    using assms(3,4) unfolding on_k_def wlp_zoom by (auto elim!: wlp_conseq)
qed

lemma wlp_tryP [wlp_simps]: "wlp (tryP m) Q E s = wlp m (\<lambda>x. Q (Inr x)) (\<lambda>e. Q (Inl e)) s"
  by (simp add: tryP_def wlp_simps)

lemma wlp_data_at [wlp_simps]: "wlp (data_at d) Q E s = (\<forall>i. v_data s d = Some i \<longrightarrow> Q i s)"
  by (simp add: data_at_def wlp_def the_or_ub_def split: option.split)

lemma ext2_vfs_read_called:
  assumes "vfs_ok s"
  shows "wlp (ext2_vfs_read node offset sz buffer) (\<lambda>_. called s) (\<lambda>_. called s) s"
proof -
  have "wlp (on_k (ext2_read_inode ino)) (\<lambda>inode. wlp (on_k (ext2_read_file inode offset sz buffer)) (\<lambda>_. called s) (\<lambda>_. called s))
      (\<lambda>_. called s) s" for ino
    by (rule wlp_on_k [OF _ called_refl [OF assms]]) (auto intro: grows_rules wlp_on_k)
  then show ?thesis
    using called_refl [OF assms] by (auto simp: ext2_vfs_read_def wlp_simps split: option.split)
qed

lemma ext2_vfs_write_called:
  assumes "vfs_ok s"
  shows "wlp (ext2_vfs_write node offset sz buffer) (\<lambda>_. called s) (\<lambda>_. called s) s"
proof -
  let ?I = "\<lambda>_. called s"
  let ?fin = "\<lambda>ino (result, inode'). bindP (if result > 0 then
                 bindP (ignoreP (on_k (ext2_write_inode ino inode'))) (\<lambda>_.
                 set_node node (\<lambda>n. n\<lparr>n_size := ucast (i_size inode')\<rparr>))
               else ret ()) (\<lambda>_. ret result)"
  have fin: "wlp (?fin ino (result, inode')) ?I ?I t" if t: "called s t" for ino result inode' t
  proof -
    have "wlp (set_node node (\<lambda>n. n\<lparr>n_size := z\<rparr>)) ?I ?I u" if "called s u" for u z
      using called_upd [OF that] by (auto simp: wlp_simps same_links_def)
    then have "wlp (on_k (ext2_write_inode ino inode')) (\<lambda>_. wlp (set_node node (\<lambda>n. n\<lparr>n_size := ucast (i_size inode')\<rparr>)) ?I ?I)
        (\<lambda>_. wlp (set_node node (\<lambda>n. n\<lparr>n_size := ucast (i_size inode')\<rparr>)) ?I ?I) t"
      by (intro wlp_on_k [OF grows_inode(2) t]) auto
    then show ?thesis using t by (simp add: wlp_bindP wlp_if wlp_ignoreP wlp_basic)
  qed
  have "wlp (on_k (ext2_write_file inode offset sz buffer)) (\<lambda>x. wlp (?fin ino x) ?I ?I) ?I t" if t: "called s t" for inode ino t
    by (rule wlp_on_k [OF grows_write_file t]) (use fin in auto)
  then have "wlp (on_k (ext2_read_inode ino)) (\<lambda>inode. wlp (on_k (ext2_write_file inode offset sz buffer)) (\<lambda>x. wlp (?fin ino x) ?I ?I) ?I)
      ?I s" for ino
    by (intro wlp_on_k [OF grows_inode(1) called_refl [OF assms]]) auto
  then show ?thesis
    using called_refl [OF assms] unfolding ext2_vfs_write_def
    by (auto simp: wlp_bindP wlp_tryP wlp_node_at wlp_data_at wlp_basic split: option.split)
qed

text \<open>The table of the file system is one the virtual file system can call.\<close>

interpretation ext2_ops: node_ops "\<lambda>_. ext2_vfs_ops stk"
proof (unfold_locales, goal_cases)
  case (1 n f s a flags)
  then show ?case by (auto simp: node_op_def ext2_vfs_ops_def ext2_vfs_open_def wlp_simps called_refl split: option.splits)
next
  case (2 n f s a)
  then show ?case by (auto simp: node_op_def ext2_vfs_ops_def ext2_vfs_close_def wlp_simps called_refl split: option.splits)
next
  case (3 n f s a offset sz buffer)
  then show ?case using ext2_vfs_read_called by (auto simp: node_op_def ext2_vfs_ops_def split: option.splits)
next
  case (4 n f s a offset sz buffer)
  then show ?case using ext2_vfs_write_called by (auto simp: node_op_def ext2_vfs_ops_def split: option.splits)
qed

section \<open>Histories of calls\<close>

lemma vkept_data: "vkept s t \<Longrightarrow> vkept s (t\<lparr>v_data := x\<rparr>)"
proof -
  have "is_node (t\<lparr>v_data := x\<rparr>) p = is_node t p" for p by (cases p) simp_all
  then show "vkept s t \<Longrightarrow> vkept s (t\<lparr>v_data := x\<rparr>)" by (simp add: vkept_def vfs_ok_def)
qed

lemma attach_data_ok:
  assumes "vkept s t" "\<And>n d. same_links n (f (n\<lparr>n_fs_data := Some d, n_size := ucast (i_size inode), n_inode := ucast ino\<rparr>))"
  shows "wlp (attach_data a ino inode f) (\<lambda>x u. vkept s u \<and> is_node u x) (\<lambda>_. vkept s) t"
  unfolding attach_data_def wlp_bindP [of "kmalloc sizeof_vfs_data"]
proof (rule wlp_kmalloc [of t], goal_cases)
  case 1
  then show ?case using assms(1) by (simp add: vkept_def)
next
  case 2
  then show ?case by (simp add: sizeof_vfs_data_def)
next
  case (3 s')
  then show ?case using vkept_trans [OF assms(1)] by (simp add: wlp_simps)
next
  case (4 d u)
  have u: "vkept s (u\<lparr>v_data := x\<rparr>)" for x by (rule vkept_data [OF vkept_trans [OF assms(1) 4(1)]])
  have "vkept s (u\<lparr>v_data := x, v_nodes := (v_nodes u)(a \<mapsto> m)\<rparr>)" if "v_nodes u a = Some n" "same_links n m" for x n m
    using vkept_upd [of "u\<lparr>v_data := x\<rparr>" a n m] that u [of x] vkept_trans [OF u [of x]] by (auto simp: vkept_def)
  then show ?case using assms(2) by (auto simp: wlp_simps)
qed

lemma create_root_ok:
  assumes "vfs_ok s"
  shows "wlp (ext2_create_vfs_root ops fs) (\<lambda>x u. vkept s u \<and> is_node u x) (\<lambda>_. vkept s) s"
proof -
  let ?Q = "\<lambda>x u. vkept s u \<and> is_node u x"
  have "wlp (vfs_create_node name mode uid gid) (\<lambda>root. wlp (case root of None \<Rightarrow> ret None
      | Some a \<Rightarrow> attach_data a EXT2_ROOT_INO inode (\<lambda>n. n\<lparr>n_ops := Some ops\<rparr>)) ?Q (\<lambda>_. vkept s)) (\<lambda>_. vkept s) t"
    if t: "called s t" for name mode uid gid inode t
    by (rule wlp_create_node)
      (use t vkept_trans [of s t] in \<open>auto simp: called_def vkept_def [of s t] wlp_basic same_links_def intro!: attach_data_ok\<close>)
  then have "wlp (on_k (ext2_read_inode EXT2_ROOT_INO)) (\<lambda>inode. wlp (vfs_create_node [0x2F, 0] (ext2_mode_to_vfs (i_mode inode))
        (ucast (i_uid inode)) (ucast (i_gid inode))) (\<lambda>root. wlp (case root of None \<Rightarrow> ret None
      | Some a \<Rightarrow> attach_data a EXT2_ROOT_INO inode (\<lambda>n. n\<lparr>n_ops := Some ops\<rparr>)) ?Q (\<lambda>_. vkept s)) (\<lambda>_. vkept s))
      (\<lambda>_ u. ?Q None u) s"
    by (intro wlp_on_k [OF grows_inode(1) called_refl [OF assms]]) (auto simp: called_def)
  then show ?thesis
    using vkept_refl [OF assms] by (simp add: ext2_create_vfs_root_def wlp_if wlp_bindP wlp_tryP wlp_basic)
qed

text \<open>
  The calls of the rest of the kernel: those of \<^verbatim>\<open>vfs.h\<close>, the creation of the root of the mounted file
  system, whose address \<^verbatim>\<open>ext2_init.c\<close> keeps, and steps of the kernel that leave the nodes alone.
\<close>

datatype vfs_call =
    Init
  | Open bytes u32
  | Close u32
  | Read u32 u64 bytes
  | Write u32 u64 bytes
  | Mkdir "u64 option" bytes u64
  | Mount bytes bytes bytes
  | Ext2_root u64

definition run_vfs_call :: "bytes \<Rightarrow> (nat \<Rightarrow> bytes) \<Rightarrow> vfs_call \<Rightarrow> ('d vfs, unit) prog" where
  "run_vfs_call stk ps c = (let tab = (\<lambda>_. ext2_vfs_ops stk) in case c of
     Init \<Rightarrow> vfs_init
   | Open path flags \<Rightarrow> ignoreP (vfs_open tab ps path flags)
   | Close fd \<Rightarrow> ignoreP (vfs_close tab fd)
   | Read fd sz buffer \<Rightarrow> ignoreP (vfs_read tab fd sz buffer)
   | Write fd sz buffer \<Rightarrow> ignoreP (vfs_write tab fd sz buffer)
   | Mkdir parent name permissions \<Rightarrow> ignoreP (vfs_mkdir parent name permissions)
   | Mount device mount_point fstype \<Rightarrow> ignoreP (vfs_mount (ps 0) device mount_point fstype)
   | Ext2_root ops \<Rightarrow> bindP (ext2_create_vfs_root ops True) (\<lambda>r. modify (\<lambda>s. s\<lparr>v_ext2_root := r\<rparr>)))"

fun call_args_ok :: "'d vfs \<Rightarrow> vfs_call \<Rightarrow> bool" where
  "call_args_ok s (Mkdir parent _ _) = is_node s parent"
| "call_args_ok s _ = True"

definition vfs_boot :: "'d kstate \<Rightarrow> u64 \<Rightarrow> 'd vfs" where
  "vfs_boot k base = \<lparr>v_k = k, v_nodes = Map.empty, v_mps = Map.empty, v_data = Map.empty, v_root = None,
     v_mount_points = None, v_fds = replicate 256 no_fd, v_ext2_root = None, v_base = base\<rparr>"

inductive vfs_reachable :: "'d vfs \<Rightarrow> bool" where
  boot: "heap_inv (k_heap k) \<Longrightarrow> vfs_reachable (vfs_boot k base)"
| call: "vfs_reachable s \<Longrightarrow> call_args_ok s c \<Longrightarrow> run_vfs_call stk ps c s = (Val (), s') \<Longrightarrow> vfs_reachable s'"
| kernel: "vfs_reachable s \<Longrightarrow> heap_up (v_k s) k \<Longrightarrow> vfs_reachable (s\<lparr>v_k := k\<rparr>)"

inductive_cases vfs_reachableE: "vfs_reachable s"

lemma vfs_boot_ok: "heap_inv (k_heap k) \<Longrightarrow> vfs_ok (vfs_boot k base)"
  by (auto simp: vfs_ok_def vfs_boot_def tree_def no_fd_def)

lemma vkept_ext2_root: "vkept s t \<Longrightarrow> is_node t r \<Longrightarrow> vkept s (t\<lparr>v_ext2_root := r\<rparr>)"
proof -
  have "is_node (t\<lparr>v_ext2_root := r\<rparr>) p = is_node t p" for p by (cases p) simp_all
  then show "vkept s t \<Longrightarrow> is_node t r \<Longrightarrow> ?thesis" by (simp add: vkept_def vfs_ok_def)
qed

lemma run_vfs_call_ok:
  assumes "vfs_ok s" "call_args_ok s c"
  shows "wlp (run_vfs_call stk ps c) (\<lambda>_. vkept s) (\<lambda>_. vkept s) s"
proof (cases c)
  case (Ext2_root ops)
  have "wlp (ext2_create_vfs_root ops True) (\<lambda>r t. vkept s (t\<lparr>v_ext2_root := r\<rparr>)) (\<lambda>_. vkept s) s"
    by (rule wlp_conseq [OF create_root_ok [OF assms(1)]]) (auto intro: vkept_ext2_root)
  then show ?thesis using Ext2_root by (simp add: run_vfs_call_def wlp_simps)
qed (use assms in \<open>simp_all add: run_vfs_call_def wlp_ignoreP ext2_ops.vfs_open_ok ext2_ops.vfs_close_ok ext2_ops.vfs_read_ok
  ext2_ops.vfs_write_ok vfs_mkdir_ok vfs_mount_ok vfs_init_ok\<close>)

lemma vfs_reachable_ok: "vfs_reachable s \<Longrightarrow> vfs_ok s"
proof (induction rule: vfs_reachable.induct)
  case (boot k base)
  then show ?case by (rule vfs_boot_ok)
next
  case (call s c stk ps s')
  from wlpD(1) [OF run_vfs_call_ok [OF call.IH call.hyps(2)] call.hyps(3)] show ?case by (simp add: vkept_def)
next
  case (kernel s k)
  then show ?case using vkept_kernel by (auto simp: vkept_def)
qed

text \<open>
  C4.  In every state that the kernel can reach by calls of the virtual file system, with the table of
  the ext2 file system behind its nodes, the nodes form a tree, the descriptors and roots point to
  nodes, and the lookup of any absolute path that fits the buffer returns: it neither follows a bad
  pointer nor runs forever, it changes nothing, and what it returns is a node or null.
\<close>

theorem reachable_lookup_returns:
  assumes "vfs_reachable s" "v_root s = Some r" "cstr p" "length p < MAX_STRING_LEN - 2" "length stk = MAX_STRING_LEN"
  shows "\<exists>x K. vfs_ok s \<and> tree (v_nodes s) K \<and> is_node s x \<and> x = resolve (v_nodes s) K r (comps p) \<and>
    vfs_lookup stk (0x2F # p @ 0 # rest) s = (Val x, s)"
proof -
  have ok: "vfs_ok s" by (rule vfs_reachable_ok [OF assms(1)])
  then obtain K where K: "tree (v_nodes s) K" and r: "v_nodes s r \<noteq> None" using assms(2) by (auto simp: vfs_ok_def)
  from lookup_path_resolve [OF K r assms(3-5)] have l: "lookup_path (v_nodes s) (v_root s) stk (0x2F # p @ 0 # rest) =
      Some (resolve (v_nodes s) K r (comps p))" by (simp add: assms(2))
  from lookup_is_node [OF ok this] ok K l show ?thesis by (auto simp: vfs_lookup_def the_or_ub_def)
qed

text \<open>The heap has room for the root directory and one more.\<close>

lemma create_node_run:
  assumes "malloc sizeof_vfs_node (k_heap (v_k s)) = (Some a, h)" "strncpy (replicate 256 0) name 255 = Some nm"
  shows "vfs_create_node name mode uid gid s = (Val (Some a), s\<lparr>v_k := (v_k s)\<lparr>k_heap := h\<rparr>, v_nodes := (v_nodes s)(a \<mapsto>
           \<lparr>n_name = nm[255 := 0], n_inode = v_base s + a, n_mode = mode, n_size = 0,
            n_permissions = mode AND 0x1FF, n_owner_uid = uid, n_owner_gid = gid,
            n_create_time = k_time (v_k s), n_access_time = k_time (v_k s), n_modify_time = k_time (v_k s), n_link_count = 1,
            n_ops = None, n_fs_data = None, n_mount_point = None, n_next = None, n_prev = None,
            n_parent = None, n_children = None\<rparr>)\<rparr>)"
  using assms by (simp add: vfs_create_node_def kmalloc_def bindP_def the_or_ub_def system_time_def gets_def modify_def ret_def MAX_STRING_LEN_def)

lemma demo_names:
  "strncpy (replicate 256 0) [0x2F, 0] 255 = Some (0x2F # replicate 255 0)"
  "strncpy (replicate 256 0) [0x64, 0x65, 0x76, 0] 255 = Some ([0x64, 0x65, 0x76] @ replicate 253 0)"
  using strncpy_bytes_padded [of "[0x2F]" 255 "[]"] strncpy_bytes_padded [of "[0x64, 0x65, 0x76]" 255 "[]"]
  by (simp_all add: strncpy_def store_bytes_def put_bytes_def cstr_def)

definition demo_boot :: "'d kstate \<Rightarrow> 'd vfs" where
  "demo_boot k = vfs_boot (k\<lparr>k_heap := HEAP_SIZE - 800\<rparr>) 0"

lemma make_dirs_full:
  assumes "malloc sizeof_vfs_node (k_heap (v_k s)) = (None, k_heap (v_k s))" "v_nodes s r \<noteq> None"
  shows "make_dirs (Some r) ds s = (Val (), s)"
  using assms
  by (induction ds) (auto simp: vfs_mkdir_def vfs_create_node_def kmalloc_def bindP_def node_at_def the_or_ub_def
    vfs_check_capability_def ret_def throw_def ignoreP_def catch_def split: option.splits)

lemma mkdir_run:
  assumes "v_nodes s r = Some n" "n_children n = None" "a \<noteq> r" "malloc sizeof_vfs_node (k_heap (v_k s)) = (Some a, h)"
    and "strncpy (replicate 256 0) name 255 = Some nm"
  shows "\<exists>m m'. ignoreP (vfs_mkdir (Some r) name perm) s =
    (Val (), s\<lparr>v_k := (v_k s)\<lparr>k_heap := h\<rparr>, v_nodes := (v_nodes s)(r \<mapsto> m', a \<mapsto> m)\<rparr>)"
  using assms(1-3)
  by (simp add: vfs_mkdir_def bindP_def node_at_def the_or_ub_def create_node_run [OF assms(4,5)] set_node_def
    vfs_check_capability_def vfs_add_child_def ret_def throw_def ignoreP_def catch_def modify_def fun_upd_twist [OF assms(3)]) blast

lemma demo_init:
  "\<exists>s. vfs_init (demo_boot k) = (Val (), s) \<and> v_root s = Some (HEAP_SIZE - 800)"
proof -
  let ?r = "HEAP_SIZE - 800"
  have m: "malloc sizeof_vfs_node ?r = (Some ?r, ?r + 400)" "malloc sizeof_vfs_node (?r + 400) = (Some (?r + 400), HEAP_SIZE)"
    "malloc sizeof_vfs_node HEAP_SIZE = (None, HEAP_SIZE)" "?r + 400 \<noteq> ?r"
    by (simp_all add: malloc_def HEAP_SIZE_def sizeof_vfs_node_def ALIGN_UP_def)
  obtain n s1 where s1: "vfs_create_node [0x2F, 0] (S_IFDIR OR 0x1ED) 0 0 (demo_boot k) = (Val (Some ?r), s1)"
    "v_nodes s1 = [?r \<mapsto> n]" "n_children n = None" "k_heap (v_k s1) = ?r + 400"
    using create_node_run [OF _ demo_names(1), of "demo_boot k"] m(1) by (simp add: demo_boot_def vfs_boot_def)
  let ?s1 = "s1\<lparr>v_root := Some ?r\<rparr>"
  from mkdir_run [OF _ s1(3) m(4) _ demo_names(2), of ?s1 _ "0x1ED"] s1 m(2) obtain m1 m2 where
    "ignoreP (vfs_mkdir (Some ?r) [0x64, 0x65, 0x76, 0] 0x1ED) ?s1 =
      (Val (), ?s1\<lparr>v_k := (v_k ?s1)\<lparr>k_heap := HEAP_SIZE\<rparr>, v_nodes := [?r \<mapsto> m2, ?r + 400 \<mapsto> m1]\<rparr>)" (is "_ = (_, ?s2)")
    by auto
  moreover have "make_dirs (Some ?r) ds ?s2 = (Val (), ?s2)" for ds
    by (rule make_dirs_full) (simp_all add: m(3))
  ultimately have "make_dirs (Some ?r) std_dirs ?s1 = (Val (), ?s2)"
    unfolding std_dirs_def make_dirs.simps(2) [of _ "[0x64, 0x65, 0x76, 0]"] by (simp only: bindP_Val)
  then show ?thesis using s1(1) by (simp add: vfs_init_def bindP_def modify_def)
qed

theorem reachable_lookup_returns_witness:
  "\<forall>c. \<exists>s x. vfs_init (demo_boot (demo_state c)) = (Val (), s) \<and> vfs_lookup (replicate 256 7) [0x2F, 0x64, 0x65, 0x76, 0] s = (Val x, s)"
proof
  fix c
  obtain s where s: "vfs_init (demo_boot (demo_state c)) = (Val (), s)" "v_root s = Some (HEAP_SIZE - 800)"
    using demo_init by blast
  have "vfs_reachable (demo_boot (demo_state c))"
    unfolding demo_boot_def by (rule vfs_reachable.boot) (simp add: heap_inv_def HEAP_SIZE_def)
  then have "vfs_reachable s"
    using vfs_reachable.call [of "demo_boot (demo_state c)" Init "[]" "\<lambda>_. []" s] s(1) by (simp add: run_vfs_call_def)
  from reachable_lookup_returns [OF this s(2), of "[0x64, 0x65, 0x76]" "replicate 256 7" "[]"] s(1)
  show "\<exists>s x. vfs_init (demo_boot (demo_state c)) = (Val (), s) \<and> vfs_lookup (replicate 256 7) [0x2F, 0x64, 0x65, 0x76, 0] s = (Val x, s)"
    by (auto simp: cstr_def MAX_STRING_LEN_def)
qed

end
