(* ===== verification/Ext2_Init.thy ===== *)
theory Ext2_Init
  imports Ext2_Vfs
begin

text \<open>
  Bringing up the ext2 file system on the RAM disk, \<^verbatim>\<open>src/fs/ext2_init.c\<close>.  The state has the
  virtual file system with the kernel state in it, whose cache is the object that \<^verbatim>\<open>g_block_cache\<close>
  points to and whose file system is the one of \<^verbatim>\<open>g_ext2_fs\<close>, the device registry, and whether the
  pointers are set; \<^verbatim>\<open>g_ext2_root\<close> is the field \<open>v_ext2_root\<close>.  Messages are left out, and with them
  the cache statistics at the end of \<^verbatim>\<open>ext2_init\<close>.  Destroying a device frees its memory, which has
  no effect.
\<close>

section \<open>Operations\<close>

record ext2_sys =
  e_vfs :: "ramdisk option device option vfs"
  e_reg :: registry
  e_fs :: bool
  e_cache :: bool
  e_device :: bool

definition on_vfs :: "(ramdisk option device option vfs, 'a) prog \<Rightarrow> (ext2_sys, 'a) prog" where
  "on_vfs m = zoom e_vfs (\<lambda>v s. s\<lparr>e_vfs := v\<rparr>) m"

definition sys_find :: "bytes \<Rightarrow> (ext2_sys, ramdisk option device option) prog" where
  "sys_find name = zoom e_reg (\<lambda>r s. s\<lparr>e_reg := r\<rparr>) (device_find name)"

text \<open>Creation of the adapter and of the cache, with the heap of the kernel.\<close>

definition make_device :: "ramdisk option device option \<Rightarrow> ('d kstate, ramdisk option device option block_device option) prog" where
  "make_device dev = (\<lambda>s. case block_device_create dev (k_heap s) of (bd, h) \<Rightarrow> (Val bd, s\<lparr>k_heap := h\<rparr>))"

definition make_cache :: "'d block_device \<Rightarrow> u64 \<Rightarrow> ('d kstate, bool) prog" where
  "make_cache bd block_size = (\<lambda>s. case block_cache_create (Some bd) block_size (k_heap s) of
     (None, h) \<Rightarrow> (Val False, s\<lparr>k_heap := h\<rparr>)
   | (Some c, h) \<Rightarrow> (Val True, s\<lparr>k_heap := h, k_cache := c\<rparr>))"

definition ext2_init :: "bytes \<Rightarrow> u64 \<Rightarrow> (ext2_sys, unit) prog" where
  "ext2_init stk ops =
     bindP (sys_find ramdisk_name) (\<lambda>ramdisk.
     if ramdisk = None then ret () else
     bindP (on_vfs (on_k (make_device ramdisk))) (\<lambda>g_block_device.
     bindP (modify (\<lambda>s. s\<lparr>e_device := g_block_device \<noteq> None\<rparr>)) (\<lambda>_.
     case g_block_device of None \<Rightarrow> ret () | Some bd \<Rightarrow>
     bindP (on_vfs (on_k (make_cache bd 1024))) (\<lambda>g_block_cache.
     bindP (modify (\<lambda>s. s\<lparr>e_cache := g_block_cache\<rparr>)) (\<lambda>_.
     if \<not> g_block_cache then ret () else
     bindP (on_vfs (on_k (ext2_mount stk True))) (\<lambda>g_ext2_fs.
     bindP (modify (\<lambda>s. s\<lparr>e_fs := g_ext2_fs\<rparr>)) (\<lambda>_.
     if \<not> g_ext2_fs then on_vfs (on_k (on_cache block_cache_destroy)) else
     bindP (on_vfs (ext2_create_vfs_root ops True)) (\<lambda>g_ext2_root.
     bindP (on_vfs (modify (\<lambda>s. s\<lparr>v_ext2_root := g_ext2_root\<rparr>))) (\<lambda>_.
     if g_ext2_root \<noteq> None then ret () else
     bindP (ignoreP (on_vfs (on_k (ext2_umount stk True)))) (\<lambda>_.
     on_vfs (on_k (on_cache block_cache_destroy))))))))))))"

definition ext2_cleanup :: "bytes \<Rightarrow> (ext2_sys, unit) prog" where
  "ext2_cleanup stk =
     bindP (gets e_fs) (\<lambda>g_ext2_fs.
     bindP (whenP g_ext2_fs (ignoreP (on_vfs (on_k (ext2_umount stk True))))) (\<lambda>_.
     bindP (gets e_cache) (\<lambda>g_block_cache.
     whenP g_block_cache (on_vfs (on_k (on_cache block_cache_destroy))))))"

definition ext2_get_instance :: "ext2_sys \<Rightarrow> bool" where
  "ext2_get_instance s = e_fs s"

definition ext2_get_vfs_root :: "ext2_sys \<Rightarrow> u64 option" where
  "ext2_get_vfs_root s = v_ext2_root (e_vfs s)"

section \<open>A cache on the adapter for the RAM disk\<close>

text \<open>
  A cache without valid entries on a device whose table is the one of the RAM disk: no access to the
  disk goes through the adapter, and there is nothing to write.
\<close>

definition dead_cache :: "ramdisk option device option block_cache \<Rightarrow> bool" where
  "dead_cache c = (length (entries c) = BLOCK_CACHE_SIZE \<and> lru_tail c = None \<and>
     (\<forall>i < BLOCK_CACHE_SIZE. \<not> e_valid (entry c i)) \<and>
     (\<exists>dev. cache_device c = Some \<lparr>device_data = Some dev, device_ops = Some wrapper_ops\<rparr> \<and> dev_ops dev = Some ramdisk_ops))"

lemma create_dead:
  assumes "block_cache_create (Some \<lparr>device_data = Some dev, device_ops = Some wrapper_ops\<rparr>) block_size heap_pos = (Some c, h)"
    and "dev_ops dev = Some ramdisk_ops"
  shows "dead_cache c"
  using block_cache_create_Some [OF assms(1)] assms(2) by (simp add: dead_cache_def entry_def)

lemma dead_find: "dead_cache c \<Longrightarrow> cache_find n c = None" "dead_cache c \<Longrightarrow> cache_victim c = Some 0"
proof -
  have "[0..<BLOCK_CACHE_SIZE] = 0 # [1..<BLOCK_CACHE_SIZE]" by (simp add: BLOCK_CACHE_SIZE_def upt_conv_Cons)
  then show "dead_cache c \<Longrightarrow> cache_victim c = Some 0"
    by (simp add: dead_cache_def cache_victim_def cache_find_lru_def BLOCK_CACHE_SIZE_def)
qed (auto simp: dead_cache_def cache_find_def find_None_iff)

lemma dead_read:
  assumes "dead_cache c" "\<And>c'. dead_cache c' \<Longrightarrow> E ERR_INVALID c'"
  shows "wp (block_cache_read now n (Some buf)) Q E c"
proof -
  obtain dev where dev: "cache_device c = Some \<lparr>device_data = Some dev, device_ops = Some wrapper_ops\<rparr>" "dev_ops dev = Some ramdisk_ops"
    using assms(1) by (auto simp: dead_cache_def)
  have r: "block_device_wrapper_read (Some dev) n b = Some (ERR_INVALID, b)" for b
    using dev(2) by (simp add: block_device_wrapper_read_def wrapper_slot_def table_slot_def ramdisk_ops_def)
  have c: "dead_cache (c\<lparr>cache_misses := m\<rparr>)" for m using assms(1) by (simp add: dead_cache_def entry_def)
  have "dead_cache (upd_entry 0 (\<lambda>e. e\<lparr>e_data := b\<rparr>) (c\<lparr>cache_misses := m\<rparr>))" for b m
    using assms(1) by (auto simp: dead_cache_def entry_upd_entry entry_def [of "c\<lparr>cache_misses := m\<rparr>"] entry_def [of c] BLOCK_CACHE_SIZE_def)
  moreover have "\<not> e_valid (entry (c\<lparr>cache_misses := m\<rparr>) 0)" for m
    using c [of m] by (simp add: dead_cache_def BLOCK_CACHE_SIZE_def)
  ultimately show ?thesis
    using assms(2) dev(1)
    by (simp add: block_cache_read_def wp_simps dead_find(1) [OF assms(1)] dead_find(2) [OF c] cache_evict_def call_read_block_def
      get_device_ops_def wrapper_ops_def r ERR_INVALID_def)
qed

lemma dead_flush: "dead_cache c \<Longrightarrow> block_cache_destroy c = (Val (), c)"
proof -
  assume c: "dead_cache c"
  have "flush_from is e c = (Val e, c)" if "set is \<subseteq> {..<BLOCK_CACHE_SIZE}" for "is" e
    using that c by (induction "is" arbitrary: e) (auto simp: bindP_def gets_def ret_def dead_cache_def)
  then show ?thesis
    by (simp add: block_cache_destroy_def block_cache_flush_def ignoreP_def catch_def bindP_def ret_def atLeast0LessThan)
qed

lemma dead_mount:
  assumes "dead_cache (k_cache s)"
  shows "wp (ext2_mount stk True) (\<lambda>r s'. \<not> r \<and> dead_cache (k_cache s')) (\<lambda>_ _. False) s"
  using assms
  by (auto simp: ext2_mount_def wp_simps ext2_read_superblock_def cache_read_def on_cache_def intro!: dead_read split: prod.split option.split)

section \<open>The steps of the initialisation\<close>

lemma wp_sys_find: "device_find_from (devices (e_reg s)) name = Some found \<Longrightarrow> wp (sys_find name) Q E s = Q found s"
  by (simp add: sys_find_def device_find_def wp_simps)

lemma wp_sys_k: "wp (on_vfs (on_k m)) Q E s =
    wp m (\<lambda>x k. Q x (s\<lparr>e_vfs := (e_vfs s)\<lparr>v_k := k\<rparr>\<rparr>)) (\<lambda>e k. E e (s\<lparr>e_vfs := (e_vfs s)\<lparr>v_k := k\<rparr>\<rparr>)) (v_k (e_vfs s))"
  by (simp add: on_vfs_def on_k_def wp_zoom)

lemma make_device_rule:
  assumes "\<And>k. Q None (s\<lparr>e_vfs := (e_vfs s)\<lparr>v_k := k\<rparr>\<rparr>)"
    and "\<And>k. Q (Some \<lparr>device_data = Some dev, device_ops = Some wrapper_ops\<rparr>) (s\<lparr>e_vfs := (e_vfs s)\<lparr>v_k := k\<rparr>\<rparr>)"
  shows "wp (on_vfs (on_k (make_device (Some dev)))) Q E s"
  unfolding wp_sys_k using assms by (simp add: wp_def make_device_def block_device_create_def split: prod.split option.split)

lemma make_cache_rule:
  assumes "dev_ops dev = Some ramdisk_ops" "\<And>k. Q False (s\<lparr>e_vfs := (e_vfs s)\<lparr>v_k := k\<rparr>\<rparr>)"
    and "\<And>k. dead_cache (k_cache k) \<Longrightarrow> Q True (s\<lparr>e_vfs := (e_vfs s)\<lparr>v_k := k\<rparr>\<rparr>)"
  shows "wp (on_vfs (on_k (make_cache \<lparr>device_data = Some dev, device_ops = Some wrapper_ops\<rparr> block_size))) Q E s"
  unfolding wp_sys_k using assms(2,3) create_dead [OF _ assms(1)] by (auto simp: wp_def make_cache_def split: prod.split option.split)

lemma mount_rule:
  assumes "dead_cache (k_cache (v_k (e_vfs s)))" "\<And>k. dead_cache (k_cache k) \<Longrightarrow> Q False (s\<lparr>e_vfs := (e_vfs s)\<lparr>v_k := k\<rparr>\<rparr>)"
  shows "wp (on_vfs (on_k (ext2_mount stk True))) Q E s"
  unfolding wp_sys_k by (rule wp_conseq [OF dead_mount [OF assms(1)]]) (use assms(2) in auto)

lemma destroy_rule:
  assumes "dead_cache (k_cache (v_k (e_vfs s)))" "Q () s"
  shows "wp (on_vfs (on_k (on_cache block_cache_destroy))) Q E s"
  using dead_flush [OF assms(1)] assms(2) by (simp add: wp_sys_k on_cache_def wp_zoom) (simp add: wp_def)

end
