(* ===== verification/Scheduler.thy ===== *)
theory Scheduler
  imports Kernel_Utils "HOL-Library.Monad_Syntax"
begin

unbundle bit_operations_syntax

text \<open>
  The task scheduler, \<^verbatim>\<open>src/cpu/scheduler.c\<close>.  Task control blocks live in a store indexed by
  address, 0 is the null pointer, and the queues are linked through the fields \<^verbatim>\<open>next\<close> and
  \<^verbatim>\<open>prev\<close> as in the code: a task can be linked twice.  Functions that walk a queue return
  \<open>None\<close> when the walk does not end.
\<close>

record tcb =
  task_id :: u64
  name :: bytes
  state :: u64
  priority :: u64
  time_slice :: u64
  total_time :: u64
  wake_time :: u64
  registers :: "u64 list"
  stack_pointer :: u64
  instruction_pointer :: u64
  flags :: u64
  stack_base :: u64
  stack_top :: u64
  page_table :: u64
  user_id :: u64
  group_id :: u64
  privilege_level :: u64
  message_queue :: u64
  waiting_for :: u64
  tcb_next :: u64
  tcb_prev :: u64

text \<open>The registers that a context switch saves: \<^verbatim>\<open>rax\<close> to \<^verbatim>\<open>r15\<close> without \<^verbatim>\<open>rsp\<close>, and \<^verbatim>\<open>rsp\<close>, \<^verbatim>\<open>rflags\<close>.\<close>

record cpu =
  cpu_regs :: "u64 list"
  cpu_rsp :: u64
  cpu_rflags :: u64

record sched =
  tcbs :: "u64 \<Rightarrow> tcb"
  ready_queue :: u64
  waiting_queue :: u64
  current_task :: u64
  idle_task :: u64
  next_task_id :: u64
  system_ticks :: u64
  heap_base :: u64
  sched_heap :: u64
  sched_cpu :: cpu

definition TIME_SLICE_TICKS :: u64 where "TIME_SLICE_TICKS = 10"
definition MAX_PRIORITY :: u64 where "MAX_PRIORITY = 255"
definition MIN_PRIORITY :: u64 where "MIN_PRIORITY = 0"
definition TASK_READY :: u64 where "TASK_READY = 0"
definition TASK_RUNNING :: u64 where "TASK_RUNNING = 1"
definition TASK_WAITING :: u64 where "TASK_WAITING = 2"
definition STACK_SIZE :: u64 where "STACK_SIZE = 8192"
definition sizeof_tcb :: u64 where "sizeof_tcb = 536"

definition upd_tcb :: "u64 \<Rightarrow> (tcb \<Rightarrow> tcb) \<Rightarrow> sched \<Rightarrow> sched" where
  "upd_tcb p f s = s\<lparr>tcbs := (tcbs s)(p := f (tcbs s p))\<rparr>"

definition sched_malloc :: "u64 \<Rightarrow> sched \<Rightarrow> u64 \<times> sched" where
  "sched_malloc sz s = (case malloc sz (sched_heap s) of
     (r, h) \<Rightarrow> (case r of None \<Rightarrow> 0 | Some off \<Rightarrow> heap_base s + off, s\<lparr>sched_heap := h\<rparr>))"

section \<open>Operations\<close>

text \<open>
  Memory from \<^verbatim>\<open>malloc\<close> has never been used before and is zero, so \<^verbatim>\<open>page_table\<close> is 0.  A stack
  that could not be allocated is not noticed.  \<open>None\<close>: the name is not terminated.
\<close>

definition scheduler_create_task :: "bytes \<Rightarrow> u64 \<Rightarrow> sched \<Rightarrow> (u64 \<times> sched) option" where
  "scheduler_create_task nm prio s =
     (let (task, s1) = sched_malloc sizeof_tcb s in
      if task = 0 then Some (0, s1)
      else do {
        nm' \<leftarrow> strncpy (replicate 256 0) nm 255;
        let (stack, s2) = sched_malloc STACK_SIZE (s1\<lparr>next_task_id := next_task_id s1 + 1\<rparr>);
        Some (task, upd_tcb task (\<lambda>_. \<lparr>task_id = next_task_id s1, name = nm'[255 := 0], state = TASK_READY,
          priority = prio, time_slice = TIME_SLICE_TICKS, total_time = 0, wake_time = 0,
          registers = replicate 16 0, stack_pointer = stack + STACK_SIZE, instruction_pointer = 0, flags = 2,
          stack_base = stack, stack_top = stack + STACK_SIZE, page_table = 0, user_id = 0, group_id = 0,
          privilege_level = 3, message_queue = 0, waiting_for = 0, tcb_next = 0, tcb_prev = 0\<rparr>) s2)
      })"

definition scheduler_add_to_queue :: "u64 \<Rightarrow> sched \<Rightarrow> sched" where
  "scheduler_add_to_queue task s =
     (if task = 0 then s
      else
        let s1 = upd_tcb task (\<lambda>t. t\<lparr>state := TASK_READY, tcb_next := ready_queue s\<rparr>) s;
            s2 = (if ready_queue s1 \<noteq> 0 then upd_tcb (ready_queue s1) (\<lambda>t. t\<lparr>tcb_prev := task\<rparr>) s1 else s1)
        in s2\<lparr>ready_queue := task\<rparr>)"

definition scheduler_remove_from_queue :: "u64 \<Rightarrow> sched \<Rightarrow> sched" where
  "scheduler_remove_from_queue task s =
     (if task = 0 \<or> ready_queue s = 0 then s
      else
        let s1 = (if tcb_prev (tcbs s task) \<noteq> 0
                  then upd_tcb (tcb_prev (tcbs s task)) (\<lambda>t. t\<lparr>tcb_next := tcb_next (tcbs s task)\<rparr>) s
                  else s\<lparr>ready_queue := tcb_next (tcbs s task)\<rparr>);
            s2 = (if tcb_next (tcbs s1 task) \<noteq> 0
                  then upd_tcb (tcb_next (tcbs s1 task)) (\<lambda>t. t\<lparr>tcb_prev := tcb_prev (tcbs s1 task)\<rparr>) s1
                  else s1)
        in upd_tcb task (\<lambda>t. t\<lparr>tcb_prev := 0, tcb_next := 0\<rparr>) s2)"

partial_function (option) select_from :: "(u64 \<Rightarrow> tcb) \<Rightarrow> u64 \<Rightarrow> u64 \<Rightarrow> u64 option" where
  "select_from mem task highest_priority =
     (if task = 0 then Some highest_priority
      else select_from mem (tcb_next (mem task))
        (if highest_priority = 0 \<or> priority (mem task) < priority (mem highest_priority)
         then task else highest_priority))"

definition scheduler_select_next_task :: "sched \<Rightarrow> u64 option" where
  "scheduler_select_next_task s =
     do { highest \<leftarrow> select_from (tcbs s) (ready_queue s) 0;
          Some (if highest \<noteq> 0 then highest else idle_task s) }"

definition scheduler_save_context :: "u64 \<Rightarrow> sched \<Rightarrow> sched" where
  "scheduler_save_context task s =
     upd_tcb task (\<lambda>t. t\<lparr>registers := cpu_regs (sched_cpu s) @ drop 15 (registers t),
       stack_pointer := cpu_rsp (sched_cpu s), flags := cpu_rflags (sched_cpu s)\<rparr>) s"

definition scheduler_restore_context :: "u64 \<Rightarrow> sched \<Rightarrow> sched" where
  "scheduler_restore_context task s =
     s\<lparr>sched_cpu := \<lparr>cpu_regs = take 15 (registers (tcbs s task)), cpu_rsp = stack_pointer (tcbs s task),
       cpu_rflags = flags (tcbs s task)\<rparr>\<rparr>"

definition scheduler_switch_to :: "u64 \<Rightarrow> sched \<Rightarrow> sched" where
  "scheduler_switch_to task s =
     (if current_task s = task then s
      else
        let old_task = current_task s;
            s1 = s\<lparr>current_task := task\<rparr>;
            s2 = (if old_task \<noteq> 0 \<and> state (tcbs s1 old_task) = TASK_RUNNING
                  then upd_tcb old_task (\<lambda>t. t\<lparr>state := TASK_READY\<rparr>) s1 else s1);
            s3 = upd_tcb task (\<lambda>t. t\<lparr>state := TASK_RUNNING, time_slice := TIME_SLICE_TICKS\<rparr>) s2;
            s4 = (if old_task \<noteq> 0 then scheduler_save_context old_task s3 else s3)
        in scheduler_restore_context task s4)"

definition scheduler_schedule :: "sched \<Rightarrow> sched option" where
  "scheduler_schedule s =
     do { next_task \<leftarrow> scheduler_select_next_task s;
          Some (if next_task \<noteq> 0 then scheduler_switch_to next_task s else s) }"

definition scheduler_yield :: "sched \<Rightarrow> sched option" where
  "scheduler_yield s =
     (let c = current_task s;
          s' = (if c \<noteq> 0 \<and> state (tcbs s c) = TASK_RUNNING
                then
                  let s1 = upd_tcb c (\<lambda>t. t\<lparr>state := TASK_READY, time_slice := TIME_SLICE_TICKS\<rparr>) s
                  in if c \<noteq> idle_task s1 then scheduler_add_to_queue c s1 else s1
                else s)
      in scheduler_schedule s')"

definition scheduler_tick :: "sched \<Rightarrow> sched option" where
  "scheduler_tick s =
     (let s1 = s\<lparr>system_ticks := system_ticks s + 1\<rparr>; c = current_task s1 in
      if c \<noteq> 0 then
        let s2 = upd_tcb c (\<lambda>t. t\<lparr>time_slice := time_slice t - 1, total_time := total_time t + 1\<rparr>) s1
        in if time_slice (tcbs s2 c) = 0 then scheduler_yield s2 else Some s2
      else Some s1)"

text \<open>Writing the state through a null pointer is undefined, here \<open>None\<close>.\<close>

definition scheduler_init :: "sched \<Rightarrow> sched option" where
  "scheduler_init s =
     do { (idle, s1) \<leftarrow> scheduler_create_task [0x69, 0x64, 0x6C, 0x65, 0] MIN_PRIORITY s;
          if idle = 0 then None else do {
          let s2 = upd_tcb idle (\<lambda>t. t\<lparr>state := TASK_READY\<rparr>) (s1\<lparr>idle_task := idle\<rparr>);
          (init_task, s3) \<leftarrow> scheduler_create_task [0x69, 0x6E, 0x69, 0x74, 0] MIN_PRIORITY s2;
          let s4 = scheduler_add_to_queue init_task s3;
          Some (s4\<lparr>current_task := idle_task s4\<rparr>) } }"

partial_function (option) find_task_from :: "(u64 \<Rightarrow> tcb) \<Rightarrow> u64 \<Rightarrow> u64 \<Rightarrow> u64 option" where
  "find_task_from mem i task =
     (if task \<noteq> 0 \<and> task_id (mem task) \<noteq> i then find_task_from mem i (tcb_next (mem task)) else Some task)"

definition scheduler_find_task :: "u64 \<Rightarrow> sched \<Rightarrow> u64 option" where
  "scheduler_find_task i s = find_task_from (tcbs s) i (ready_queue s)"

definition scheduler_sleep_task :: "u64 \<Rightarrow> sched \<Rightarrow> sched option" where
  "scheduler_sleep_task i s =
     do { task \<leftarrow> scheduler_find_task i s;
          Some (if task \<noteq> 0 \<and> state (tcbs s task) = TASK_RUNNING
                then upd_tcb task (\<lambda>t. t\<lparr>state := TASK_WAITING, wake_time := system_ticks s + 100\<rparr>) s
                else s) }"

definition scheduler_wake_task :: "u64 \<Rightarrow> sched \<Rightarrow> sched option" where
  "scheduler_wake_task i s =
     do { task \<leftarrow> scheduler_find_task i s;
          Some (if task \<noteq> 0 \<and> state (tcbs s task) = TASK_WAITING
                then scheduler_add_to_queue task (upd_tcb task (\<lambda>t. t\<lparr>state := TASK_READY, wake_time := 0\<rparr>) s)
                else s) }"

definition get_current_pid :: "sched \<Rightarrow> u64" where
  "get_current_pid s = (if current_task s \<noteq> 0 then task_id (tcbs s (current_task s)) else 0)"

definition get_current_task :: "sched \<Rightarrow> u64" where
  "get_current_task s = current_task s"

definition get_task_priority :: "u64 \<Rightarrow> sched \<Rightarrow> u64 option" where
  "get_task_priority i s =
     do { task \<leftarrow> scheduler_find_task i s; Some (if task \<noteq> 0 then priority (tcbs s task) else MAX_PRIORITY) }"

definition scheduler_start :: "sched \<Rightarrow> sched option" where
  "scheduler_start s = scheduler_schedule s"

partial_function (option) wakeups_from :: "u64 \<Rightarrow> sched \<Rightarrow> sched option" where
  "wakeups_from task s =
     (if task = 0 then Some s
      else if wake_time (tcbs s task) \<noteq> 0 \<and> wake_time (tcbs s task) \<le> system_ticks s
      then do { s' \<leftarrow> scheduler_wake_task (task_id (tcbs s task)) s; wakeups_from (tcb_next (tcbs s' task)) s' }
      else wakeups_from (tcb_next (tcbs s task)) s)"

definition scheduler_check_wakeups :: "sched \<Rightarrow> sched option" where
  "scheduler_check_wakeups s = wakeups_from (waiting_queue s) s"

section \<open>Queues\<close>

text \<open>The tasks \<open>ts\<close> are linked from \<open>p\<close> on and the last one has no successor.\<close>

fun queue_list :: "(u64 \<Rightarrow> tcb) \<Rightarrow> u64 \<Rightarrow> u64 list \<Rightarrow> bool" where
  "queue_list mem p [] = (p = 0)"
| "queue_list mem p (t # ts) = (p = t \<and> t \<noteq> 0 \<and> queue_list mem (tcb_next (mem t)) ts)"

lemma find_task_queue:
  "queue_list mem p ts \<Longrightarrow>
    find_task_from mem i p = Some (case find (\<lambda>t. task_id (mem t) = i) ts of None \<Rightarrow> 0 | Some t \<Rightarrow> t)"
  by (induction ts arbitrary: p) (subst find_task_from.simps; auto)+

text \<open>The first task of the list with the least priority number, if \<open>best\<close> is not better.\<close>

fun best_of :: "(u64 \<Rightarrow> tcb) \<Rightarrow> u64 list \<Rightarrow> u64 \<Rightarrow> u64" where
  "best_of mem [] best = best"
| "best_of mem (t # ts) best =
     best_of mem ts (if best = 0 \<or> priority (mem t) < priority (mem best) then t else best)"

lemma select_from_queue:
  "queue_list mem p ts \<Longrightarrow> select_from mem p best = Some (best_of mem ts best)"
  by (induction ts arbitrary: p best) (subst select_from.simps; auto)+

lemma best_of_spec:
  assumes "0 \<notin> set ts" "best \<noteq> 0 \<or> ts \<noteq> []"
  shows "best_of mem ts best \<in> (if best = 0 then set ts else insert best (set ts)) \<and>
    (\<forall>t \<in> set ts \<union> (if best = 0 then {} else {best}). priority (mem (best_of mem ts best)) \<le> priority (mem t))"
  using assms
proof (induction ts arbitrary: best)
  case (Cons t ts)
  let ?b = "if best = 0 \<or> priority (mem t) < priority (mem best) then t else best"
  have "?b \<noteq> 0" using Cons.prems by auto
  with Cons.IH [of ?b] Cons.prems show ?case by (auto split: if_splits)
qed simp

lemma queue_list_nonzero: "queue_list mem p ts \<Longrightarrow> 0 \<notin> set ts"
  by (induction ts arbitrary: p) auto

text \<open>A task that is its own successor is never left.\<close>

lemma select_from_loop:
  assumes "select_from mem t best = Some r" "t \<noteq> 0" "tcb_next (mem t) = t"
  shows False
proof -
  have "t \<noteq> 0 \<longrightarrow> tcb_next (mem t) \<noteq> t"
  proof (rule select_from.raw_induct [OF _ assms(1), of "\<lambda>mem t best r. t \<noteq> 0 \<longrightarrow> tcb_next (mem t) \<noteq> t"], intro impI notI)
    fix f mem t best r
    assume IH: "\<And>mem t best r. f mem t best = Some r \<Longrightarrow> t \<noteq> 0 \<longrightarrow> tcb_next (mem t) \<noteq> t"
      and "(if t = 0 then Some best else f mem (tcb_next (mem t))
        (if best = 0 \<or> priority (mem t) < priority (mem best) then t else best)) = Some r"
      and t: "t \<noteq> 0" "tcb_next (mem t) = t"
    then have "f mem t (if best = 0 \<or> priority (mem t) < priority (mem best) then t else best) = Some r" by simp
    from IH [OF this] t show False by simp
  qed
  with assms(2,3) show False by blast
qed

section \<open>Doubly linked queues\<close>

fun dqueue :: "(u64 \<Rightarrow> tcb) \<Rightarrow> u64 \<Rightarrow> u64 \<Rightarrow> u64 list \<Rightarrow> bool" where
  "dqueue mem q p [] = (p = 0)"
| "dqueue mem q p (t # ts) = (p = t \<and> t \<noteq> 0 \<and> tcb_prev (mem t) = q \<and> dqueue mem t (tcb_next (mem t)) ts)"

lemma dqueue_queue_list: "dqueue mem q p ts \<Longrightarrow> queue_list mem p ts"
  by (induction ts arbitrary: q p) auto

lemma dqueue_cong:
  "dqueue mem q p ts \<Longrightarrow> (\<And>t. t \<in> set ts \<Longrightarrow> tcb_next (mem' t) = tcb_next (mem t) \<and> tcb_prev (mem' t) = tcb_prev (mem t)) \<Longrightarrow>
    dqueue mem' q p ts"
  by (induction ts arbitrary: q p) auto

lemma dqueue_prev:
  assumes "dqueue mem q p ts" "distinct ts"
    and "\<And>t. t \<in> set ts \<Longrightarrow> tcb_next (mem' t) = tcb_next (mem t)"
    and "\<And>t. t \<in> set ts \<Longrightarrow> tcb_prev (mem' t) = (if t = p then q' else tcb_prev (mem t))"
  shows "dqueue mem' q' p ts"
proof (cases ts)
  case (Cons t us)
  have "dqueue mem' t (tcb_next (mem t)) us"
    by (rule dqueue_cong [of mem]) (use assms Cons in auto)
  then show ?thesis using assms Cons by auto
qed (use assms(1) in simp)

lemma dqueue_links:
  assumes "dqueue mem q p ts" "t \<in> set ts"
  shows "(p = t \<and> tcb_prev (mem t) = q) \<or> tcb_prev (mem t) \<in> set ts" "tcb_next (mem t) = 0 \<or> tcb_next (mem t) \<in> set ts"
proof -
  have head: "dqueue mem q p ts \<Longrightarrow> p = 0 \<or> p \<in> set ts" for q p ts by (cases ts) auto
  show "(p = t \<and> tcb_prev (mem t) = q) \<or> tcb_prev (mem t) \<in> set ts"
    using assms by (induction ts arbitrary: q p) fastforce+
  show "tcb_next (mem t) = 0 \<or> tcb_next (mem t) \<in> set ts"
    using assms by (induction ts arbitrary: q p) (auto dest: head)
qed

lemma dqueue_no_loop:
  assumes "dqueue mem q p ts" "distinct ts" "q \<notin> set ts" "x \<in> set ts"
  shows "tcb_next (mem x) \<noteq> x \<and> tcb_prev (mem x) \<noteq> x \<and> (tcb_prev (mem x) = q \<longleftrightarrow> p = x)"
  using assms
proof (induction ts arbitrary: q p)
  case (Cons t ts)
  have q: "dqueue mem t (tcb_next (mem t)) ts" "p = t" "t \<noteq> 0" "tcb_prev (mem t) = q"
    using Cons.prems(1) by auto
  show ?case
  proof (cases "t = x")
    case True
    have "tcb_next (mem t) = 0 \<or> tcb_next (mem t) \<in> set ts" using q(1) by (cases ts) auto
    with True q Cons.prems(2,3) show ?thesis by auto
  next
    case False
    then have x: "x \<in> set ts" using Cons.prems(4) by simp
    with Cons.IH [OF q(1)] Cons.prems(2,3) dqueue_links(1) [OF q(1) x] q False show ?thesis by auto
  qed
qed simp

text \<open>Unlinking a task anywhere in a queue.\<close>

lemma dqueue_remove:
  assumes "dqueue mem q p ts" "distinct ts" "q \<notin> set ts" "x \<in> set ts"
    and "\<And>t. t \<in> set ts \<Longrightarrow> t \<noteq> x \<Longrightarrow>
      tcb_next (mem' t) = (if t = tcb_prev (mem x) then tcb_next (mem x) else tcb_next (mem t)) \<and>
      tcb_prev (mem' t) = (if t = tcb_next (mem x) then tcb_prev (mem x) else tcb_prev (mem t))"
  shows "dqueue mem' q (if p = x then tcb_next (mem x) else p) (remove1 x ts)"
  using assms
proof (induction ts arbitrary: q p)
  case (Cons t ts)
  have q: "dqueue mem t (tcb_next (mem t)) ts" "p = t" "t \<noteq> 0" "tcb_prev (mem t) = q"
    using Cons.prems(1) by auto
  show ?case
  proof (cases "t = x")
    case True
    have upd: "tcb_next (mem' u) = tcb_next (mem u)"
      "tcb_prev (mem' u) = (if u = tcb_next (mem t) then q else tcb_prev (mem u))" if "u \<in> set ts" for u
    proof -
      have "u \<noteq> x" "u \<noteq> tcb_prev (mem x)" using that True q(4) Cons.prems(2,3) by auto
      with Cons.prems(5) [of u] that True q(4)
      show "tcb_next (mem' u) = tcb_next (mem u)"
        "tcb_prev (mem' u) = (if u = tcb_next (mem t) then q else tcb_prev (mem u))" by simp_all
    qed
    have "dqueue mem' q (tcb_next (mem t)) ts"
      by (rule dqueue_prev [OF q(1) _ upd]) (use Cons.prems(2) in auto)
    then show ?thesis using True q by simp
  next
    case False
    then have x: "x \<in> set ts" using Cons.prems(4) by simp
    have IH: "dqueue mem' t (if tcb_next (mem t) = x then tcb_next (mem x) else tcb_next (mem t)) (remove1 x ts)"
      using Cons.prems x by (intro Cons.IH [OF q(1)]) auto
    have "t \<noteq> tcb_next (mem x)" using dqueue_links(2) [OF q(1) x] q(3) Cons.prems(2) by auto
    moreover have "(tcb_prev (mem x) = t) = (tcb_next (mem t) = x)"
      using dqueue_no_loop [OF q(1) _ _ x] Cons.prems(2) by simp
    ultimately have t: "tcb_next (mem' t) = (if tcb_next (mem t) = x then tcb_next (mem x) else tcb_next (mem t))"
      "tcb_prev (mem' t) = q"
      using Cons.prems(5) [of t] False q(4) by auto
    show ?thesis using IH t q False by auto
  qed
qed simp

lemma add_links:
  assumes "task \<noteq> 0" "ready_queue s \<noteq> task"
  shows "ready_queue (scheduler_add_to_queue task s) = task"
    and "tcb_next (tcbs (scheduler_add_to_queue task s) t) = (if t = task then ready_queue s else tcb_next (tcbs s t))"
    and "tcb_prev (tcbs (scheduler_add_to_queue task s) t) =
      (if t = ready_queue s \<and> t \<noteq> 0 then task else tcb_prev (tcbs s t))"
  using assms by (simp_all add: scheduler_add_to_queue_def upd_tcb_def Let_def)

lemma remove_links:
  assumes "task \<noteq> 0" "ready_queue s \<noteq> 0" "tcb_next (tcbs s task) \<noteq> task" "tcb_prev (tcbs s task) \<noteq> task"
  defines "n \<equiv> tcb_next (tcbs s task)" and "p \<equiv> tcb_prev (tcbs s task)"
  shows "ready_queue (scheduler_remove_from_queue task s) = (if p = 0 then n else ready_queue s)"
    and "t \<noteq> task \<Longrightarrow> t \<noteq> 0 \<Longrightarrow> tcb_next (tcbs (scheduler_remove_from_queue task s) t) = (if t = p then n else tcb_next (tcbs s t))"
    and "t \<noteq> task \<Longrightarrow> t \<noteq> 0 \<Longrightarrow> tcb_prev (tcbs (scheduler_remove_from_queue task s) t) = (if t = n then p else tcb_prev (tcbs s t))"
  using assms(1-4) by (simp_all add: scheduler_remove_from_queue_def upd_tcb_def Let_def n_def p_def)

section \<open>Properties\<close>

text \<open>The ready queue holds the tasks \<open>ts\<close>, properly linked in both directions.\<close>

definition ready :: "sched \<Rightarrow> u64 list \<Rightarrow> bool" where
  "ready s ts = (dqueue (tcbs s) 0 (ready_queue s) ts \<and> distinct ts)"

text \<open>
  C17. The queue operations implement a list: adding a new task puts it in front, and removing a
  task, wherever it is, takes exactly that task out; both keep the links of the other tasks.
\<close>

theorem queue_refines_list:
  assumes "ready s ts"
  shows "(task \<noteq> 0 \<and> task \<notin> set ts \<and> tcb_prev (tcbs s task) = 0 \<longrightarrow>
      ready (scheduler_add_to_queue task s) (task # ts)) \<and>
    (task \<in> set ts \<longrightarrow> ready (scheduler_remove_from_queue task s) (remove1 task ts))"
proof (intro conjI impI)
  assume t: "task \<noteq> 0 \<and> task \<notin> set ts \<and> tcb_prev (tcbs s task) = 0"
  have z: "0 \<notin> set ts"
    using assms queue_list_nonzero [OF dqueue_queue_list] unfolding ready_def by blast
  have ne: "ready_queue s \<noteq> task" using assms t by (cases ts) (auto simp: ready_def)
  note links = add_links [OF conjunct1 [OF t] ne]
  have "dqueue (tcbs (scheduler_add_to_queue task s)) task (ready_queue s) ts"
    by (rule dqueue_prev [of "tcbs s" 0]) (use assms t z in \<open>auto simp: ready_def links\<close>)
  then show "ready (scheduler_add_to_queue task s) (task # ts)"
    using assms t by (simp add: ready_def links ne [symmetric])
next
  assume t: "task \<in> set ts"
  let ?m = "tcbs s" and ?s' = "scheduler_remove_from_queue task s"
  have d: "dqueue ?m 0 (ready_queue s) ts" "distinct ts" using assms by (auto simp: ready_def)
  have z: "0 \<notin> set ts" using queue_list_nonzero [OF dqueue_queue_list [OF d(1)]] .
  then have nz: "task \<noteq> 0" "ready_queue s \<noteq> 0" using t d(1) by (metis, cases ts, auto)
  note links = dqueue_links [OF d(1) t]
  note loop = dqueue_no_loop [OF d z t]
  note upd = remove_links [OF nz conjunct1 [OF loop] conjunct1 [OF conjunct2 [OF loop]]]
  have mem: "tcb_next (tcbs ?s' t) = (if t = tcb_prev (?m task) then tcb_next (?m task) else tcb_next (?m t)) \<and>
      tcb_prev (tcbs ?s' t) = (if t = tcb_next (?m task) then tcb_prev (?m task) else tcb_prev (?m t))"
    if "t \<in> set ts" "t \<noteq> task" for t
    using upd(2,3) [OF that(2)] that(1) z by (cases "t = 0") simp_all
  have "ready_queue ?s' = (if ready_queue s = task then tcb_next (?m task) else ready_queue s)"
    using upd(1) loop by simp
  with dqueue_remove [OF d z t mem] d(2) show "ready ?s' (remove1 task ts)"
    by (simp add: ready_def)
qed

text \<open>
  C30. The scheduler returns from its search of a well-linked ready queue and picks a queued task
  with the least priority number, or the idle task if the queue is empty.
\<close>

theorem select_highest_priority:
  assumes "ready s ts"
  shows "\<exists>t. scheduler_select_next_task s = Some t \<and>
    (if ts = [] then t = idle_task s
     else t \<in> set ts \<and> (\<forall>u \<in> set ts. priority (tcbs s t) \<le> priority (tcbs s u)))"
proof -
  have q: "queue_list (tcbs s) (ready_queue s) ts" using assms dqueue_queue_list by (auto simp: ready_def)
  note z = queue_list_nonzero [OF q]
  have "best_of (tcbs s) ts 0 \<in> set ts \<and> (\<forall>u \<in> set ts. priority (tcbs s (best_of (tcbs s) ts 0)) \<le> priority (tcbs s u))"
    if "ts \<noteq> []" using best_of_spec [of ts 0 "tcbs s"] that z by simp
  with z select_from_queue [OF q, of 0] show ?thesis
    by (auto simp: scheduler_select_next_task_def)
qed


text \<open>Task 8 runs and task 16 is ready.\<close>

definition demo_tcb :: tcb where
  "demo_tcb = \<lparr>task_id = 1, name = [], state = 0, priority = 0, time_slice = 10, total_time = 0, wake_time = 0,
     registers = replicate 16 0, stack_pointer = 0, instruction_pointer = 0, flags = 2, stack_base = 0,
     stack_top = 0, page_table = 0, user_id = 0, group_id = 0, privilege_level = 3, message_queue = 0,
     waiting_for = 0, tcb_next = 0, tcb_prev = 0\<rparr>"

definition demo_cpu :: cpu where
  "demo_cpu = \<lparr>cpu_regs = map word_of_nat [0..<15], cpu_rsp = 4096, cpu_rflags = 2\<rparr>"

definition demo_sched :: sched where
  "demo_sched = \<lparr>tcbs = (\<lambda>_. demo_tcb), ready_queue = 16, waiting_queue = 0, current_task = 8, idle_task = 8,
     next_task_id = 3, system_ticks = 0, heap_base = 8, sched_heap = 0, sched_cpu = demo_cpu\<rparr>"

section \<open>The first task that uses up its time\<close>

definition sched_boot :: "(u64 \<Rightarrow> tcb) \<Rightarrow> cpu \<Rightarrow> u64 \<Rightarrow> sched" where
  "sched_boot mem c base = \<lparr>tcbs = mem, ready_queue = 0, waiting_queue = 0, current_task = 0, idle_task = 0,
     next_task_id = 1, system_ticks = 0, heap_base = base, sched_heap = 0, sched_cpu = c\<rparr>"

fun run_ticks :: "nat \<Rightarrow> sched \<Rightarrow> sched option" where
  "run_ticks 0 s = Some s"
| "run_ticks (Suc n) s = do { s' \<leftarrow> scheduler_tick s; run_ticks n s' }"

text \<open>Task \<open>c\<close> is running with \<open>k\<close> ticks left and is still in front of the ready queue.\<close>

definition running_first :: "u64 \<Rightarrow> nat \<Rightarrow> sched \<Rightarrow> bool" where
  "running_first c k s = (c \<noteq> 0 \<and> current_task s = c \<and> ready_queue s = c \<and> c \<noteq> idle_task s \<and>
     state (tcbs s c) = TASK_RUNNING \<and> unat (time_slice (tcbs s c)) = k)"

lemma tick_running:
  assumes "running_first c (Suc (Suc k)) s"
  shows "\<exists>s'. scheduler_tick s = Some s' \<and> running_first c (Suc k) s'"
proof -
  have "time_slice (tcbs s c) \<noteq> 0" using assms by (auto simp: running_first_def)
  then have "unat (time_slice (tcbs s c) - 1) = Suc k"
    using assms by (simp add: running_first_def unat_minus_one)
  moreover from this have "time_slice (tcbs s c) - 1 \<noteq> 0" by auto
  ultimately show ?thesis
    using assms by (auto simp: scheduler_tick_def running_first_def upd_tcb_def Let_def)
qed

lemma run_ticks_running:
  "running_first c (Suc k + n) s \<Longrightarrow> \<exists>s'. run_ticks n s = Some s' \<and> running_first c (Suc k) s'"
proof (induction n arbitrary: s)
  case (Suc n)
  then obtain s1 where "scheduler_tick s = Some s1" "running_first c (Suc k + n) s1"
    using tick_running [of c "k + n" s] by auto
  with Suc.IH show ?case by auto
qed simp

lemma yield_hangs:
  assumes "running_first c k s"
  shows "scheduler_yield s = None"
proof -
  let ?s1 = "upd_tcb c (\<lambda>t. t\<lparr>state := TASK_READY, time_slice := TIME_SLICE_TICKS\<rparr>) s"
  let ?s' = "scheduler_add_to_queue c ?s1"
  have "ready_queue ?s' = c" "tcb_next (tcbs ?s' c) = c"
    using assms by (simp_all add: running_first_def scheduler_add_to_queue_def upd_tcb_def Let_def)
  then have "select_from (tcbs ?s') (ready_queue ?s') 0 \<noteq> Some r" for r
    using select_from_loop [of "tcbs ?s'" c 0 r] assms unfolding running_first_def by metis
  then have "select_from (tcbs ?s') (ready_queue ?s') 0 = None" by (metis option.exhaust)
  then have "scheduler_schedule ?s' = None" by (simp add: scheduler_schedule_def scheduler_select_next_task_def)
  moreover have "scheduler_yield s = scheduler_schedule ?s'"
    using assms by (simp add: scheduler_yield_def running_first_def Let_def upd_tcb_def)
  ultimately show ?thesis by simp
qed

lemma last_tick_hangs:
  assumes "running_first c 1 s"
  shows "scheduler_tick s = None"
proof -
  let ?s = "upd_tcb c (\<lambda>t. t\<lparr>time_slice := time_slice t - 1, total_time := total_time t + 1\<rparr>)
    (s\<lparr>system_ticks := system_ticks s + 1\<rparr>)"
  have "time_slice (tcbs s c) = 1" using assms by (simp add: running_first_def word_unat_eq_iff)
  then have "scheduler_tick s = scheduler_yield ?s" "running_first c 0 ?s"
    using assms by (auto simp: scheduler_tick_def running_first_def upd_tcb_def Let_def)
  with yield_hangs show ?thesis by simp
qed

lemma create_task_result:
  assumes "malloc sizeof_tcb (sched_heap s) = (Some off, h)" "malloc STACK_SIZE h = (r, h')"
    and "strncpy (replicate 256 0) nm 255 = Some nm'" "heap_base s + off \<noteq> 0"
  shows "\<exists>s'. scheduler_create_task nm prio s = Some (heap_base s + off, s') \<and>
    (\<forall>p. p \<noteq> heap_base s + off \<longrightarrow> tcbs s' p = tcbs s p) \<and> tcb_next (tcbs s' (heap_base s + off)) = 0 \<and>
    sched_heap s' = h' \<and> heap_base s' = heap_base s \<and> ready_queue s' = ready_queue s \<and> idle_task s' = idle_task s"
  using assms by (simp add: scheduler_create_task_def sched_malloc_def upd_tcb_def)

lemma init_start:
  assumes "0 < unat base" "unat base + unat HEAP_SIZE < 2 ^ 64"
  shows "\<exists>s1 s2. scheduler_init (sched_boot mem c base) = Some s1 \<and> scheduler_start s1 = Some s2 \<and>
    running_first (base + 8736) 10 s2"
proof -
  have "unat (base + 8736) = unat base + 8736"
    using assms(2) by (subst unat_add_lem [THEN iffD1]) simp_all
  then have nz: "base \<noteq> 0" "base + 8736 \<noteq> 0" using assms(1) by (auto simp: word_unat_eq_iff)
  have m: "malloc 536 0 = (Some 0, 544)" "malloc 8192 544 = (Some 544, 8736)" "malloc 536 8736 = (Some 8736, 9280)"
    "malloc 8192 9280 = (Some 9280, 17472)"
    by (simp_all add: malloc_def ALIGN_UP_def HEAP_SIZE_def)
  have n: "strncpy (replicate 256 0) [0x69, 0x64, 0x6C, 0x65, 0] 255 \<noteq> None"
    "strncpy (replicate 256 0) [0x69, 0x6E, 0x69, 0x74, 0] 255 \<noteq> None"
    by code_simp+
  then obtain n1 n2 where n: "strncpy (replicate 256 0) [0x69, 0x64, 0x6C, 0x65, 0] 255 = Some n1"
    "strncpy (replicate 256 0) [0x69, 0x6E, 0x69, 0x74, 0] 255 = Some n2" by blast
  let ?s = "sched_boot mem c base"
  obtain t1 where t1: "scheduler_create_task [0x69, 0x64, 0x6C, 0x65, 0] MIN_PRIORITY ?s = Some (base, t1)"
    "sched_heap t1 = 8736" "heap_base t1 = base" "ready_queue t1 = 0"
    using create_task_result [of ?s 0 544 "Some 544" 8736 "[0x69, 0x64, 0x6C, 0x65, 0]" n1 MIN_PRIORITY] m n nz
    by (auto simp: sched_boot_def sizeof_tcb_def STACK_SIZE_def)
  let ?t = "upd_tcb base (\<lambda>t. t\<lparr>state := TASK_READY\<rparr>) (t1\<lparr>idle_task := base\<rparr>)"
  obtain t2 where t2: "scheduler_create_task [0x69, 0x6E, 0x69, 0x74, 0] MIN_PRIORITY ?t = Some (base + 8736, t2)"
    "ready_queue t2 = 0" "idle_task t2 = base"
    using create_task_result [of ?t 8736 9280 "Some 9280" 17472 "[0x69, 0x6E, 0x69, 0x74, 0]" n2 MIN_PRIORITY] m n nz t1
    by (auto simp: sizeof_tcb_def STACK_SIZE_def upd_tcb_def)
  let ?u = "(scheduler_add_to_queue (base + 8736) t2)\<lparr>current_task := base\<rparr>"
  have u: "scheduler_init ?s = Some ?u"
    using t1 t2 nz by (simp add: scheduler_init_def scheduler_add_to_queue_def upd_tcb_def Let_def)
  have q: "queue_list (tcbs ?u) (ready_queue ?u) [base + 8736]" "idle_task ?u = base"
    using t2 nz by (simp_all add: scheduler_add_to_queue_def upd_tcb_def Let_def)
  have "scheduler_start ?u = Some (scheduler_switch_to (base + 8736) ?u)"
    using select_from_queue [OF q(1), of 0] nz
    by (simp add: scheduler_start_def scheduler_schedule_def scheduler_select_next_task_def)
  moreover have "running_first (base + 8736) 10 (scheduler_switch_to (base + 8736) ?u)"
    using t2 nz
    by (simp add: running_first_def scheduler_switch_to_def scheduler_save_context_def scheduler_restore_context_def
        scheduler_add_to_queue_def upd_tcb_def TIME_SLICE_TICKS_def Let_def)
  ultimately show ?thesis using u by blast
qed



lemma current_switch: "current_task (scheduler_switch_to b s) = b"
  by (simp add: scheduler_switch_to_def scheduler_save_context_def scheduler_restore_context_def upd_tcb_def Let_def)


lemma demo_ready: "ready demo_sched [16]"
  by (simp add: ready_def demo_sched_def demo_tcb_def)

theorem select_highest_priority_witness: "scheduler_select_next_task demo_sched = Some 16"
  using select_highest_priority [OF demo_ready] by simp

theorem queue_refines_list_witness:
  "ready demo_sched [16] \<and> ready (scheduler_add_to_queue 8 demo_sched) [8, 16] \<and>
   ready (scheduler_remove_from_queue 16 demo_sched) []"
  using queue_refines_list [OF demo_ready, of 8] queue_refines_list [OF demo_ready, of 16] demo_ready
  by (simp add: demo_sched_def demo_tcb_def)

end
