(* ===== verification/Security.thy ===== *)
theory Security
  imports Kernel_Utils
begin

unbundle bit_operations_syntax

text \<open>
  Security contexts and capabilities, \<^verbatim>\<open>src/security/security.c\<close>.  The two linked lists are
  lists: cells are only added in front and unlinked.  The state has the position of the heap,
  since the functions call \<^verbatim>\<open>malloc\<close>, and the clock \<^verbatim>\<open>system_time\<close>.
\<close>

record capability =
  cap_id :: u64
  owner_pid :: u64
  target_pid :: u64
  permissions :: u64
  resource_type :: u64
  resource_id :: u64
  create_time :: u64
  expire_time :: u64

record security_context =
  task_pid :: u64
  user_id :: u64
  group_id :: u64
  privilege_level :: u64
  umask :: u64
  ctx_capabilities :: "capability list"

record security =
  security_contexts :: "security_context list"
  global_capabilities :: "capability list"
  next_capability_id :: u64
  sec_heap :: u64
  system_time :: u64

definition PRIV_RING_0 :: u64 where "PRIV_RING_0 = 0"
definition PRIV_RING_3 :: u64 where "PRIV_RING_3 = 3"
definition sizeof_security_context :: u64 where "sizeof_security_context = 56"
definition sizeof_capability :: u64 where "sizeof_capability = 72"

text \<open>The globals before \<^verbatim>\<open>security_init\<close>.\<close>

definition security_boot :: "u64 \<Rightarrow> u64 \<Rightarrow> security" where
  "security_boot heap now = \<lparr>security_contexts = [], global_capabilities = [], next_capability_id = 1,
     sec_heap = heap, system_time = now\<rparr>"

section \<open>Operations\<close>

text \<open>The result is whether the returned pointer is not null; the context is then the first of the list.\<close>

definition security_create_context :: "u64 \<Rightarrow> u64 \<Rightarrow> u64 \<Rightarrow> security \<Rightarrow> bool \<times> security" where
  "security_create_context pid uid level s =
     (case malloc sizeof_security_context (sec_heap s) of
        (None, h) \<Rightarrow> (False, s\<lparr>sec_heap := h\<rparr>)
      | (Some _, h) \<Rightarrow> (True, s\<lparr>sec_heap := h, security_contexts :=
          \<lparr>task_pid = pid, user_id = uid, group_id = uid, privilege_level = level, umask = 18,
           ctx_capabilities = []\<rparr> # security_contexts s\<rparr>))"

text \<open>Writing the mask through a null pointer is undefined.\<close>

definition security_init :: "security \<Rightarrow> security option" where
  "security_init s =
     (case security_create_context 0 0 PRIV_RING_0 s of
        (False, _) \<Rightarrow> None
      | (True, s') \<Rightarrow>
          (case security_contexts s' of
             [] \<Rightarrow> None
           | ctx # rest \<Rightarrow> Some (s'\<lparr>security_contexts := ctx\<lparr>umask := 18\<rparr> # rest\<rparr>)))"

definition security_create_capability ::
  "u64 \<Rightarrow> u64 \<Rightarrow> u64 \<Rightarrow> u64 \<Rightarrow> u64 \<Rightarrow> u64 \<Rightarrow> security \<Rightarrow> u64 \<times> security" where
  "security_create_capability owner target perms rtype rid expire s =
     (case malloc sizeof_capability (sec_heap s) of
        (None, h) \<Rightarrow> (0, s\<lparr>sec_heap := h\<rparr>)
      | (Some _, h) \<Rightarrow>
          (next_capability_id s,
           s\<lparr>sec_heap := h, next_capability_id := next_capability_id s + 1, global_capabilities :=
             \<lparr>cap_id = next_capability_id s, owner_pid = owner, target_pid = target, permissions = perms,
              resource_type = rtype, resource_id = rid, create_time = system_time s, expire_time = expire\<rparr>
             # global_capabilities s\<rparr>))"

definition security_find_context :: "u64 \<Rightarrow> security \<Rightarrow> security_context option" where
  "security_find_context pid s = find (\<lambda>ctx. task_pid ctx = pid) (security_contexts s)"

definition security_check_capability :: "u64 \<Rightarrow> u64 \<Rightarrow> u64 \<Rightarrow> security \<Rightarrow> bool" where
  "security_check_capability pid target_permissions required_permissions s =
     (case security_find_context pid s of
        None \<Rightarrow> False
      | Some ctx \<Rightarrow>
          if privilege_level ctx = PRIV_RING_0 then True
          else (let granted = target_permissions AND 511
                in granted AND required_permissions = required_permissions))"

definition security_check_privilege :: "u64 \<Rightarrow> u64 \<Rightarrow> security \<Rightarrow> bool" where
  "security_check_privilege pid required_ring s =
     (case security_find_context pid s of
        None \<Rightarrow> False
      | Some ctx \<Rightarrow> privilege_level ctx \<le> required_ring)"

fun unlink_capability :: "u64 \<Rightarrow> capability list \<Rightarrow> capability list option" where
  "unlink_capability i [] = None"
| "unlink_capability i (cap # rest) =
     (if cap_id cap = i then Some rest else map_option (Cons cap) (unlink_capability i rest))"

definition security_revoke_capability :: "u64 \<Rightarrow> security \<Rightarrow> i32 \<times> security" where
  "security_revoke_capability i s =
     (case unlink_capability i (global_capabilities s) of
        None \<Rightarrow> (ERR_NOT_FOUND, s)
      | Some caps \<Rightarrow> (ERR_SUCCESS, s\<lparr>global_capabilities := caps\<rparr>))"

definition security_validate_memory_access :: "u64 \<Rightarrow> u64 \<Rightarrow> u64 \<Rightarrow> u8 \<Rightarrow> security \<Rightarrow> bool" where
  "security_validate_memory_access pid addr sz access_type s =
     (case security_find_context pid s of
        None \<Rightarrow> False
      | Some ctx \<Rightarrow>
          if privilege_level ctx = PRIV_RING_0 then True
          else if addr \<ge> 0x0000800000000000 \<and> addr < 0xFFFF800000000000 then False
          else if access_type = 0 \<or> access_type = 1 \<or> access_type = 2 then True
          else False)"

fun set_umask_in :: "u64 \<Rightarrow> u64 \<Rightarrow> security_context list \<Rightarrow> security_context list" where
  "set_umask_in pid m [] = []"
| "set_umask_in pid m (ctx # rest) =
     (if task_pid ctx = pid then ctx\<lparr>umask := m AND 511\<rparr> # rest else ctx # set_umask_in pid m rest)"

definition security_set_umask :: "u64 \<Rightarrow> u64 \<Rightarrow> security \<Rightarrow> security" where
  "security_set_umask pid m s = s\<lparr>security_contexts := set_umask_in pid m (security_contexts s)\<rparr>"

definition security_get_umask :: "u64 \<Rightarrow> security \<Rightarrow> u64" where
  "security_get_umask pid s =
     (case security_find_context pid s of None \<Rightarrow> 18 | Some ctx \<Rightarrow> umask ctx)"

fun remove_expired :: "u64 \<Rightarrow> capability list \<Rightarrow> capability list" where
  "remove_expired now [] = []"
| "remove_expired now (cap # rest) =
     (if expire_time cap \<noteq> 0 \<and> expire_time cap < now then remove_expired now rest
      else cap # remove_expired now rest)"

definition security_cleanup_capabilities :: "security \<Rightarrow> security" where
  "security_cleanup_capabilities s =
     s\<lparr>global_capabilities := remove_expired (system_time s) (global_capabilities s)\<rparr>"

definition security_get_stats :: "security \<Rightarrow> u64 \<times> u64" where
  "security_get_stats s = (fold (\<lambda>_ n. n + 1) (security_contexts s) 0, fold (\<lambda>_ n. n + 1) (global_capabilities s) 0)"

section \<open>Reachable states\<close>

text \<open>The clock runs between the calls, and other parts of the kernel use the heap.\<close>

inductive sec_step :: "security \<Rightarrow> security \<Rightarrow> bool" where
  new_context: "sec_step s (snd (security_create_context pid uid level s))"
| new_capability: "sec_step s (snd (security_create_capability owner target perms rtype rid expire s))"
| revoke: "sec_step s (snd (security_revoke_capability i s))"
| mask: "sec_step s (security_set_umask pid m s)"
| cleanup: "sec_step s (security_cleanup_capabilities s)"
| tick: "sec_step s (s\<lparr>system_time := now\<rparr>)"
| other_malloc: "unat sz \<le> 2 ^ 32 \<Longrightarrow> sec_step s (s\<lparr>sec_heap := snd (malloc sz (sec_heap s))\<rparr>)"

inductive_cases sec_stepE [elim!]: "sec_step s s'"

inductive sec_reachable :: "security \<Rightarrow> bool" where
  boot: "heap_inv heap \<Longrightarrow> security_init (security_boot heap now) = Some s \<Longrightarrow> sec_reachable s"
| step: "sec_reachable s \<Longrightarrow> sec_step s s' \<Longrightarrow> sec_reachable s'"

text \<open>
  Every capability takes 80 bytes of a heap of 1 MB that is never given back, so the counter does
  not wrap around and numbers are never used twice.
\<close>

definition sec_inv :: "security \<Rightarrow> bool" where
  "sec_inv s = (heap_inv (sec_heap s) \<and> 0 < unat (next_capability_id s) \<and>
     80 * (unat (next_capability_id s) - 1) \<le> unat (sec_heap s) \<and>
     distinct (map cap_id (global_capabilities s)) \<and>
     (\<forall>cap \<in> set (global_capabilities s). 0 < unat (cap_id cap) \<and> cap_id cap < next_capability_id s))"

lemma unlink_capability_Some:
  "unlink_capability i caps = Some caps' \<Longrightarrow> distinct (map cap_id caps) \<Longrightarrow>
    caps' = filter (\<lambda>cap. cap_id cap \<noteq> i) caps \<and> i \<in> cap_id ` set caps"
proof (induction caps arbitrary: caps')
  case (Cons cap caps)
  have "filter (\<lambda>c. cap_id c \<noteq> i) caps = caps" if "cap_id cap = i"
    using Cons.prems(2) that by (intro filter_True ballI notI) (simp, metis imageI)
  with Cons show ?case by (auto split: if_splits)
qed simp

lemma unlink_capability_None: "unlink_capability i caps = None \<longleftrightarrow> i \<notin> cap_id ` set caps"
  by (induction caps) auto

lemma remove_expired_filter:
  "remove_expired now caps = filter (\<lambda>cap. \<not> (expire_time cap \<noteq> 0 \<and> expire_time cap < now)) caps"
  by (induction caps) auto

lemma sec_inv_filter:
  "sec_inv s \<Longrightarrow> sec_inv (s\<lparr>global_capabilities := filter P (global_capabilities s)\<rparr>)"
  by (auto simp: sec_inv_def distinct_map_filter)

lemma malloc_grows:
  assumes "heap_inv pos" "unat sz \<le> 2 ^ 32" "malloc sz pos = (r, pos')"
  shows "heap_inv pos'" "unat pos + (case r of None \<Rightarrow> 0 | Some _ \<Rightarrow> (unat sz + 15) div 16 * 16) \<le> unat pos'"
proof -
  show "heap_inv pos'" using heap_inv_malloc [OF assms(1), of sz] assms(3) by simp
  obtain m where m: "unat pos = 16 * m" using assms(1) by (auto simp: heap_inv_def elim: dvdE)
  have "(16 * m + unat sz + 15) div 16 = m + (unat sz + 15) div 16" by simp
  with malloc_cases [OF assms(1,2)] assms(3) m
  show "unat pos + (case r of None \<Rightarrow> 0 | Some _ \<Rightarrow> (unat sz + 15) div 16 * 16) \<le> unat pos'"
    by (auto split: if_splits)
qed

lemma sec_inv_create_context: "sec_inv s \<Longrightarrow> sec_inv (snd (security_create_context pid uid level s))"
  using malloc_grows [of "sec_heap s" sizeof_security_context]
  by (auto simp: sec_inv_def security_create_context_def sizeof_security_context_def split: prod.splits option.splits)

lemma sec_inv_create_capability:
  assumes "sec_inv s"
  shows "sec_inv (snd (security_create_capability owner target perms rtype rid expire s))"
proof (cases "malloc sizeof_capability (sec_heap s)")
  case (Pair r h)
  have inv: "heap_inv (sec_heap s)" using assms by (simp add: sec_inv_def)
  note h = malloc_grows [OF inv _ Pair, unfolded sizeof_capability_def, simplified]
  show ?thesis
  proof (cases r)
    case None
    with assms h Pair show ?thesis by (auto simp: sec_inv_def security_create_capability_def)
  next
    case (Some p)
    let ?n = "next_capability_id s"
    have small: "unat ?n \<le> 2 ^ 20" using assms by (auto simp: sec_inv_def heap_inv_def)
    then have suc: "unat (?n + 1) = unat ?n + 1" by (subst unat_add_lem [THEN iffD1]) simp_all
    have "cap_id cap < ?n + 1" "cap_id cap \<noteq> ?n" if "cap \<in> set (global_capabilities s)" for cap
      using assms that suc by (auto simp: sec_inv_def word_less_nat_alt)
    moreover have "?n < ?n + 1" using suc by (simp add: word_less_nat_alt)
    ultimately show ?thesis
      using assms h Pair Some suc by (auto simp: sec_inv_def security_create_capability_def)
  qed
qed

lemma sec_reachable_inv: "sec_reachable s \<Longrightarrow> sec_inv s"
proof (induction rule: sec_reachable.induct)
  case (boot heap now s)
  have "sec_inv (security_boot heap now)"
    using boot(1) by (simp add: sec_inv_def security_boot_def)
  from sec_inv_create_context [OF this, of 0 0 PRIV_RING_0] boot(2) show ?case
    by (auto simp: security_init_def sec_inv_def split: prod.splits bool.splits list.splits)
next
  case (step s s')
  have revoke: "sec_inv (snd (security_revoke_capability i s))" for i
    using step.IH sec_inv_filter [OF step.IH] unlink_capability_Some
    by (auto simp: security_revoke_capability_def split: option.split) (metis sec_inv_def)
  have "sec_inv (s\<lparr>sec_heap := snd (malloc sz (sec_heap s))\<rparr>)" if "unat sz \<le> 2 ^ 32" for sz
    using step.IH malloc_grows [of "sec_heap s" sz, OF _ that] by (cases "malloc sz (sec_heap s)") (auto simp: sec_inv_def)
  with step show ?case
    by (auto intro!: sec_inv_create_context sec_inv_create_capability revoke
        simp: security_set_umask_def security_cleanup_capabilities_def remove_expired_filter sec_inv_filter)
      (auto simp: sec_inv_def)
qed

section \<open>Properties\<close>

text \<open>
  C20. Revocation is exact in every reachable state: the capability with the number is removed,
  all others stay in their order, and nothing is left that has the number; an unknown number is
  reported and changes nothing.
\<close>

theorem revoke_exact:
  assumes "sec_reachable s"
  shows "security_revoke_capability i s =
    (if i \<in> cap_id ` set (global_capabilities s)
     then (ERR_SUCCESS, s\<lparr>global_capabilities := filter (\<lambda>cap. cap_id cap \<noteq> i) (global_capabilities s)\<rparr>)
     else (ERR_NOT_FOUND, s))"
proof (cases "unlink_capability i (global_capabilities s)")
  case None
  moreover have "i \<notin> cap_id ` set (global_capabilities s)"
    using None by (simp only: unlink_capability_None simp_thms)
  ultimately show ?thesis by (simp add: security_revoke_capability_def)
next
  case (Some caps)
  moreover have "distinct (map cap_id (global_capabilities s))"
    using sec_reachable_inv [OF assms] by (simp add: sec_inv_def)
  ultimately show ?thesis
    using unlink_capability_Some by (fastforce simp: security_revoke_capability_def)
qed

text \<open>
  C32. A created capability has a number that is not in use and not 0, or the heap is full, the
  result is 0 and no capability is added; revoking the new number gives the old capabilities.
\<close>

theorem create_capability_fresh:
  assumes "sec_reachable s" "security_create_capability owner target perms rtype rid expire s = (i, s')"
  shows "(i = 0 \<and> global_capabilities s' = global_capabilities s \<and> unat HEAP_SIZE < unat (sec_heap s) + 72) \<or>
    (i \<noteq> 0 \<and> i \<notin> cap_id ` set (global_capabilities s) \<and>
     (\<exists>cap. global_capabilities s' = cap # global_capabilities s \<and> cap_id cap = i \<and> permissions cap = perms \<and>
       owner_pid cap = owner \<and> target_pid cap = target \<and> create_time cap = system_time s \<and> expire_time cap = expire) \<and>
     global_capabilities (snd (security_revoke_capability i s')) = global_capabilities s)"
proof -
  have inv: "sec_inv s" using sec_reachable_inv [OF assms(1)] .
  then have pos: "heap_inv (sec_heap s)" by (simp add: sec_inv_def)
  note m = malloc_cases [OF pos, of sizeof_capability, unfolded sizeof_capability_def, simplified]
  show ?thesis
    using assms(2) inv m
    by (auto simp: security_create_capability_def sizeof_capability_def security_revoke_capability_def sec_inv_def
        split: if_splits)
qed

text \<open>
  The exact set of accesses that \<^verbatim>\<open>security_validate_memory_access\<close> allows: a task outside
  ring 0 may read, write and execute at every address from \<^verbatim>\<open>0xFFFF800000000000\<close> on, which the
  code calls kernel space, and the size of the access plays no part.
\<close>

theorem validate_memory_access_iff:
  "security_validate_memory_access pid addr sz acc s =
    (\<exists>ctx. security_find_context pid s = Some ctx \<and>
      (privilege_level ctx = PRIV_RING_0 \<or>
       unat acc \<le> 2 \<and> (unat addr < 2 ^ 47 \<or> unat addr \<ge> 0xFFFF800000000000)))"
proof -
  have "(acc = 0 \<or> acc = 1 \<or> acc = 2) = (unat acc \<le> 2)"
    by (auto simp: word_unat_eq_iff)
  then show ?thesis
    by (auto simp: security_validate_memory_access_def word_le_nat_alt word_less_nat_alt split: option.split)
qed

lemma find_set_umask:
  "find (\<lambda>ctx. task_pid ctx = p) (set_umask_in pid m ctxs) =
    map_option (\<lambda>ctx. if p = pid then ctx\<lparr>umask := m AND 511\<rparr> else ctx) (find (\<lambda>ctx. task_pid ctx = p) ctxs)"
  by (induction ctxs) (auto simp: option.map_ident)

text \<open>
  The mask that was set for a task with a context is read back, reduced to nine bits; other
  tasks keep theirs, and the privileges of no task change.
\<close>

theorem set_get_umask:
  "security_get_umask p (security_set_umask pid m s) =
    (if p = pid \<and> security_find_context pid s \<noteq> None then m AND 511 else security_get_umask p s) \<and>
   security_check_privilege p ring (security_set_umask pid m s) = security_check_privilege p ring s"
  by (auto simp: security_get_umask_def security_set_umask_def security_find_context_def find_set_umask
      security_check_privilege_def split: option.splits)

lemma demo_security: "\<exists>s. security_init (security_boot 0 7) = Some s \<and> global_capabilities s = [] \<and> sec_heap s = 64"
  by (simp add: security_init_def security_create_context_def security_boot_def sizeof_security_context_def
      malloc_cases ALIGN_UP_def)

theorem revoke_exact_witness:
  "\<exists>s. security_init (security_boot 0 7) = Some s \<and> fst (security_revoke_capability 5 s) = ERR_NOT_FOUND"
proof -
  obtain s where s: "security_init (security_boot 0 7) = Some s" "global_capabilities s = []"
    using demo_security by blast
  have "sec_reachable s" by (rule sec_reachable.boot [OF _ s(1)]) simp
  from revoke_exact [OF this, of 5] s show ?thesis by simp
qed

theorem create_capability_fresh_witness:
  "\<exists>s i s'. security_init (security_boot 0 7) = Some s \<and>
    security_create_capability 1 2 6 0 0 100 s = (i, s') \<and> i \<noteq> 0 \<and> length (global_capabilities s') = 1"
proof -
  obtain s where s: "security_init (security_boot 0 7) = Some s" "global_capabilities s = []" "sec_heap s = 64"
    using demo_security by blast
  obtain i s' where c: "security_create_capability 1 2 6 0 0 100 s = (i, s')" by fastforce
  have "sec_reachable s" by (rule sec_reachable.boot [OF _ s(1)]) simp
  from create_capability_fresh [OF this c] s c show ?thesis by auto
qed

end
