(* ===== verification/Memory.thy ===== *)
theory Memory
  imports Kernel_Utils
begin

unbundle bit_operations_syntax

text \<open>
  Physical pages and page tables, \<^verbatim>\<open>src/mm/mm.c\<close>.  Memory is a store of bytes.  A
  \<^verbatim>\<open>page_entry_t\<close> is a packed structure of 52 bits and takes 7 bytes, so the tables are arrays with
  steps of 7; a write to a bit field keeps the other bits.
\<close>

section \<open>State\<close>

record memory_map_entry =
  mm_base :: u64
  mm_length :: u64
  mm_type :: u32

record mm =
  mem :: "u64 \<Rightarrow> u8"
  memory_map :: "memory_map_entry list"
  total_pages :: u64
  free_pages :: u64
  free_pages_count :: u64
  cr3 :: u64
  cr0 :: u64

definition PAGE_SIZE :: u64 where "PAGE_SIZE = 4096"
definition KERNEL_PHYS_START :: u64 where "KERNEL_PHYS_START = 0x00100000"
definition KERNEL_VIRT_START :: u64 where "KERNEL_VIRT_START = 0xFFFF800000000000"
definition PAGE_ALLOC_START :: u64 where "PAGE_ALLOC_START = 0x00100000"
definition MEMORY_AVAILABLE :: u32 where "MEMORY_AVAILABLE = 1"
definition MEMORY_RESERVED :: u32 where "MEMORY_RESERVED = 2"
definition page_dir :: u64 where "page_dir = 0xFFFFF000"

definition PD_INDEX :: "u64 \<Rightarrow> u64" where "PD_INDEX vaddr = drop_bit 22 vaddr AND 0x3FF"
definition PT_INDEX :: "u64 \<Rightarrow> u64" where "PT_INDEX vaddr = drop_bit 12 vaddr AND 0x3FF"

section \<open>Page entries in memory\<close>

definition load7 :: "(u64 \<Rightarrow> u8) \<Rightarrow> u64 \<Rightarrow> u64" where
  "load7 m a = fold (\<lambda>i w. w OR push_bit (8 * i) (ucast (m (a + word_of_nat i)))) [0..<7] 0"

definition store7 :: "(u64 \<Rightarrow> u8) \<Rightarrow> u64 \<Rightarrow> u64 \<Rightarrow> u64 \<Rightarrow> u8" where
  "store7 m a w = (\<lambda>x. if x - a < 7 then ucast (drop_bit (8 * unat (x - a)) w) else m x)"

definition get_field :: "nat \<Rightarrow> nat \<Rightarrow> (u64 \<Rightarrow> u8) \<Rightarrow> u64 \<Rightarrow> u64" where
  "get_field lo n m a = take_bit n (drop_bit lo (load7 m a))"

definition set_field :: "nat \<Rightarrow> nat \<Rightarrow> u64 \<Rightarrow> u64 \<Rightarrow> (u64 \<Rightarrow> u8) \<Rightarrow> u64 \<Rightarrow> u8" where
  "set_field lo n v a m = store7 m a
     ((load7 m a AND NOT (push_bit lo (mask n))) OR push_bit lo (take_bit n v))"

abbreviation "get_present \<equiv> get_field 0 1"
abbreviation "set_present \<equiv> set_field 0 1"
abbreviation "get_rw \<equiv> get_field 1 1"
abbreviation "set_rw \<equiv> set_field 1 1"
abbreviation "get_user \<equiv> get_field 2 1"
abbreviation "set_user \<equiv> set_field 2 1"
abbreviation "set_accessed \<equiv> set_field 5 1"
abbreviation "get_frame \<equiv> get_field 12 40"
abbreviation "set_frame \<equiv> set_field 12 40"

definition entry :: "u64 \<Rightarrow> u64 \<Rightarrow> u64" where
  "entry table i = table + 7 * i"

definition memset_mem :: "u64 \<Rightarrow> u8 \<Rightarrow> u64 \<Rightarrow> (u64 \<Rightarrow> u8) \<Rightarrow> u64 \<Rightarrow> u8" where
  "memset_mem p c n m = (\<lambda>x. if x - p < n then c else m x)"

section \<open>Operations\<close>

definition mm_setup_memory_map :: "mm \<Rightarrow> mm" where
  "mm_setup_memory_map s =
     (let s1 = s\<lparr>memory_map :=
        [\<lparr>mm_base = 0x00000000, mm_length = 0x00001000, mm_type = MEMORY_RESERVED\<rparr>,
         \<lparr>mm_base = 0x00001000, mm_length = 0x0009F000, mm_type = MEMORY_AVAILABLE\<rparr>,
         \<lparr>mm_base = 0x00100000, mm_length = 0x07FF0000, mm_type = MEMORY_AVAILABLE\<rparr>,
         \<lparr>mm_base = 0x08000000, mm_length = 0x077F0000, mm_type = MEMORY_RESERVED\<rparr>]\<rparr>
      in s1\<lparr>total_pages := fold (\<lambda>e n. if mm_type e = MEMORY_AVAILABLE then n + mm_length e div PAGE_SIZE else n)
           (memory_map s1) 0\<rparr>)"

definition mm_free_page :: "u64 \<Rightarrow> mm \<Rightarrow> mm" where
  "mm_free_page page s =
     (let m1 = set_present 0 page (set_frame 0 page (mem s));
          m2 = set_rw (drop_bit 12 (free_pages s)) page m1
      in s\<lparr>mem := m2, free_pages := page, free_pages_count := free_pages_count s + 1\<rparr>)"

definition mm_alloc_page :: "mm \<Rightarrow> u64 \<times> mm" where
  "mm_alloc_page s =
     (if free_pages s = 0 then (0, s)
      else
        let page = free_pages s
        in (page, s\<lparr>free_pages := page AND NOT 0xFFF, free_pages_count := free_pages_count s - 1,
              mem := memset_mem page 0 PAGE_SIZE (mem s)\<rparr>))"

definition free_region :: "memory_map_entry \<Rightarrow> mm \<Rightarrow> mm" where
  "free_region e s =
     (if mm_type e = MEMORY_AVAILABLE
      then fold (\<lambda>j s. let page_addr = mm_base e + word_of_nat j * PAGE_SIZE
                      in if page_addr \<ge> PAGE_ALLOC_START then mm_free_page page_addr s else s)
             [0..<unat (mm_length e div PAGE_SIZE)] s
      else s)"

definition mm_init_page_allocator :: "mm \<Rightarrow> mm" where
  "mm_init_page_allocator s = fold free_region (memory_map s) (s\<lparr>free_pages := 0, free_pages_count := total_pages s\<rparr>)"

definition page_table_at :: "u64 \<Rightarrow> u64" where
  "page_table_at pd_index = pd_index * 0x400000 + KERNEL_VIRT_START"

definition mm_map_page :: "u64 \<Rightarrow> u64 \<Rightarrow> bool \<Rightarrow> bool \<Rightarrow> mm \<Rightarrow> mm" where
  "mm_map_page phys_addr virt_addr user readonly s =
     (let pd_index = PD_INDEX virt_addr; pt_index = PT_INDEX virt_addr;
          pd = entry page_dir pd_index; pt = page_table_at pd_index; pte = entry pt pt_index;
          s1 = (if get_present (mem s) pd = 0
                then
                  let (page, s') = mm_alloc_page s;
                      m1 = set_frame (drop_bit 12 page) pd (mem s');
                      m2 = set_user (if user then 1 else 0) pd (set_rw 1 pd (set_present 1 pd m1))
                  in s'\<lparr>mem := memset_mem pt 0 PAGE_SIZE m2\<rparr>
                else s);
          m3 = set_present 1 pte (set_frame (drop_bit 12 phys_addr) pte (mem s1));
          m4 = set_user (if user then 1 else 0) pte (set_rw (if readonly then 0 else 1) pte m3)
      in s1\<lparr>mem := set_accessed 1 pte m4\<rparr>)"

definition mm_setup_kernel_vm :: "mm \<Rightarrow> mm" where
  "mm_setup_kernel_vm s =
     (let s1 = fold (\<lambda>i. mm_map_page (word_of_nat i * PAGE_SIZE) (KERNEL_VIRT_START + word_of_nat i * PAGE_SIZE) True False)
                 [0..<512] s
      in fold (\<lambda>i. mm_map_page (word_of_nat i * PAGE_SIZE) (word_of_nat i * PAGE_SIZE) False False) [0..<256] s1)"

text \<open>The constant \<^verbatim>\<open>(1 << 31) | (1 << 16)\<close> is a negative \<^verbatim>\<open>int\<close> and is sign-extended.\<close>

definition mm_enable_paging :: "mm \<Rightarrow> mm" where
  "mm_enable_paging s = s\<lparr>cr3 := page_dir - KERNEL_VIRT_START, cr0 := cr0 s OR 0xFFFFFFFF80010000\<rparr>"

definition mm_init :: "mm \<Rightarrow> mm" where
  "mm_init s = mm_enable_paging (mm_setup_kernel_vm (mm_init_page_allocator (mm_setup_memory_map s)))"

definition mm_virt_to_phys :: "u64 \<Rightarrow> mm \<Rightarrow> u64" where
  "mm_virt_to_phys addr s =
     (if addr \<ge> KERNEL_VIRT_START then addr - KERNEL_VIRT_START + KERNEL_PHYS_START
      else
        let pd_index = PD_INDEX addr; pt_index = PT_INDEX addr in
        if get_present (mem s) (entry page_dir pd_index) = 0 then 0
        else
          let pte = entry (page_table_at pd_index) pt_index in
          if get_present (mem s) pte = 0 then 0
          else push_bit 12 (get_frame (mem s) pte) OR (addr AND 0xFFF))"

section \<open>Bit fields\<close>

lemma bit_fold_or:
  "bit (fold (\<lambda>i w. w OR f i) is w0) n = (bit w0 n \<or> (\<exists>i \<in> set is. bit (f i) n))" for w0 :: u64
  by (induction "is" arbitrary: w0) (auto simp: bit_simps)

lemma bit_load7: "bit (load7 m a) n = (n < 56 \<and> bit (m (a + word_of_nat (n div 8))) (n mod 8))"
proof -
  have "bit (load7 m a) n = (\<exists>i < 7. 8 * i \<le> n \<and> n < 64 \<and> n - 8 * i < 8 \<and> bit (m (a + word_of_nat i)) (n - 8 * i))"
    unfolding load7_def bit_fold_or by (force simp: bit_simps dest: bit_imp_le_length)
  also have "\<dots> = (n < 56 \<and> bit (m (a + word_of_nat (n div 8))) (n mod 8))"
  proof
    assume "\<exists>i < 7. 8 * i \<le> n \<and> n < 64 \<and> n - 8 * i < 8 \<and> bit (m (a + word_of_nat i)) (n - 8 * i)"
    then obtain i where i: "i < 7" "8 * i \<le> n" "n - 8 * i < 8" "bit (m (a + word_of_nat i)) (n - 8 * i)" by blast
    have "n div 8 = i" using i(2,3) by (intro div_nat_eqI) auto
    then have "n mod 8 = n - 8 * i" by (simp add: modulo_nat_def)
    with i \<open>n div 8 = i\<close> show "n < 56 \<and> bit (m (a + word_of_nat (n div 8))) (n mod 8)" by auto
  next
    assume n: "n < 56 \<and> bit (m (a + word_of_nat (n div 8))) (n mod 8)"
    moreover have "n - 8 * (n div 8) = n mod 8" "8 * (n div 8) \<le> n" by (simp_all add: modulo_nat_def)
    ultimately show "\<exists>i < 7. 8 * i \<le> n \<and> n < 64 \<and> n - 8 * i < 8 \<and> bit (m (a + word_of_nat i)) (n - 8 * i)"
      by (intro exI [of _ "n div 8"]) auto
  qed
  finally show ?thesis .
qed

text \<open>The 7 bytes at \<open>a\<close> lie outside the \<open>n\<close> bytes at \<open>p\<close>.\<close>

definition apart :: "u64 \<Rightarrow> nat \<Rightarrow> u64 \<Rightarrow> bool" where
  "apart a n p = (n \<le> unat (a - p) \<and> unat (a - p) + 7 \<le> 2 ^ 64)"

lemma unat_u64_lt: "unat (w :: u64) < 2 ^ 64"
  by (rule order.strict_trans2 [OF unsigned_less]) simp

lemma unat_diff_word:
  "unat (a - p) = (if unat p \<le> unat a then unat a - unat p else unat a + 2 ^ 64 - unat p)" for a p :: u64
proof -
  have "size a = 64" by (simp add: word_size)
  then show ?thesis by (simp only: unat_sub_if_size)
qed

lemma apartI:
  assumes "unat p + n \<le> unat a \<and> unat a + 7 \<le> 2 ^ 64 \<or> unat a + 7 \<le> unat p \<and> unat p + n \<le> 2 ^ 64 + unat a"
  shows "apart a n p"
proof (cases "unat p \<le> unat a")
  case True
  then show ?thesis using assms unfolding apart_def unat_diff_word if_P [OF True] by linarith
next
  case False
  then show ?thesis
    using assms unat_u64_lt [of p] unfolding apart_def unat_diff_word if_not_P [OF False] by linarith
qed

lemma apart_byte:
  assumes "apart a n p" "i < 7"
  shows "\<not> a + word_of_nat i - p < word_of_nat n"
proof -
  have i: "unat (word_of_nat i :: u64) = i" using assms(2) by (simp add: unat_of_nat take_bit_nat_eq_self)
  have "unat ((a - p) + word_of_nat i) = unat (a - p) + i"
    using assms i by (subst unat_add_lem [THEN iffD1]) (auto simp: apart_def)
  moreover have "a + word_of_nat i - p = (a - p) + word_of_nat i" by simp
  ultimately have "n \<le> unat (a + word_of_nat i - p)" using assms(1) by (simp only: apart_def) linarith
  moreover have "unat (word_of_nat n :: u64) \<le> n" by (simp add: unat_of_nat)
  ultimately show ?thesis unfolding word_less_nat_alt by linarith
qed

lemma load_store: "load7 (store7 m a w) a = take_bit 56 w"
proof (rule bit_word_eqI)
  fix n
  have "bit (store7 m a w (a + word_of_nat (n div 8))) (n mod 8) = bit w n" if "n < 56"
  proof -
    have "unat (word_of_nat (n div 8) :: u64) = n div 8" "n div 8 < 7"
      using that by (simp_all add: unat_of_nat take_bit_nat_eq_self)
    moreover have "word_of_nat (n div 8) < (7 :: u64)" using calculation by (simp add: word_less_nat_alt)
    moreover have "8 * (n div 8) + n mod 8 = n" by simp
    ultimately show ?thesis by (simp add: store7_def bit_simps)
  qed
  then show "bit (load7 (store7 m a w) a) n = bit (take_bit 56 w) n"
    by (auto simp: bit_load7 bit_simps)
qed

lemma load_cong: "(\<And>i. i < 7 \<Longrightarrow> m' (a + word_of_nat i) = m (a + word_of_nat i)) \<Longrightarrow> load7 m' a = load7 m a"
  by (rule bit_word_eqI) (auto simp: bit_load7)

lemma load_store_other: "apart a 7 p \<Longrightarrow> load7 (store7 m p w) a = load7 m a"
  using apart_byte [of a 7 p] by (intro load_cong) (auto simp: store7_def)

lemma load_memset_other: "apart a (unat n) p \<Longrightarrow> load7 (memset_mem p c n m) a = load7 m a"
  using apart_byte [of a "unat n" p]
  by (intro load_cong) (auto simp: memset_mem_def)

lemma get_set_field:
  assumes "lo + n \<le> 56"
  shows "get_field lo n (set_field lo n v a m) a = take_bit n v"
  unfolding get_field_def set_field_def load_store using assms
  by (intro bit_word_eqI) (auto simp: bit_simps)

lemma get_set_field_disjoint:
  assumes "lo + n \<le> lo' \<or> lo' + n' \<le> lo" "lo' + n' \<le> 56"
  shows "get_field lo' n' (set_field lo n v a m) a = get_field lo' n' m a"
  unfolding get_field_def set_field_def load_store using assms
  by (intro bit_word_eqI) (auto simp: bit_simps)

lemma get_set_field_other: "apart a 7 p \<Longrightarrow> get_field lo n (set_field lo' n' v p m) a = get_field lo n m a"
  by (simp add: get_field_def set_field_def load_store_other)

lemma get_memset_other: "apart a (unat n) p \<Longrightarrow> get_field lo k (memset_mem p c n m) a = get_field lo k m a"
  by (simp add: get_field_def load_memset_other)

section \<open>Translation\<close>

lemma mask_10: "(0x3FF :: u64) = mask 10"
  by (simp add: mask_eq_exp_minus_1)

lemma index_bits: "PD_INDEX v = take_bit 10 (drop_bit 22 v)" "PT_INDEX v = take_bit 10 (drop_bit 12 v)"
  by (simp_all add: PD_INDEX_def PT_INDEX_def mask_10 take_bit_eq_mask)

lemma index_lt: "unat (PD_INDEX v) < 1024" "unat (PT_INDEX v) < 1024"
proof -
  have "unat (take_bit 10 w :: u64) < 2 ^ 10" for w
    unfolding unsigned_take_bit_eq by (rule take_bit_nat_less_exp)
  then show "unat (PD_INDEX v) < 1024" "unat (PT_INDEX v) < 1024" by (simp_all add: index_bits)
qed

lemma unat_of_nat64: "n < 2 ^ 64 \<Longrightarrow> unat (word_of_nat n :: u64) = n"
  by (simp add: unat_of_nat take_bit_nat_eq_self)

lemma unat_dir_entry:
  assumes "unat i < 1024"
  shows "unat (entry page_dir i) = 0xFFFFF000 + 7 * unat i"
proof -
  have "entry page_dir i = word_of_nat (0xFFFFF000 + 7 * unat i)" by (simp add: entry_def page_dir_def)
  then show ?thesis using assms by (simp only:) (rule unat_of_nat64, simp)
qed

lemma unat_table_at:
  assumes "unat d < 1024"
  shows "unat (page_table_at d) = 0xFFFF800000000000 + unat d * 0x400000"
proof -
  have "page_table_at d = word_of_nat (0xFFFF800000000000 + unat d * 0x400000)"
    by (simp add: page_table_at_def KERNEL_VIRT_START_def)
  then show ?thesis using assms by (simp only:) (rule unat_of_nat64, simp)
qed

lemma unat_table_entry:
  assumes "unat d < 1024" "unat i < 1024"
  shows "unat (entry (page_table_at d) i) = 0xFFFF800000000000 + unat d * 0x400000 + 7 * unat i"
proof -
  have "entry (page_table_at d) i = word_of_nat (0xFFFF800000000000 + unat d * 0x400000 + 7 * unat i)"
    by (simp add: entry_def page_table_at_def KERNEL_VIRT_START_def)
  then show ?thesis using assms by (simp only:) (rule unat_of_nat64, simp)
qed

lemma apart_dir:
  assumes "unat e < 1024" "unat d < 1024" "unat i < 1024"
  shows "apart (entry page_dir e) 7 (entry (page_table_at d) i)" "apart (entry page_dir e) (unat PAGE_SIZE) (page_table_at d)"
  using assms by (auto intro!: apartI simp: unat_dir_entry unat_table_entry unat_table_at PAGE_SIZE_def)

lemma apart_table:
  assumes "unat d < 1024" "unat i < 1024" "unat j < 1024" "i \<noteq> j"
  shows "apart (entry (page_table_at d) i) 7 (entry (page_table_at d) j)"
proof -
  have "unat i \<noteq> unat j" using assms(4) by (simp add: word_unat_eq_iff)
  then have "unat i < unat j \<or> unat j < unat i" by linarith
  then show ?thesis
    using assms(1-3) by (auto intro!: apartI simp: unat_table_entry)
qed

text \<open>The effect of \<^verbatim>\<open>mm_map_page\<close> on the entries that a translation reads.\<close>

lemmas field_simps_mm = get_set_field get_set_field_disjoint get_set_field_other get_memset_other

lemma map_page_entry:
  fixes virt :: u64
  defines "d \<equiv> PD_INDEX virt" and "i \<equiv> PT_INDEX virt"
  shows "get_present (mem (mm_map_page phys virt user ro s)) (entry page_dir d) \<noteq> 0"
    and "get_present (mem (mm_map_page phys virt user ro s)) (entry (page_table_at d) i) = 1"
    and "get_frame (mem (mm_map_page phys virt user ro s)) (entry (page_table_at d) i) = take_bit 40 (drop_bit 12 phys)"
    and "get_user (mem (mm_map_page phys virt user ro s)) (entry (page_table_at d) i) = (if user then 1 else 0)"
    and "get_rw (mem (mm_map_page phys virt user ro s)) (entry (page_table_at d) i) = (if ro then 0 else 1)"
proof -
  have lt: "unat d < 1024" "unat i < 1024" using index_lt by (simp_all add: d_def i_def)
  note ap = apart_dir [OF lt(1) lt]
  show "get_present (mem (mm_map_page phys virt user ro s)) (entry page_dir d) \<noteq> 0"
    "get_present (mem (mm_map_page phys virt user ro s)) (entry (page_table_at d) i) = 1"
    "get_frame (mem (mm_map_page phys virt user ro s)) (entry (page_table_at d) i) = take_bit 40 (drop_bit 12 phys)"
    "get_user (mem (mm_map_page phys virt user ro s)) (entry (page_table_at d) i) = (if user then 1 else 0)"
    "get_rw (mem (mm_map_page phys virt user ro s)) (entry (page_table_at d) i) = (if ro then 0 else 1)"
    using ap unfolding mm_map_page_def Let_def d_def [symmetric] i_def [symmetric]
    by (simp_all add: field_simps_mm split: prod.split)
qed

lemma map_page_other:
  assumes "PD_INDEX virt = d" "unat j < 1024" "j \<noteq> PT_INDEX virt" "get_present (mem s) (entry page_dir d) \<noteq> 0"
  shows "get_field lo n (mem (mm_map_page phys virt user ro s)) (entry (page_table_at d) j) =
    get_field lo n (mem s) (entry (page_table_at d) j)"
proof -
  have "unat d < 1024" using index_lt(1) assms(1) by blast
  from apart_table [OF this assms(2) index_lt(2) assms(3)] assms(1,4) show ?thesis
    unfolding mm_map_page_def Let_def by (simp add: field_simps_mm)
qed

text \<open>
  C18. A mapped page is found again: after \<^verbatim>\<open>mm_map_page\<close> every user address in the mapped page is
  translated to the same offset in the physical page.  The page is selected by bits 12 to 31 of
  the address only, so addresses that differ by a multiple of 4 GB share their mapping.
\<close>

theorem map_then_translate:
  assumes "addr < KERNEL_VIRT_START" "unat phys < 2 ^ 52"
    and "take_bit 20 (drop_bit 12 addr) = take_bit 20 (drop_bit 12 virt)"
  shows "mm_virt_to_phys addr (mm_map_page phys virt user ro s) = (phys AND NOT 0xFFF) OR (addr AND 0xFFF)"
proof -
  have eq: "bit addr n = bit virt n" if "12 \<le> n" "n < 32" for n
    using arg_cong [OF assms(3), of "\<lambda>w. bit w (n - 12)"] that by (auto simp: bit_simps)
  have i: "PD_INDEX addr = PD_INDEX virt" "PT_INDEX addr = PT_INDEX virt"
    unfolding index_bits by (auto intro!: bit_word_eqI simp: bit_simps eq)
  have "take_bit 52 phys = phys"
    using assms(2) by (simp add: word_unat_eq_iff unsigned_take_bit_eq take_bit_nat_eq_self)
  then have high: "bit phys n \<Longrightarrow> n < 52" for n by (metis bit_take_bit_iff)
  have mask: "(0xFFF :: u64) = mask 12" by (simp add: mask_eq_exp_minus_1)
  have "push_bit 12 (take_bit 40 (drop_bit 12 phys)) = phys AND NOT 0xFFF"
    unfolding mask by (intro bit_word_eqI) (auto simp: bit_simps dest: high)
  then show ?thesis
    using assms(1) map_page_entry [of phys virt user ro s] i
    by (simp add: mm_virt_to_phys_def Let_def flip: not_less)
qed

text \<open>The first \<open>n\<close> pages of the first table map to themselves.\<close>

definition low_mapped :: "nat \<Rightarrow> mm \<Rightarrow> bool" where
  "low_mapped n s = (get_present (mem s) (entry page_dir 0) \<noteq> 0 \<and>
     (\<forall>i < n. get_present (mem s) (entry (page_table_at 0) (word_of_nat i)) \<noteq> 0 \<and>
        get_frame (mem s) (entry (page_table_at 0) (word_of_nat i)) = word_of_nat i))"

lemma low_index:
  assumes "unat v = 2 ^ 32 * q + j * 4096 + r" "j < 1024" "r < 4096"
  shows "PD_INDEX v = 0" "PT_INDEX v = word_of_nat j"
proof -
  have "unat (PD_INDEX v) = unat v div 2 ^ 22 mod 1024" "unat (PT_INDEX v) = unat v div 2 ^ 12 mod 1024"
    unfolding index_bits unsigned_take_bit_eq unat_drop_bit_eq by (simp_all add: drop_bit_eq_div take_bit_eq_mod)
  moreover have "unat v div 2 ^ 22 = 1024 * q"
    unfolding assms(1) using assms(2,3) by (intro div_nat_eqI) auto
  moreover have "unat v div 2 ^ 12 = 1024 * (1024 * q) + j"
    unfolding assms(1) using assms(3) by (intro div_nat_eqI) auto
  ultimately have u: "unat (PD_INDEX v) = 0" "unat (PT_INDEX v) = j"
    using assms(2) by (simp_all only: mod_mult_self4 mod_mult_self1_is_0 mod_less)
  show "PD_INDEX v = 0" using u(1) by (simp add: word_unat_eq_iff)
  show "PT_INDEX v = word_of_nat j" unfolding word_unat_eq_iff u(2) using assms(2) by (subst unat_of_nat64) auto
qed

lemma unat_page:
  assumes "j < 1024"
  shows "unat (word_of_nat j * PAGE_SIZE) = j * 4096"
proof -
  have "word_of_nat j * PAGE_SIZE = (word_of_nat (j * 4096) :: u64)" by (simp add: PAGE_SIZE_def)
  then show ?thesis using assms by (simp only:) (rule unat_of_nat64, simp)
qed

lemma frame_of_page:
  assumes "j < 1024"
  shows "take_bit 40 (drop_bit 12 (word_of_nat j * PAGE_SIZE)) = (word_of_nat j :: u64)"
  unfolding word_unat_eq_iff unsigned_take_bit_eq unat_drop_bit_eq unat_page [OF assms]
  using assms by (simp add: unat_of_nat64 drop_bit_eq_div take_bit_nat_eq_self)

lemma low_mapped_step:
  assumes "j < 1024" "PD_INDEX virt = 0" "PT_INDEX virt = word_of_nat j" "0 < n \<Longrightarrow> low_mapped n s" "n \<le> 1024"
    and "j \<le> n"
  shows "low_mapped (if n = j then Suc n else n) (mm_map_page (word_of_nat j * PAGE_SIZE) virt user ro s)"
proof -
  let ?s' = "mm_map_page (word_of_nat j * PAGE_SIZE) virt user ro s" and ?e = "\<lambda>i. entry (page_table_at 0) (word_of_nat i)"
  note e = map_page_entry [of "word_of_nat j * PAGE_SIZE" virt user ro s, unfolded assms(2,3)]
  have "get_present (mem ?s') (?e i) \<noteq> 0 \<and> get_frame (mem ?s') (?e i) = word_of_nat i"
    if "i < (if n = j then Suc n else n)" for i
  proof (cases "i = j")
    case True
    with e frame_of_page [OF assms(1)] show ?thesis by simp
  next
    case False
    then have i: "i < n" using that assms(6) by (auto split: if_splits)
    have "unat (word_of_nat i :: u64) < 1024" "word_of_nat i \<noteq> (word_of_nat j :: u64)"
      using False assms(1,5) i by (simp_all add: word_unat_eq_iff unat_of_nat64)
    from map_page_other [OF assms(2) this(1)] this(2) assms(3,4) i show ?thesis
      by (auto simp: low_mapped_def)
  qed
  with e(1) show ?thesis by (simp add: low_mapped_def)
qed

lemma low_mapped_loop:
  assumes "\<And>j. j < m \<Longrightarrow> PD_INDEX (f j) = 0 \<and> PT_INDEX (f j) = word_of_nat j" "m \<le> 1024" "0 < n \<Longrightarrow> low_mapped n s" "n \<le> 1024"
  shows "k \<le> m \<Longrightarrow> 0 < k \<or> 0 < n \<Longrightarrow>
    low_mapped (max n k) (fold (\<lambda>j. mm_map_page (word_of_nat j * PAGE_SIZE) (f j) user ro) [0..<k] s)"
proof (induction k)
  case 0
  then show ?case using assms(3) by simp
next
  case (Suc k)
  let ?s = "fold (\<lambda>j. mm_map_page (word_of_nat j * PAGE_SIZE) (f j) user ro) [0..<k] s"
  have IH: "low_mapped (max n k) ?s" if "0 < max n k" using Suc that by (auto simp: less_max_iff_disj)
  have "max n k \<le> 1024" "k < 1024" using Suc.prems assms(2,4) by auto
  from low_mapped_step [OF this(2) _ _ IH this(1), of "f k" user ro] assms(1) [of k] Suc.prems
  have "low_mapped (if max n k = k then Suc (max n k) else max n k)
      (mm_map_page (word_of_nat k * PAGE_SIZE) (f k) user ro ?s)" by simp
  moreover have "(if max n k = k then Suc (max n k) else max n k) = max n (Suc k)" by auto
  ultimately show ?case by simp
qed

lemma low_page_index:
  assumes "j < 512"
  shows "PD_INDEX (word_of_nat j * PAGE_SIZE) = 0 \<and> PT_INDEX (word_of_nat j * PAGE_SIZE) = word_of_nat j"
  using low_index [of "word_of_nat j * PAGE_SIZE" 0 j 0] unat_page [of j] assms by simp

lemma kernel_index:
  assumes "j < 512"
  shows "PD_INDEX (KERNEL_VIRT_START + word_of_nat j * PAGE_SIZE) = 0 \<and>
    PT_INDEX (KERNEL_VIRT_START + word_of_nat j * PAGE_SIZE) = word_of_nat j"
proof -
  let ?v = "KERNEL_VIRT_START + word_of_nat j * PAGE_SIZE"
  have "?v = word_of_nat (2 ^ 32 * 0xFFFF8000 + j * 4096 + 0)"
    by (simp add: KERNEL_VIRT_START_def PAGE_SIZE_def)
  then have "unat ?v = 2 ^ 32 * 0xFFFF8000 + j * 4096 + 0"
    using assms by (simp only:) (rule unat_of_nat64, simp)
  then show ?thesis using low_index [of ?v "0xFFFF8000" j 0] assms by simp
qed

text \<open>
  C34. After \<^verbatim>\<open>mm_setup_kernel_vm\<close> the first 512 pages map to themselves, in particular pages 256
  to 511, which the code only maps at kernel addresses: the two address ranges share one table.
\<close>

theorem kernel_vm_identity:
  assumes "unat addr < 512 * 4096"
  shows "mm_virt_to_phys addr (mm_setup_kernel_vm s) = addr"
proof -
  define t where "t = fold (\<lambda>i. mm_map_page (word_of_nat i * PAGE_SIZE) (KERNEL_VIRT_START + word_of_nat i * PAGE_SIZE) True False) [0..<512] s"
  have "low_mapped (max 0 512) t"
    unfolding t_def
  proof (rule low_mapped_loop [where m = 512])
    show "PD_INDEX (KERNEL_VIRT_START + word_of_nat j * PAGE_SIZE) = 0 \<and>
      PT_INDEX (KERNEL_VIRT_START + word_of_nat j * PAGE_SIZE) = word_of_nat j" if "j < 512" for j using kernel_index [OF that] .
  qed simp_all
  then have t: "low_mapped 512 t" by simp
  have "low_mapped (max 512 256) (mm_setup_kernel_vm s)"
    unfolding mm_setup_kernel_vm_def t_def [symmetric] Let_def 
  proof (rule low_mapped_loop [where m = 256])
    show "PD_INDEX (word_of_nat j * PAGE_SIZE) = 0 \<and> PT_INDEX (word_of_nat j * PAGE_SIZE) = word_of_nat j"
      if "j < 256" for j using low_page_index [of j] that by simp
  qed (simp_all add: t)
  then have low: "low_mapped 512 (mm_setup_kernel_vm s)" by simp
  let ?j = "unat addr div 4096"
  have j: "?j < 512" using assms by auto
  have idx: "PD_INDEX addr = 0" "PT_INDEX addr = word_of_nat ?j"
    using low_index [where v = addr and q = 0 and j = ?j and r = "unat addr mod 4096"] j by simp_all
  have "\<not> KERNEL_VIRT_START \<le> addr" using assms by (simp add: word_le_nat_alt KERNEL_VIRT_START_def)
  moreover have "push_bit 12 (word_of_nat ?j) OR (addr AND 0xFFF) = addr"
  proof -
    have "word_of_nat ?j = drop_bit 12 addr"
      unfolding word_unat_eq_iff unat_drop_bit_eq using j by (simp add: unat_of_nat64 drop_bit_eq_div)
    moreover have "(0xFFF :: u64) = mask 12" by (simp add: mask_eq_exp_minus_1)
    moreover have "push_bit 12 (drop_bit 12 addr) OR (addr AND mask 12) = addr"
      by (rule bit_word_eqI) (auto simp: bit_simps)
    ultimately show ?thesis by simp
  qed
  ultimately show ?thesis using low j idx by (simp add: mm_virt_to_phys_def low_mapped_def)
qed

section \<open>The page allocator\<close>

text \<open>A number of calls of \<^verbatim>\<open>mm_alloc_page\<close> in a row.\<close>

fun alloc_pages :: "nat \<Rightarrow> mm \<Rightarrow> u64 list \<times> mm" where
  "alloc_pages 0 s = ([], s)"
| "alloc_pages (Suc n) s = (let (p, s') = mm_alloc_page s; (ps, s'') = alloc_pages n s' in (p # ps, s''))"

text \<open>
  C35. The allocator hands out the same page again and again: taking a page from the free list
  leaves the list head on the aligned address of that page.
\<close>

theorem alloc_same_page:
  assumes "free_pages s = p" "p \<noteq> 0" "p AND NOT 0xFFF = p"
  shows "fst (alloc_pages n s) = replicate n p"
  using assms by (induction n arbitrary: s) (auto simp: mm_alloc_page_def Let_def case_prod_beta)

lemma free_page_fields [simp]:
  "free_pages (mm_free_page p s) = p" "free_pages_count (mm_free_page p s) = free_pages_count s + 1"
  "total_pages (mm_free_page p s) = total_pages s" "memory_map (mm_free_page p s) = memory_map s"
  by (simp_all add: mm_free_page_def Let_def)

lemma free_region_loop:
  fixes base :: u64
  defines "step \<equiv> \<lambda>j s. if base + word_of_nat j * PAGE_SIZE \<ge> PAGE_ALLOC_START then mm_free_page (base + word_of_nat j * PAGE_SIZE) s else s"
  assumes "\<And>j. j < n \<Longrightarrow> PAGE_ALLOC_START \<le> base + word_of_nat j * PAGE_SIZE"
  shows "free_pages_count (fold step [0..<n] s) = free_pages_count s + word_of_nat n \<and>
    free_pages (fold step [0..<n] s) = (if n = 0 then free_pages s else base + word_of_nat (n - 1) * PAGE_SIZE) \<and>
    total_pages (fold step [0..<n] s) = total_pages s"
  using assms(2) by (induction n) (simp_all add: step_def algebra_simps)

lemma low_region_loop:
  fixes base :: u64
  assumes "\<And>j. j < n \<Longrightarrow> \<not> PAGE_ALLOC_START \<le> base + word_of_nat j * PAGE_SIZE"
  shows "fold (\<lambda>j s. if base + word_of_nat j * PAGE_SIZE \<ge> PAGE_ALLOC_START then mm_free_page (base + word_of_nat j * PAGE_SIZE) s else s)
    [0..<n] s = s"
  using assms by (induction n) simp_all

lemma unat_page_at:
  assumes "unat base + j * 4096 < 2 ^ 64"
  shows "unat (base + word_of_nat j * PAGE_SIZE) = unat base + j * 4096"
proof -
  have "base + word_of_nat j * PAGE_SIZE = word_of_nat (unat base + j * 4096)" by (simp add: PAGE_SIZE_def)
  then show ?thesis using assms by (simp only:) (rule unat_of_nat64)
qed


section \<open>Instances\<close>

definition demo_mm :: mm where
  "demo_mm = \<lparr>mem = (\<lambda>_. 0), memory_map = [], total_pages = 0, free_pages = 0x300000, free_pages_count = 5, cr3 = 0, cr0 = 0\<rparr>"

theorem map_then_translate_witness:
  "mm_virt_to_phys 0x100400123 (mm_map_page 0x5000 0x400000 True False demo_mm) = 0x5123"
  using map_then_translate [of "0x100400123" "0x5000" "0x400000" True False demo_mm]
  by (simp add: KERNEL_VIRT_START_def word_less_nat_alt)

theorem kernel_vm_identity_witness: "mm_virt_to_phys 0x100FFF (mm_setup_kernel_vm demo_mm) = 0x100FFF"
  by (rule kernel_vm_identity) simp

theorem alloc_same_page_witness: "fst (alloc_pages 3 demo_mm) = [0x300000, 0x300000, 0x300000]"
  using alloc_same_page [of demo_mm "0x300000" 3] by (simp add: demo_mm_def numeral_3_eq_3)

end
