(* ===== verification/Ipc.thy ===== *)
theory Ipc
  imports Scheduler Security Memory
begin

unbundle bit_operations_syntax

text \<open>
  Message queues, shared memory and signals, \<^verbatim>\<open>src/ipc/ipc.c\<close>, on top of the scheduler, the
  security checks and the page allocator.  Queues and channels live in pages that are indexed by
  their address, as the allocator may hand out a page twice.  The buffer of a queue is an array of
  bytes.  \<open>None\<close> is a call with undefined behaviour or one that does not return.
\<close>

section \<open>State\<close>

record message_queue =
  queue_id :: u64
  q_owner_pid :: u64
  q_permissions :: u64
  q_messages :: bytes
  message_count :: u32
  max_messages :: u32
  max_message_size :: u32
  q_next :: u64
  q_prev :: u64

record shm_channel =
  channel_id :: u64
  c_owner_pid :: u64
  c_permissions :: u64
  shared_memory :: u64
  c_size :: u64
  ref_count :: u32
  c_next :: u64
  c_prev :: u64

text \<open>The structure that a page holds; a page can be overwritten by another structure.\<close>

datatype ipc_page = Blank | Queue message_queue | Channel shm_channel

record signal =
  signal_number :: u64
  s_sender_pid :: u64
  s_receiver_pid :: u64
  s_timestamp :: u64

record priority_inheritance =
  pi_task_pid :: u64
  base_priority :: u64
  current_priority :: u64
  resource_held :: u64
  waiting_count :: u32

record ipc =
  pages :: "u64 \<Rightarrow> ipc_page"
  message_queues :: u64
  shm_channels :: u64
  signals :: "signal list"
  pi_table :: "priority_inheritance list"
  i_sched :: sched
  i_sec :: security
  i_mm :: mm

definition IPC_READ :: u64 where "IPC_READ = 1"
definition IPC_WRITE :: u64 where "IPC_WRITE = 2"
definition MAX_CPUS :: nat where "MAX_CPUS = 64"
definition sizeof_message :: nat where "sizeof_message = 40"
definition sizeof_signal :: u64 where "sizeof_signal = 40"

text \<open>
  A structure read from a cleared page has zero fields; a page with a structure of the other
  kind cannot be read.
\<close>

definition zero_queue :: message_queue where
  "zero_queue = \<lparr>queue_id = 0, q_owner_pid = 0, q_permissions = 0, q_messages = [], message_count = 0,
     max_messages = 0, max_message_size = 0, q_next = 0, q_prev = 0\<rparr>"

definition zero_channel :: shm_channel where
  "zero_channel = \<lparr>channel_id = 0, c_owner_pid = 0, c_permissions = 0, shared_memory = 0, c_size = 0,
     ref_count = 0, c_next = 0, c_prev = 0\<rparr>"

definition queue_at :: "u64 \<Rightarrow> ipc \<Rightarrow> message_queue option" where
  "queue_at p s = (case pages s p of Queue q \<Rightarrow> Some q | Blank \<Rightarrow> Some zero_queue | Channel _ \<Rightarrow> None)"

definition channel_at :: "u64 \<Rightarrow> ipc \<Rightarrow> shm_channel option" where
  "channel_at p s = (case pages s p of Channel c \<Rightarrow> Some c | Blank \<Rightarrow> Some zero_channel | Queue _ \<Rightarrow> None)"

definition set_page :: "u64 \<Rightarrow> ipc_page \<Rightarrow> ipc \<Rightarrow> ipc" where
  "set_page p x s = s\<lparr>pages := (pages s)(p := x)\<rparr>"

text \<open>The page allocator clears the page that it returns.\<close>

definition ipc_alloc_page :: "ipc \<Rightarrow> u64 \<times> ipc" where
  "ipc_alloc_page s = (let (p, m) = mm_alloc_page (i_mm s); s' = s\<lparr>i_mm := m\<rparr>
     in (p, if p = 0 then s' else set_page p Blank s'))"

definition ipc_malloc :: "u64 \<Rightarrow> ipc \<Rightarrow> u64 \<times> ipc" where
  "ipc_malloc sz s = (let (p, t) = sched_malloc sz (i_sched s) in (p, s\<lparr>i_sched := t\<rparr>))"

definition ipc_check :: "u64 \<Rightarrow> u64 \<Rightarrow> ipc \<Rightarrow> bool" where
  "ipc_check perms required s = security_check_capability (get_current_pid (i_sched s)) perms required (i_sec s)"

definition ipc_wake :: "u64 \<Rightarrow> ipc \<Rightarrow> ipc option" where
  "ipc_wake pid s = map_option (\<lambda>t. s\<lparr>i_sched := t\<rparr>) (scheduler_wake_task pid (i_sched s))"

section \<open>Messages in the buffer\<close>

definition le64 :: "u64 \<Rightarrow> bytes" where
  "le64 w = le32 (ucast w) @ le32 (ucast (drop_bit 32 w))"

definition of_le64 :: "bytes \<Rightarrow> u64" where
  "of_le64 b = ucast (of_le32 b) OR push_bit 32 (ucast (of_le32 (drop 4 b)))"

text \<open>The five header fields of an \<^verbatim>\<open>ipc_message_t\<close>; the data follow.\<close>

definition encode_header :: "u64 \<Rightarrow> u64 \<Rightarrow> u64 \<Rightarrow> u64 \<Rightarrow> u64 \<Rightarrow> bytes" where
  "encode_header sender receiver ty sz time = le64 sender @ le64 receiver @ le64 ty @ le64 sz @ le64 time"

text \<open>A store of bytes into the buffer; beyond its end it is undefined.\<close>

definition store_at :: "bytes \<Rightarrow> nat \<Rightarrow> bytes \<Rightarrow> bytes option" where
  "store_at buf off b = (if off + length b \<le> length buf then Some (put_bytes buf off b) else None)"

definition load_at :: "bytes \<Rightarrow> nat \<Rightarrow> nat \<Rightarrow> bytes option" where
  "load_at buf off n = (if off + n \<le> length buf then Some (get_bytes buf off n) else None)"

section \<open>Operations\<close>

definition ipc_init :: "ipc \<Rightarrow> ipc" where
  "ipc_init s = s\<lparr>message_queues := 0, shm_channels := 0, signals := [],
     pi_table := map (\<lambda>e. e\<lparr>pi_task_pid := 0, base_priority := 0, current_priority := 0, resource_held := 0,
       waiting_count := 0\<rparr>) (pi_table s)\<rparr>"

definition ipc_create_message_queue :: "u64 \<Rightarrow> ipc \<Rightarrow> (u64 \<times> ipc) option" where
  "ipc_create_message_queue perms s =
     (let (page, s1) = ipc_alloc_page s in
      if page = 0 then Some (-4, s1)
      else
        let q = \<lparr>queue_id = page, q_owner_pid = get_current_pid (i_sched s1), q_permissions = perms,
                 q_messages = [], message_count = 0, max_messages = 256, max_message_size = 1024,
                 q_next = 0, q_prev = 0\<rparr>;
            (buf, s2) = ipc_malloc (ucast (max_messages q * max_message_size q)) (set_page page (Queue q) s1) in
        if buf = 0 then Some (-4, s2\<lparr>i_mm := mm_free_page page (i_mm s2)\<rparr>)
        else
          let q' = q\<lparr>q_messages := replicate (unat (max_messages q * max_message_size q)) 0, q_next := message_queues s2\<rparr>;
              s3 = set_page page (Queue q') s2 in
          do { s4 \<leftarrow> (if message_queues s3 \<noteq> 0
                     then map_option (\<lambda>h. set_page (message_queues s3) (Queue (h\<lparr>q_prev := page\<rparr>)) s3)
                            (queue_at (message_queues s3) s3)
                     else Some s3);
               q'' \<leftarrow> queue_at page s4;
               Some (queue_id q'', s4\<lparr>message_queues := page\<rparr>) })"

partial_function (option) find_queue_from :: "u64 \<Rightarrow> ipc \<Rightarrow> u64 \<Rightarrow> u64 option" where
  "find_queue_from i s p =
     (if p = 0 then Some 0
      else do { q \<leftarrow> queue_at p s; if queue_id q \<noteq> i then find_queue_from i s (q_next q) else Some p })"

definition ipc_find_queue :: "u64 \<Rightarrow> ipc \<Rightarrow> u64 option" where
  "ipc_find_queue i s = find_queue_from i s (message_queues s)"

definition ipc_send_message :: "u64 \<Rightarrow> u64 \<Rightarrow> u64 \<Rightarrow> bytes \<Rightarrow> u64 \<Rightarrow> ipc \<Rightarrow> (i32 \<times> ipc) option" where
  "ipc_send_message qid receiver ty data sz s =
     do { p \<leftarrow> ipc_find_queue qid s;
          if p = 0 then Some (ERR_NOT_FOUND, s) else do {
          q \<leftarrow> queue_at p s;
          if \<not> ipc_check (q_permissions q) IPC_WRITE s then Some (ERR_PERMISSION, s)
          else if message_count q \<ge> max_messages q then Some (ERR_BUSY, s)
          else if sz > ucast (max_message_size q) then Some (ERR_INVALID, s)
          else do {
            let off = unat (message_count q * max_message_size q);
            b1 \<leftarrow> store_at (q_messages q) off
              (encode_header (get_current_pid (i_sched s)) receiver ty sz (system_time (i_sec s)));
            d \<leftarrow> load_at data 0 (unat sz);
            b2 \<leftarrow> store_at b1 (off + sizeof_message) d;
            let s1 = set_page p (Queue (q\<lparr>q_messages := b2, message_count := message_count q + 1\<rparr>)) s;
            s2 \<leftarrow> ipc_wake receiver s1;
            Some (ERR_SUCCESS, s2) } } }"

text \<open>The move of the remaining messages, with the size of the header as the distance.\<close>

fun shift_messages :: "nat \<Rightarrow> nat \<Rightarrow> bytes \<Rightarrow> bytes option" where
  "shift_messages 0 i buf = Some buf"
| "shift_messages (Suc n) i buf =
     do { b \<leftarrow> load_at buf ((i + 1) * sizeof_message) sizeof_message;
          buf' \<leftarrow> store_at buf (i * sizeof_message) b;
          shift_messages n (Suc i) buf' }"

text \<open>
  Waiting for a message: the task is put to sleep in a loop, and between two turns other
  processors and interrupt handlers run.  Their effects are the steps \<open>env\<close>; with no more steps
  the loop goes on for ever.
\<close>

fun wait_for_message :: "(ipc \<Rightarrow> ipc) list \<Rightarrow> u64 \<Rightarrow> ipc \<Rightarrow> ipc option" where
  "wait_for_message env p s =
     do { q \<leftarrow> queue_at p s;
          if message_count q \<noteq> 0 then Some s
          else do {
            t \<leftarrow> scheduler_sleep_task (get_current_pid (i_sched s)) (i_sched s);
            (case env of [] \<Rightarrow> None | e # es \<Rightarrow> wait_for_message es p (e (s\<lparr>i_sched := t\<rparr>))) } }"

record received =
  r_sender :: u64
  r_type :: u64
  r_size :: u64
  r_data :: bytes

definition take_message :: "u64 \<Rightarrow> bool \<Rightarrow> ipc \<Rightarrow> (received \<times> ipc) option" where
  "take_message p buffer s =
     do { q \<leftarrow> queue_at p s;
          h \<leftarrow> load_at (q_messages q) 0 sizeof_message;
          let sz = of_le64 (drop 24 h);
          d \<leftarrow> (if buffer \<and> sz > 0 then load_at (q_messages q) sizeof_message (unat sz) else Some []);
          let n = message_count q - 1;
          buf \<leftarrow> shift_messages (unat n) 0 (q_messages q);
          Some (\<lparr>r_sender = of_le64 h, r_type = of_le64 (drop 16 h), r_size = sz, r_data = d\<rparr>,
                set_page p (Queue (q\<lparr>message_count := n, q_messages := buf\<rparr>)) s) }"

definition ipc_receive_message ::
  "(ipc \<Rightarrow> ipc) list \<Rightarrow> u64 \<Rightarrow> bool \<Rightarrow> ipc \<Rightarrow> (i32 \<times> received option \<times> ipc) option" where
  "ipc_receive_message env qid buffer s =
     do { p \<leftarrow> ipc_find_queue qid s;
          if p = 0 then Some (ERR_NOT_FOUND, None, s) else do {
          q \<leftarrow> queue_at p s;
          if \<not> ipc_check (q_permissions q) IPC_READ s then Some (ERR_PERMISSION, None, s)
          else do {
            s1 \<leftarrow> wait_for_message env p s;
            (r, s2) \<leftarrow> take_message p buffer s1;
            Some (ERR_SUCCESS, Some r, s2) } } }"

definition ipc_create_shm_channel :: "u64 \<Rightarrow> u64 \<Rightarrow> ipc \<Rightarrow> (u64 \<times> ipc) option" where
  "ipc_create_shm_channel sz perms s =
     (let (page, s1) = ipc_alloc_page s in
      if page = 0 then Some (-4, s1)
      else
        let c = \<lparr>channel_id = page, c_owner_pid = get_current_pid (i_sched s1), c_permissions = perms,
                 shared_memory = 0, c_size = ALIGN_UP sz 0x1000, ref_count = 0, c_next = 0, c_prev = 0\<rparr>;
            (mem, s2) = ipc_alloc_page (set_page page (Channel c) s1) in
        if mem = 0 then Some (-4, s2\<lparr>i_mm := mm_free_page page (i_mm s2)\<rparr>)
        else do {
          c' \<leftarrow> channel_at page s2;
          let s3 = set_page page (Channel (c'\<lparr>shared_memory := mem, c_next := shm_channels s2\<rparr>)) s2;
          s4 \<leftarrow> (if shm_channels s3 \<noteq> 0
                then map_option (\<lambda>h. set_page (shm_channels s3) (Channel (h\<lparr>c_prev := page\<rparr>)) s3)
                       (channel_at (shm_channels s3) s3)
                else Some s3);
          c'' \<leftarrow> channel_at page s4;
          Some (channel_id c'', s4\<lparr>shm_channels := page\<rparr>) })"

partial_function (option) find_channel_from :: "u64 \<Rightarrow> ipc \<Rightarrow> u64 \<Rightarrow> u64 option" where
  "find_channel_from i s p =
     (if p = 0 then Some 0
      else do { c \<leftarrow> channel_at p s; if channel_id c \<noteq> i then find_channel_from i s (c_next c) else Some p })"

definition ipc_find_shm_channel :: "u64 \<Rightarrow> ipc \<Rightarrow> u64 option" where
  "ipc_find_shm_channel i s = find_channel_from i s (shm_channels s)"

definition ipc_attach_shm_channel :: "u64 \<Rightarrow> ipc \<Rightarrow> (i32 \<times> u64 option \<times> ipc) option" where
  "ipc_attach_shm_channel cid s =
     do { p \<leftarrow> ipc_find_shm_channel cid s;
          if p = 0 then Some (ERR_NOT_FOUND, None, s) else do {
          c \<leftarrow> channel_at p s;
          if \<not> ipc_check (c_permissions c) IPC_READ s then Some (ERR_PERMISSION, None, s)
          else Some (ERR_SUCCESS, Some (shared_memory c),
                     set_page p (Channel (c\<lparr>ref_count := ref_count c + 1\<rparr>)) s) } }"

definition ipc_send_signal :: "u64 \<Rightarrow> u64 \<Rightarrow> ipc \<Rightarrow> (i32 \<times> ipc) option" where
  "ipc_send_signal receiver num s =
     (let (p, s1) = ipc_malloc sizeof_signal s in
      if p = 0 then Some (ERR_NO_MEMORY, s1)
      else do {
        s2 \<leftarrow> ipc_wake receiver (s1\<lparr>signals := \<lparr>signal_number = num, s_sender_pid = get_current_pid (i_sched s1),
          s_receiver_pid = receiver, s_timestamp = system_time (i_sec s1)\<rparr> # signals s1\<rparr>);
        Some (ERR_SUCCESS, s2) })"

text \<open>The number of the processor comes from \<^verbatim>\<open>get_cpu_id\<close>; beyond the table it is undefined.\<close>

definition ipc_handle_priority_inheritance :: "u32 \<Rightarrow> u64 \<Rightarrow> u64 \<Rightarrow> u32 \<Rightarrow> ipc \<Rightarrow> ipc option" where
  "ipc_handle_priority_inheritance cpu_id task resource operation s =
     (let c = unat cpu_id in
      if c \<ge> length (pi_table s) then None
      else if operation = 0 then do {
        prio \<leftarrow> get_task_priority task (i_sched s);
        Some (s\<lparr>pi_table := (pi_table s)[c := (pi_table s ! c)\<lparr>pi_task_pid := task, resource_held := resource,
          current_priority := prio\<rparr>]\<rparr>) }
      else if resource_held (pi_table s ! c) = resource
      then Some (s\<lparr>pi_table := (pi_table s)[c := (pi_table s ! c)\<lparr>resource_held := 0,
          current_priority := base_priority (pi_table s ! c)\<rparr>]\<rparr>)
      else Some s)"

section \<open>Lemmas\<close>

lemma queue_at_set [simp]: "queue_at x (set_page p (Queue q) s) = (if x = p then Some q else queue_at x s)"
  by (simp add: queue_at_def set_page_def)

lemma set_page_simps [simp]:
  "message_queues (set_page p x s) = message_queues s" "shm_channels (set_page p x s) = shm_channels s"
  "i_sched (set_page p x s) = i_sched s" "i_sec (set_page p x s) = i_sec s" "i_mm (set_page p x s) = i_mm s"
  by (simp_all add: set_page_def)

lemma channel_at_set [simp]: "channel_at x (set_page p (Channel c) s) = (if x = p then Some c else channel_at x s)"
  by (simp add: channel_at_def set_page_def)

lemma queue_at_upd [simp]:
  "queue_at x (s\<lparr>i_sched := t\<rparr>) = queue_at x s" "queue_at x (s\<lparr>message_queues := m\<rparr>) = queue_at x s"
  by (simp_all add: queue_at_def)

lemma length_le64 [simp]: "length (le64 w) = 8"
  by (simp add: le64_def)

lemma of_le64_le64 [simp]: "of_le64 (le64 w @ r) = w"
proof -
  have "of_le32 (le32 (ucast w) @ x) = ucast w" "of_le32 (le32 (ucast (drop_bit 32 w)) @ r) = ucast (drop_bit 32 w)" for x
    by (rule of_le32_le32)+
  then have "of_le64 (le64 w @ r) = ucast (ucast w :: u32) OR push_bit 32 (ucast (ucast (drop_bit 32 w) :: u32))"
    by (simp add: of_le64_def le64_def)
  also have "\<dots> = w" by (rule bit_word_eqI) (auto simp: bit_simps)
  finally show ?thesis .
qed

lemma header_fields:
  "length (encode_header a b c d e) = 40" "of_le64 (encode_header a b c d e @ r) = a"
  "of_le64 (drop 16 (encode_header a b c d e @ r)) = c" "of_le64 (drop 24 (encode_header a b c d e @ r)) = d"
  by (simp_all add: encode_header_def)

text \<open>Searching a queue depends on the identifiers and the links only.\<close>

lemma find_queue_cong:
  assumes "find_queue_from i s x = Some r"
    and "\<And>y. map_option (\<lambda>q. (queue_id q, q_next q)) (queue_at y s') = map_option (\<lambda>q. (queue_id q, q_next q)) (queue_at y s)"
  shows "find_queue_from i s' x = Some r"
proof -
  let ?P = "\<lambda>j t x r. (\<forall>y. map_option (\<lambda>q. (queue_id q, q_next q)) (queue_at y s') =
      map_option (\<lambda>q. (queue_id q, q_next q)) (queue_at y t)) \<longrightarrow> find_queue_from j s' x = Some r"
  have "?P i s x r"
  proof (rule find_queue_from.raw_induct [OF _ assms(1), of ?P], intro impI)
    fix f j t x r
    assume IH: "\<And>j t x r. f j t x = Some r \<Longrightarrow> ?P j t x r"
      and step: "(if x = 0 then Some 0 else do { q \<leftarrow> queue_at x t; if queue_id q \<noteq> j then f j t (q_next q) else Some x }) = Some r"
      and eq: "\<forall>y. map_option (\<lambda>q. (queue_id q, q_next q)) (queue_at y s') = map_option (\<lambda>q. (queue_id q, q_next q)) (queue_at y t)"
    show "find_queue_from j s' x = Some r"
    proof (cases "x = 0")
      case True
      with step show ?thesis by (simp add: find_queue_from.simps)
    next
      case False
      then obtain q where q: "queue_at x t = Some q" using step by (auto split: bind_splits)
      obtain q' where q': "queue_at x s' = Some q'" "queue_id q' = queue_id q" "q_next q' = q_next q"
        using spec [OF eq, of x] q by (cases "queue_at x s'") auto
      show ?thesis
        using False step q q' IH [of j t "q_next q" r] eq by (subst find_queue_from.simps) (auto split: if_splits)
    qed
  qed
  with assms(2) show ?thesis by blast
qed

lemma find_queue_set:
  assumes "ipc_find_queue i s = Some r" "queue_at p s = Some q" "queue_id q' = queue_id q" "q_next q' = q_next q"
  shows "ipc_find_queue i (set_page p (Queue q') s) = Some r"
  using assms unfolding ipc_find_queue_def set_page_simps by (elim find_queue_cong) auto

lemma find_queue_sched:
  assumes "ipc_find_queue i s = Some r"
  shows "ipc_find_queue i (s\<lparr>i_sched := t\<rparr>) = Some r"
  using assms unfolding ipc_find_queue_def by (auto elim!: find_queue_cong)

text \<open>Waking a task does not change which task runs.\<close>

lemma pid_add_to_queue: "get_current_pid (scheduler_add_to_queue p t) = get_current_pid t"
  by (simp add: get_current_pid_def scheduler_add_to_queue_def upd_tcb_def Let_def)

lemma pid_wake: "scheduler_wake_task i t = Some t' \<Longrightarrow> get_current_pid t' = get_current_pid t"
proof -
  assume w: "scheduler_wake_task i t = Some t'"
  then obtain p where p: "scheduler_find_task i t = Some p"
    "t' = (if p \<noteq> 0 \<and> state (tcbs t p) = TASK_WAITING
      then scheduler_add_to_queue p (upd_tcb p (\<lambda>t. t\<lparr>state := TASK_READY, wake_time := 0\<rparr>) t) else t)"
    by (auto simp: scheduler_wake_task_def split: bind_splits)
  have "get_current_pid (upd_tcb p (\<lambda>t. t\<lparr>state := TASK_READY, wake_time := 0\<rparr>) t) = get_current_pid t"
    by (simp add: get_current_pid_def upd_tcb_def)
  then show ?thesis unfolding p(2) by (simp add: pid_add_to_queue)
qed

section \<open>Sending and receiving\<close>

text \<open>The queue \<open>q\<close> at \<open>p\<close> is found by its identifier and the running task may use it.\<close>

definition usable :: "u64 \<Rightarrow> u64 \<Rightarrow> message_queue \<Rightarrow> ipc \<Rightarrow> bool" where
  "usable qid p q s = (ipc_find_queue qid s = Some p \<and> p \<noteq> 0 \<and> queue_at p s = Some q \<and>
     max_messages q = 256 \<and> max_message_size q = 1024 \<and> length (q_messages q) = 256 * 1024 \<and>
     ipc_check (q_permissions q) IPC_READ s \<and> ipc_check (q_permissions q) IPC_WRITE s)"

lemma usable_set:
  assumes "usable qid p q s" "queue_id q' = queue_id q" "q_next q' = q_next q" "max_messages q' = 256"
    "max_message_size q' = 1024" "length (q_messages q') = 256 * 1024" "q_permissions q' = q_permissions q"
  shows "usable qid p q' (set_page p (Queue q') s)"
  using assms find_queue_set [of qid s p p q q'] by (simp add: usable_def ipc_check_def)

lemma usable_wake:
  assumes "usable qid p q s" "ipc_wake i s = Some s'"
  shows "usable qid p q s'"
proof -
  obtain t where t: "scheduler_wake_task i (i_sched s) = Some t" "s' = s\<lparr>i_sched := t\<rparr>"
    using assms(2) by (auto simp: ipc_wake_def)
  then show ?thesis
    using assms(1) find_queue_sched [of qid s p t] pid_wake [OF t(1)] by (simp add: usable_def ipc_check_def)
qed

lemma slot_offset:
  assumes "c < (256 :: u32)"
  shows "unat (c * 1024) = unat c * 1024" "unat c < 256"
proof -
  show "unat c < 256" using assms by (simp add: word_less_nat_alt)
  then show "unat (c * 1024) = unat c * 1024"
    by (subst unat_mult_lem [THEN iffD1]) simp_all
qed

text \<open>A successful send writes header and data to the slot with the number of waiting messages.\<close>

lemma send_effect:
  assumes "usable qid p q s" "ipc_send_message qid receiver ty data sz s = Some (ERR_SUCCESS, s')"
  defines "off \<equiv> unat (message_count q) * 1024"
    and "h \<equiv> encode_header (get_current_pid (i_sched s)) receiver ty sz (system_time (i_sec s))"
  shows "\<exists>q'. usable qid p q' s' \<and> message_count q' = message_count q + 1 \<and> unat (message_count q) < 256 \<and>
    unat sz \<le> length data \<and> off + 40 + unat sz \<le> 262144 \<and> get_current_pid (i_sched s') = get_current_pid (i_sched s) \<and>
    q_messages q' = put_bytes (put_bytes (q_messages q) off h) (off + 40) (take (unat sz) data)"
proof -
  have q: "ipc_find_queue qid s = Some p" "p \<noteq> 0" "queue_at p s = Some q" "ipc_check (q_permissions q) IPC_WRITE s"
    "max_messages q = 256" "max_message_size q = 1024" "length (q_messages q) = 262144"
    using assms(1) by (simp_all add: usable_def)
  have c: "message_count q < 256" and sz: "\<not> ucast (1024 :: u32) < sz"
    using assms(2) q by (auto simp: ipc_send_message_def err_defs not_le split: if_splits)
  note so = slot_offset [OF c]
  have lh: "length h = 40" by (simp add: h_def header_fields)
  have fit: "off + 40 \<le> 262144" using so(2) by (simp add: off_def)
  let ?b = "put_bytes (q_messages q) off h"
  have lb: "length ?b = 262144" using fit lh q(7) by (simp add: length_put_bytes)
  have st: "store_at (q_messages q) off h = Some ?b" using fit lh q(7) by (simp add: store_at_def)
  have body: "do { d \<leftarrow> load_at data 0 (unat sz); b2 \<leftarrow> store_at ?b (off + 40) d;
      s2 \<leftarrow> ipc_wake receiver (set_page p (Queue (q\<lparr>q_messages := b2, message_count := message_count q + 1\<rparr>)) s);
      Some (ERR_SUCCESS, s2) } = Some (ERR_SUCCESS, s')"
    using assms(2) q sz st so(1) [folded off_def] c [folded not_le]
    by (simp add: ipc_send_message_def sizeof_message_def h_def [symmetric])
  then obtain d b2 s2 where d: "load_at data 0 (unat sz) = Some d" "store_at ?b (off + 40) d = Some b2"
    "ipc_wake receiver (set_page p (Queue (q\<lparr>q_messages := b2, message_count := message_count q + 1\<rparr>)) s) = Some s'"
    by (auto split: bind_splits)
  have d': "unat sz \<le> length data" "d = take (unat sz) data" "length d = unat sz"
    using d(1) by (auto simp: load_at_def get_bytes_def split: if_splits)
  have b2: "off + 40 + unat sz \<le> 262144" "b2 = put_bytes ?b (off + 40) (take (unat sz) data)"
    using d(2) d' lb by (auto simp: store_at_def split: if_splits)
  have lb2: "length b2 = 262144" unfolding b2(2) using b2(1) d' lb by (subst length_put_bytes) auto
  let ?q' = "q\<lparr>q_messages := b2, message_count := message_count q + 1\<rparr>"
  have "usable qid p ?q' (set_page p (Queue ?q') s)"
    by (rule usable_set [OF assms(1)]) (simp_all add: q lb2)
  from usable_wake [OF this d(3)] have "usable qid p ?q' s'" .
  moreover have "get_current_pid (i_sched s') = get_current_pid (i_sched s)"
    using d(3) pid_wake by (auto simp: ipc_wake_def)
  ultimately show ?thesis using so(2) d'(1) b2 by (intro exI [of _ ?q']) simp
qed

lemma send_succeeds:
  assumes "usable qid p q s" "message_count q < 256" "unat sz \<le> length data"
    and "unat (message_count q) * 1024 + 40 + unat sz \<le> 262144" "unat sz \<le> 1024"
    and "scheduler_wake_task receiver (i_sched s) = Some t"
  shows "\<exists>s'. ipc_send_message qid receiver ty data sz s = Some (ERR_SUCCESS, s') \<and> i_sched s' = t"
proof -
  let ?h = "encode_header (get_current_pid (i_sched s)) receiver ty sz (system_time (i_sec s))"
  have "length ?h = 40" by (rule header_fields)
  moreover from this have "length (put_bytes (q_messages q) (unat (message_count q) * 1024) ?h) = 262144"
    using assms(1) slot_offset(2) [OF assms(2)] by (simp add: usable_def length_put_bytes)
  ultimately show ?thesis
    using assms slot_offset [OF assms(2)] assms(2) [folded not_le]
    by (simp add: ipc_send_message_def usable_def sizeof_message_def store_at_def load_at_def ipc_wake_def
        length_get_bytes word_less_nat_alt Let_def)
qed

lemma wait_ready: "queue_at p s = Some q \<Longrightarrow> message_count q \<noteq> 0 \<Longrightarrow> wait_for_message env p s = Some s"
  by (subst wait_for_message.simps) simp

text \<open>
  C19. A message that is sent to an empty queue is received as it was sent: sender, type, size and
  data are those of the send, and the queue is empty again.
\<close>

theorem send_receive:
  assumes "usable qid p q s" "message_count q = 0"
    and "ipc_send_message qid receiver ty data sz s = Some (ERR_SUCCESS, s')"
  shows "\<exists>r q' s''. ipc_receive_message env qid True s' = Some (ERR_SUCCESS, Some r, s'') \<and>
    r_sender r = get_current_pid (i_sched s) \<and> r_type r = ty \<and> r_size r = sz \<and> r_data r = take (unat sz) data \<and>
    usable qid p q' s'' \<and> message_count q' = 0"
proof -
  let ?h = "encode_header (get_current_pid (i_sched s)) receiver ty sz (system_time (i_sec s))"
  obtain q1 where q1: "usable qid p q1 s'" "message_count q1 = 1" "unat sz \<le> length data" "40 + unat sz \<le> 262144"
    "q_messages q1 = put_bytes (put_bytes (q_messages q) 0 ?h) 40 (take (unat sz) data)"
    using send_effect [OF assms(1,3)] assms(2) by auto
  have l: "length (q_messages q) = 262144" "length ?h = 40" "length (take (unat sz) data) = unat sz"
    "length (put_bytes (q_messages q) 0 ?h) = 262144"
    using assms(1) q1(3) by (simp_all add: usable_def header_fields length_put_bytes)
  have h: "get_bytes (q_messages q1) 0 40 = ?h"
    unfolding q1(5) using l q1(4) by (subst get_put_other) (simp_all add: get_put_same)
  have d: "get_bytes (q_messages q1) 40 (unat sz) = take (unat sz) data"
    unfolding q1(5) using l q1(4) by (simp add: get_put_same)
  have f: "of_le64 ?h = get_current_pid (i_sched s)" "of_le64 (drop 16 ?h) = ty" "of_le64 (drop 24 ?h) = sz"
    using header_fields(2-4) [where r = "[]"] by simp_all
  let ?q2 = "q1\<lparr>message_count := 0\<rparr>"
  have u: "usable qid p ?q2 (set_page p (Queue ?q2) s')"
    by (rule usable_set [OF q1(1)]) (use q1(1) in \<open>simp_all add: usable_def\<close>)
  have q: "queue_at p s' = Some q1" "ipc_find_queue qid s' = Some p" "p \<noteq> 0" "ipc_check (q_permissions q1) IPC_READ s'"
    "length (q_messages q1) = 262144" using q1(1) by (simp_all add: usable_def)
  have "take_message p True s' = Some (\<lparr>r_sender = get_current_pid (i_sched s), r_type = ty, r_size = sz,
      r_data = take (unat sz) data\<rparr>, set_page p (Queue ?q2) s')"
    using q q1(2,4) h d f by (auto simp: take_message_def load_at_def sizeof_message_def Let_def word_less_nat_alt)
  with u q wait_ready [OF q(1)] q1(2) show ?thesis by (auto simp: ipc_receive_message_def)
qed


text \<open>
  The bound on the size does not leave room for the header: a message of more than 984 bytes
  that is accepted in the last slot is written past the end of the buffer.
\<close>

theorem last_slot_overflow:
  assumes "usable qid p q s" "message_count q = 255" "984 < unat sz" "unat sz \<le> 1024"
  shows "ipc_send_message qid receiver ty data sz s = None"
proof -
  let ?h = "encode_header (get_current_pid (i_sched s)) receiver ty sz (system_time (i_sec s))"
  have "length ?h = 40" by (rule header_fields)
  moreover from this have "length (put_bytes (q_messages q) 261120 ?h) = 262144"
    using assms(1) by (simp add: usable_def length_put_bytes)
  moreover have "\<not> length d \<le> 984" if "load_at data 0 (unat sz) = Some d" for d
    using that assms(3) by (auto simp: load_at_def length_get_bytes split: if_splits)
  ultimately show ?thesis
    using assms by (auto simp: ipc_send_message_def usable_def sizeof_message_def store_at_def word_le_nat_alt
        word_less_nat_alt Let_def split: bind_splits)
qed

section \<open>Creation\<close>

lemma channel_at_upd: "channel_at x (s\<lparr>shm_channels := m\<rparr>) = channel_at x s"
  by (simp add: channel_at_def)

lemma alloc_head:
  assumes "free_pages (i_mm s) = p" "p \<noteq> 0" "p AND NOT 0xFFF = p" "ipc_alloc_page s = (x, s')"
  shows "x = p" "s' = set_page p Blank (s\<lparr>i_mm := i_mm s'\<rparr>)" "free_pages (i_mm s') = p"
  using assms by (auto simp: ipc_alloc_page_def mm_alloc_page_def Let_def)

lemma create_queue_effect:
  assumes "free_pages (i_mm s) = p" "p \<noteq> 0" "p AND NOT 0xFFF = p" "message_queues s \<in> {0, p}"
    and "ipc_create_message_queue perms s = Some (i, s')" "i \<noteq> -4"
  shows "i = p \<and> message_queues s' = p \<and> free_pages (i_mm s') = p \<and>
    (\<exists>q. queue_at p s' = Some q \<and> queue_id q = p \<and> q_next q = message_queues s \<and> q_permissions q = perms)"
proof -
  obtain s1 where s1: "ipc_alloc_page s = (p, s1)" using alloc_head(1) [OF assms(1-3)] by (metis surj_pair)
  note a = alloc_head(2,3) [OF assms(1-3) s1]
  have m: "message_queues s1 = message_queues s" by (subst a(1)) simp
  show ?thesis
    using assms(2,4,5,6) s1 a(2) m
    by (auto simp: ipc_create_message_queue_def ipc_malloc_def case_prod_beta Let_def split: if_splits)
qed

lemma find_queue_loop:
  assumes "find_queue_from i s p = Some r" "p \<noteq> 0" "queue_at p s = Some q" "q_next q = p" "queue_id q \<noteq> i"
  shows False
proof -
  let ?P = "\<lambda>j t x r. t = s \<and> j = i \<longrightarrow> x \<noteq> p"
  have "?P i s p r"
  proof (rule find_queue_from.raw_induct [OF _ assms(1), of ?P], intro impI notI)
    fix f j t x r
    assume IH: "\<And>j t x r. f j t x = Some r \<Longrightarrow> ?P j t x r"
      and step: "(if x = 0 then Some 0 else do { q \<leftarrow> queue_at x t; if queue_id q \<noteq> j then f j t (q_next q) else Some x }) = Some r"
      and eq: "t = s \<and> j = i" "x = p"
    then have "f i s p = Some r" using assms(2-5) by simp
    from IH [OF this] show False by simp
  qed
  then show False by simp
qed

text \<open>
  C38. Two message queues are one: the allocator returns the page of the first queue again, so the
  second queue has the same identifier and replaces the first, and the list of queues becomes
  cyclic, so that the search for any other identifier never returns.
\<close>

theorem second_queue_collides:
  assumes "free_pages (i_mm s) = p" "p \<noteq> 0" "p AND NOT 0xFFF = p" "message_queues s = 0"
    and "ipc_create_message_queue perms s = Some (i, s1)" "i \<noteq> -4"
    and "ipc_create_message_queue perms' s1 = Some (i', s2)" "i' \<noteq> -4"
  shows "i' = i \<and> (\<exists>q. queue_at i s2 = Some q \<and> q_permissions q = perms') \<and>
    (\<forall>j. j \<noteq> i \<longrightarrow> ipc_find_queue j s2 = None)"
proof -
  have 1: "i = p" "message_queues s1 = p" "free_pages (i_mm s1) = p"
    using create_queue_effect [OF assms(1-3) _ assms(5,6)] assms(4) by auto
  obtain q where q: "i' = p" "message_queues s2 = p" "queue_at p s2 = Some q" "queue_id q = p" "q_next q = p"
    "q_permissions q = perms'"
    using create_queue_effect [OF 1(3) assms(2,3) _ assms(7,8)] 1(2) by auto
  have "ipc_find_queue j s2 = None" if "j \<noteq> p" for j
  proof (cases "ipc_find_queue j s2")
    case (Some r)
    then show ?thesis
      using find_queue_loop [of j s2 p r q] assms(2) q that by (simp add: ipc_find_queue_def)
  qed
  with 1(1) q show ?thesis by auto
qed

text \<open>
  A shared memory channel is created without its data: the second page that
  \<^verbatim>\<open>ipc_create_shm_channel\<close> asks for is the page of the channel itself, which is cleared, so the
  identifier that is returned is 0, no permission is left, and the memory of the channel is the
  structure that describes it.
\<close>

theorem shm_channel_cleared:
  assumes "free_pages (i_mm s) = p" "p \<noteq> 0" "p AND NOT 0xFFF = p" "shm_channels s = 0"
  shows "\<exists>s' c. ipc_create_shm_channel sz perms s = Some (0, s') \<and> channel_at p s' = Some c \<and>
    shm_channels s' = p \<and> channel_id c = 0 \<and> c_permissions c = 0 \<and> c_size c = 0 \<and> shared_memory c = p"
proof -
  obtain s1 where s1: "ipc_alloc_page s = (p, s1)" using alloc_head(1) [OF assms(1-3)] by (metis surj_pair)
  note a = alloc_head(2,3) [OF assms(1-3) s1]
  have m: "shm_channels s1 = 0" using assms(4) by (subst a(1)) simp
  have b: "fst (ipc_alloc_page (set_page p x s1)) = p" for x
    using a(2) assms(2) by (simp add: ipc_alloc_page_def mm_alloc_page_def Let_def)
  have c: "channel_at p (snd (ipc_alloc_page (set_page p x s1))) = Some zero_channel"
    "shm_channels (snd (ipc_alloc_page (set_page p x s1))) = 0" for x
    using a(2) assms(2) m
    by (auto simp: ipc_alloc_page_def mm_alloc_page_def Let_def channel_at_def set_page_def)
  show ?thesis
    using assms(2) s1 b c
    by (simp add: ipc_create_shm_channel_def case_prod_beta Let_def)
      (simp add: channel_at_upd zero_channel_def)
qed

section \<open>Instances\<close>

text \<open>The task with number 1 runs in ring 0 and there is one empty queue.\<close>

definition demo_security_state :: security where
  "demo_security_state = \<lparr>security_contexts = [\<lparr>task_pid = 1, user_id = 0, group_id = 0, privilege_level = 0,
     umask = 18, ctx_capabilities = []\<rparr>], global_capabilities = [], next_capability_id = 1, sec_heap = 64, system_time = 7\<rparr>"

definition demo_queue :: "u32 \<Rightarrow> message_queue" where
  "demo_queue n = \<lparr>queue_id = 0x300000, q_owner_pid = 1, q_permissions = 3, q_messages = replicate 262144 0,
     message_count = n, max_messages = 256, max_message_size = 1024, q_next = 0, q_prev = 0\<rparr>"

definition demo_ipc :: "u32 \<Rightarrow> ipc" where
  "demo_ipc n = \<lparr>pages = (\<lambda>_. Blank)(0x300000 := Queue (demo_queue n)), message_queues = 0x300000, shm_channels = 0,
     signals = [], pi_table = [], i_sched = demo_sched, i_sec = demo_security_state, i_mm = demo_mm\<rparr>"

lemma demo_pid: "get_current_pid demo_sched = 1"
  by (simp add: get_current_pid_def demo_sched_def demo_tcb_def)

lemma demo_usable: "usable 0x300000 0x300000 (demo_queue n) (demo_ipc n)"
proof -
  have at: "queue_at 0x300000 (demo_ipc n) = Some (demo_queue n)" by (simp add: queue_at_def demo_ipc_def)
  have "ipc_find_queue 0x300000 (demo_ipc n) = Some 0x300000"
    using at by (simp add: ipc_find_queue_def find_queue_from.simps demo_ipc_def) (simp add: demo_queue_def)
  moreover have "ipc_check perms req (demo_ipc n)" for perms req
    by (simp add: ipc_check_def demo_ipc_def demo_pid security_check_capability_def security_find_context_def
        demo_security_state_def PRIV_RING_0_def)
  ultimately show ?thesis using at by (simp add: usable_def) (simp add: demo_queue_def)
qed

lemma demo_wake: "scheduler_wake_task 5 demo_sched = Some demo_sched"
  using find_task_queue [of "tcbs demo_sched" "ready_queue demo_sched" "[16]" 5]
  by (simp add: scheduler_wake_task_def scheduler_find_task_def demo_sched_def demo_tcb_def)

lemma demo_send:
  assumes "unat sz \<le> length data" "unat sz \<le> 984" "n < 256"
  shows "\<exists>s'. ipc_send_message 0x300000 5 ty data sz (demo_ipc n) = Some (ERR_SUCCESS, s') \<and> i_sched s' = demo_sched"
proof (rule send_succeeds [OF demo_usable])
  show "scheduler_wake_task 5 (i_sched (demo_ipc n)) = Some demo_sched" by (simp add: demo_ipc_def demo_wake)
qed (use assms slot_offset(2) [OF assms(3)] in \<open>auto simp: demo_queue_def\<close>)

theorem send_receive_witness:
  "\<exists>s' r s''. ipc_send_message 0x300000 5 9 [1, 2, 3] 3 (demo_ipc 0) = Some (ERR_SUCCESS, s') \<and>
    ipc_receive_message [] 0x300000 True s' = Some (ERR_SUCCESS, Some r, s'') \<and> r_data r = [1, 2, 3] \<and> r_type r = 9"
proof -
  obtain s' where s': "ipc_send_message 0x300000 5 9 [1, 2, 3] 3 (demo_ipc 0) = Some (ERR_SUCCESS, s')"
    using demo_send [of 3 "[1, 2, 3]" 0 9] by auto
  from send_receive [OF demo_usable _ this, of "[]"] s' show ?thesis by (auto simp: demo_queue_def)
qed

theorem last_slot_overflow_witness: "ipc_send_message 0x300000 5 9 (replicate 1000 0) 1000 (demo_ipc 255) = None"
  by (rule last_slot_overflow [OF demo_usable]) (simp_all add: demo_queue_def)


definition demo_ipc_boot :: ipc where
  "demo_ipc_boot = (demo_ipc 0)\<lparr>message_queues := 0\<rparr>"

lemma demo_boot_mm: "free_pages (i_mm demo_ipc_boot) = 0x300000" "shm_channels demo_ipc_boot = 0"
  "message_queues demo_ipc_boot = 0" "(0x300000 :: u64) AND NOT 0xFFF = 0x300000"
  by (simp_all add: demo_ipc_boot_def demo_ipc_def demo_mm_def)

theorem second_queue_collides_witness:
  "\<exists>i s1 s2. ipc_create_message_queue 3 demo_ipc_boot = Some (i, s1) \<and>
    ipc_create_message_queue 7 s1 = Some (i, s2) \<and> ipc_find_queue 1 s2 = None"
proof -
  have "\<exists>i s1 i' s2. ipc_create_message_queue 3 demo_ipc_boot = Some (i, s1) \<and> i \<noteq> -4 \<and>
      ipc_create_message_queue 7 s1 = Some (i', s2) \<and> i' \<noteq> -4"
    by (simp add: ipc_create_message_queue_def demo_ipc_boot_def demo_ipc_def demo_mm_def demo_sched_def
        ipc_alloc_page_def mm_alloc_page_def ipc_malloc_def sched_malloc_def malloc_def HEAP_SIZE_def ALIGN_UP_def
        set_page_def queue_at_def Let_def)
  then obtain i s1 i' s2 where c: "ipc_create_message_queue 3 demo_ipc_boot = Some (i, s1)" "i \<noteq> -4"
      "ipc_create_message_queue 7 s1 = Some (i', s2)" "i' \<noteq> -4" by blast
  have "i = 0x300000" using create_queue_effect [OF demo_boot_mm(1) _ demo_boot_mm(4) _ c(1,2)] demo_boot_mm(3) by simp
  with second_queue_collides [OF demo_boot_mm(1) _ demo_boot_mm(4,3) c] c(1,3) show ?thesis by auto
qed

theorem shm_channel_cleared_witness:
  "\<exists>s' c. ipc_create_shm_channel 8192 7 demo_ipc_boot = Some (0, s') \<and> channel_at 0x300000 s' = Some c \<and> c_permissions c = 0"
  using shm_channel_cleared [OF demo_boot_mm(1) _ demo_boot_mm(4,2), of 8192 7] by auto

end
