(* ===== verification/Frame_Alloc.thy ===== *)
theory Frame_Alloc
  imports Prelude
begin

unbundle bit_operations_syntax

text \<open>
  The bitmap frame allocator, \<^verbatim>\<open>src/memory/frame_allocator.rs\<close>, with the regions of
  \<^verbatim>\<open>src/memory/mod.rs\<close>.  Addresses are 64-bit words, sizes and indices natural numbers: the regions
  lie below \<open>2 ^ 64\<close>, so that no size or index wraps around.  A set bit is a free frame.  An index outside
  of the bitmap panics; the function has no result then.  The lock around the global allocator is left
  out: every call runs on its own.
\<close>

section \<open>Frames and regions\<close>

definition PAGE_BYTES :: nat where "PAGE_BYTES = 4096"

record memory_region =
  reg_start :: u64
  reg_size :: nat

definition region_end :: "memory_region \<Rightarrow> u64" where
  "region_end r = reg_start r + of_nat (reg_size r)"

text \<open>A frame is its start address.\<close>

definition containing_address :: "u64 \<Rightarrow> u64" where
  "containing_address address = address AND NOT (of_nat PAGE_BYTES - 1)"

text \<open>The iterator over a range of frames: the next frame and the advanced iterator.\<close>

definition frame_iter_next :: "u64 \<times> u64 \<Rightarrow> (u64 \<times> (u64 \<times> u64)) option" where
  "frame_iter_next it = (case it of (first, final) \<Rightarrow>
     if first \<le> final then Some (first, (first + of_nat PAGE_BYTES, final)) else None)"

section \<open>The allocator\<close>

record frame_allocator =
  memory_regions :: "memory_region list"
  bitmap :: "u64 list"
  next_free :: nat

definition allocator_new :: frame_allocator where
  "allocator_new = \<lparr>memory_regions = [], bitmap = [], next_free = 0\<rparr>"

definition allocator_init :: "memory_region list \<Rightarrow> frame_allocator \<Rightarrow> frame_allocator" where
  "allocator_init regions a = (let total_frames = sum_list (map (\<lambda>r. reg_size r div PAGE_BYTES) regions);
       bitmap_size = (total_frames + 63) div 64
     in a\<lparr>memory_regions := regions, bitmap := replicate bitmap_size (NOT 0), next_free := 0\<rparr>)"

fun bit_index_from :: "memory_region list \<Rightarrow> u64 \<Rightarrow> nat \<Rightarrow> nat option" where
  "bit_index_from [] frame offset = None"
| "bit_index_from (r # rs) frame offset =
     (if reg_start r \<le> frame \<and> frame < region_end r then Some (offset + unat (frame - reg_start r) div PAGE_BYTES)
      else bit_index_from rs frame (offset + reg_size r div PAGE_BYTES))"

definition frame_to_bit_index :: "frame_allocator \<Rightarrow> u64 \<Rightarrow> nat option" where
  "frame_to_bit_index a frame = bit_index_from (memory_regions a) frame 0"

fun frame_from :: "memory_region list \<Rightarrow> nat \<Rightarrow> nat \<Rightarrow> u64 option" where
  "frame_from [] index offset = None"
| "frame_from (r # rs) index offset = (let region_frames = reg_size r div PAGE_BYTES in
     if index < offset + region_frames then Some (reg_start r + of_nat ((index - offset) * PAGE_BYTES))
     else frame_from rs index (offset + region_frames))"

definition bit_index_to_frame :: "frame_allocator \<Rightarrow> nat \<Rightarrow> u64 option" where
  "bit_index_to_frame a index = frame_from (memory_regions a) index 0"

definition bit_set :: "frame_allocator \<Rightarrow> nat \<Rightarrow> bool" where
  "bit_set a idx = (bitmap a ! (idx div 64) AND push_bit (idx mod 64) 1 \<noteq> 0)"

definition allocate_frame :: "frame_allocator \<Rightarrow> u64 option \<times> frame_allocator" where
  "allocate_frame a = (let total_bits = length (bitmap a) * 64 in
     case find (\<lambda>i. bit_set a ((next_free a + i) mod total_bits)) [0..<total_bits] of
       None \<Rightarrow> (None, a)
     | Some i \<Rightarrow> let idx = (next_free a + i) mod total_bits in
         (bit_index_to_frame a idx,
          a\<lparr>bitmap := (bitmap a)[idx div 64 := bitmap a ! (idx div 64) AND NOT (push_bit (idx mod 64) 1)],
            next_free := (idx + 1) mod total_bits\<rparr>))"

definition deallocate_frame :: "u64 \<Rightarrow> frame_allocator \<Rightarrow> frame_allocator option" where
  "deallocate_frame frame a = (case frame_to_bit_index a frame of
     None \<Rightarrow> Some a
   | Some idx \<Rightarrow>
       if idx div 64 < length (bitmap a)
       then Some (a\<lparr>bitmap := (bitmap a)[idx div 64 := bitmap a ! (idx div 64) OR push_bit (idx mod 64) 1]\<rparr>)
       else None)"

text \<open>The functions on the global allocator, which is set by \<^verbatim>\<open>init_frame_allocator\<close>.\<close>

definition init_frame_allocator :: "memory_region list \<Rightarrow> frame_allocator option" where
  "init_frame_allocator regions = Some (allocator_init regions allocator_new)"

definition global_allocate_frame :: "frame_allocator option \<Rightarrow> u64 option \<times> frame_allocator option" where
  "global_allocate_frame g = (case g of None \<Rightarrow> (None, None) | Some a \<Rightarrow> map_prod id Some (allocate_frame a))"

definition global_deallocate_frame :: "u64 \<Rightarrow> frame_allocator option \<Rightarrow> frame_allocator option option" where
  "global_deallocate_frame frame g = (case g of None \<Rightarrow> Some None | Some a \<Rightarrow> map_option Some (deallocate_frame frame a))"

section \<open>Frames and their bits\<close>

definition frames :: "memory_region list \<Rightarrow> nat" where
  "frames rs = sum_list (map (\<lambda>r. reg_size r div PAGE_BYTES) rs)"

definition region_ok :: "memory_region \<Rightarrow> bool" where
  "region_ok r = (unat (reg_start r) + reg_size r < 2 ^ 64 \<and> PAGE_BYTES dvd reg_size r)"

definition apart_regions :: "memory_region \<Rightarrow> memory_region \<Rightarrow> bool" where
  "apart_regions r q = (unat (reg_start r) + reg_size r \<le> unat (reg_start q) \<or> unat (reg_start q) + reg_size q \<le> unat (reg_start r))"

definition regions_ok :: "memory_region list \<Rightarrow> bool" where
  "regions_ok rs = (sorted_wrt apart_regions rs \<and> (\<forall>r \<in> set rs. region_ok r))"

lemma in_region:
  assumes "region_ok r"
  shows "(reg_start r \<le> f \<and> f < region_end r) = (unat (reg_start r) \<le> unat f \<and> unat f < unat (reg_start r) + reg_size r)"
proof -
  have "unat (region_end r) = unat (reg_start r) + reg_size r"
    using assms unfolding region_end_def region_ok_def
    by (subst unat_plus_simple [THEN iffD1]) (auto simp: word_le_nat_alt unat_word_ariths of_nat_inverse [OF refl])
  then show ?thesis by (simp add: word_le_nat_alt word_less_nat_alt)
qed

lemma unat_plus_nat:
  fixes s :: u64
  assumes "unat s + k < 2 ^ 64"
  shows "unat (s + of_nat k) = unat s + k" "unat (s + of_nat k - s) = k"
  using assms by (simp_all add: unat_word_ariths unat_of_nat)

lemma frame_in_region:
  "frame_from rs i off = Some f \<Longrightarrow> off \<le> i \<Longrightarrow> \<forall>r \<in> set rs. region_ok r \<Longrightarrow>
    \<exists>r \<in> set rs. unat (reg_start r) \<le> unat f \<and> unat f < unat (reg_start r) + reg_size r \<and> PAGE_BYTES dvd unat (f - reg_start r)"
proof (induction rs arbitrary: off)
  case (Cons r rs)
  show ?case
  proof (cases "i < off + reg_size r div PAGE_BYTES")
    case True
    then have "i - off < reg_size r div PAGE_BYTES" using Cons.prems(2) by simp
    then have lt: "(i - off) * PAGE_BYTES < reg_size r" using Cons.prems(3) by (auto simp: region_ok_def PAGE_BYTES_def)
    then have b: "unat (reg_start r) + (i - off) * PAGE_BYTES < 2 ^ 64" using Cons.prems(3) by (auto simp: region_ok_def)
    have f: "f = reg_start r + of_nat ((i - off) * PAGE_BYTES)" using Cons.prems(1) True by (simp add: Let_def)
    from unat_plus_nat [OF b] show ?thesis unfolding f using lt by (simp del: of_nat_mult)
  next
    case False
    then show ?thesis using Cons.prems Cons.IH [of "off + reg_size r div PAGE_BYTES"] by (auto simp: Let_def)
  qed
qed simp

lemma frame_index:
  "regions_ok rs \<Longrightarrow> off \<le> i \<Longrightarrow> i < off + frames rs \<Longrightarrow> \<exists>f. frame_from rs i off = Some f \<and> bit_index_from rs f off = Some i"
proof (induction rs arbitrary: off)
  case (Cons r rs)
  have r: "region_ok r" using Cons.prems(1) by (simp add: regions_ok_def)
  show ?case
  proof (cases "i < off + reg_size r div PAGE_BYTES")
    case True
    then have "i - off < reg_size r div PAGE_BYTES" using Cons.prems(2) by simp
    then have lt: "(i - off) * PAGE_BYTES < reg_size r" using r by (auto simp: region_ok_def PAGE_BYTES_def)
    then have b: "unat (reg_start r) + (i - off) * PAGE_BYTES < 2 ^ 64" using r by (auto simp: region_ok_def)
    let ?f = "reg_start r + of_nat ((i - off) * PAGE_BYTES)"
    have u: "unat ?f = unat (reg_start r) + (i - off) * PAGE_BYTES" "unat (?f - reg_start r) = (i - off) * PAGE_BYTES"
      by (rule unat_plus_nat [OF b])+
    then have "bit_index_from (r # rs) ?f off = Some i"
      using lt Cons.prems(2) in_region [OF r, of ?f] by (simp add: PAGE_BYTES_def del: of_nat_mult)
    then show ?thesis using True by (auto simp: Let_def)
  next
    case False
    let ?off = "off + reg_size r div PAGE_BYTES"
    have rs: "regions_ok rs" and i: "?off \<le> i" using Cons.prems(1) False by (simp_all add: regions_ok_def)
    then obtain f where f: "frame_from rs i ?off = Some f" "bit_index_from rs f ?off = Some i"
      using Cons.IH [of ?off] Cons.prems(3) by (auto simp: frames_def)
    from frame_in_region [OF f(1) i] rs obtain q where
      q: "q \<in> set rs" "unat (reg_start q) \<le> unat f" "unat f < unat (reg_start q) + reg_size q" by (auto simp: regions_ok_def)
    then have "apart_regions r q" using Cons.prems(1) by (simp add: regions_ok_def)
    then have "\<not> (reg_start r \<le> f \<and> f < region_end r)" using q in_region [OF r, of f] by (auto simp: apart_regions_def)
    then show ?thesis using f False by (auto simp: Let_def)
  qed
qed (simp add: frames_def)

lemma no_frame: "off + frames rs \<le> i \<Longrightarrow> frame_from rs i off = None"
  by (induction rs arbitrary: off) (auto simp: Let_def frames_def)

lemma index_bound: "regions_ok rs \<Longrightarrow> bit_index_from rs f off = Some i \<Longrightarrow> off \<le> i \<and> i < off + frames rs"
proof (induction rs arbitrary: off)
  case (Cons r rs)
  have r: "region_ok r" and rs: "regions_ok rs" using Cons.prems(1) by (simp_all add: regions_ok_def)
  show ?case
  proof (cases "reg_start r \<le> f \<and> f < region_end r")
    case True
    then have "unat (f - reg_start r) < reg_size r" using in_region [OF r, of f] by (auto simp: unat_sub_if_size word_le_nat_alt)
    then have "unat (f - reg_start r) div PAGE_BYTES < reg_size r div PAGE_BYTES" using r by (auto simp: region_ok_def PAGE_BYTES_def)
    then show ?thesis using Cons.prems(2) True by (auto simp: frames_def)
  next
    case False
    then have "bit_index_from rs f (off + reg_size r div PAGE_BYTES) = Some i" using Cons.prems(2) by (simp del: de_Morgan_conj)
    from Cons.IH [OF rs this] show ?thesis by (auto simp: frames_def)
  qed
qed simp

section \<open>The free frames\<close>

definition free_bits :: "frame_allocator \<Rightarrow> nat set" where
  "free_bits a = {i. i < length (bitmap a) * 64 \<and> bit_set a i}"

definition free_frames :: "frame_allocator \<Rightarrow> nat set" where
  "free_frames a = {i \<in> free_bits a. i < frames (memory_regions a)}"

text \<open>The last word of the bitmap may have bits without a frame, at most 63.\<close>

definition alloc_ok :: "frame_allocator \<Rightarrow> bool" where
  "alloc_ok a = (regions_ok (memory_regions a) \<and> frames (memory_regions a) \<le> length (bitmap a) * 64 \<and>
     length (bitmap a) * 64 < frames (memory_regions a) + 64)"

lemma bit_set_bit: "bit_set a i = bit (bitmap a ! (i div 64)) (i mod 64)"
  by (simp add: bit_set_def push_bit_of_1 and_exp_eq_0_iff_not_bit)

lemma free_bits_clear:
  assumes "i < length (bitmap a) * 64"
  shows "free_bits (a\<lparr>bitmap := (bitmap a)[i div 64 := bitmap a ! (i div 64) AND NOT (push_bit (i mod 64) 1)], next_free := n\<rparr>) = free_bits a - {i}"
proof -
  have "j = i" if "j div 64 = i div 64" "j mod 64 = i mod 64" for j using that by (metis div_mult_mod_eq)
  moreover have "i div 64 < length (bitmap a)" using assms by (simp add: less_mult_imp_div_less)
  ultimately show ?thesis
    by (auto simp: free_bits_def bit_set_bit nth_list_update bit_simps split: if_splits)
qed

lemma free_bits_set:
  assumes "i < length (bitmap a) * 64"
  shows "free_bits (a\<lparr>bitmap := (bitmap a)[i div 64 := bitmap a ! (i div 64) OR push_bit (i mod 64) 1]\<rparr>) = insert i (free_bits a)"
proof -
  have "j = i" if "j div 64 = i div 64" "j mod 64 = i mod 64" for j using that by (metis div_mult_mod_eq)
  moreover have "i div 64 < length (bitmap a)" using assms by (simp add: less_mult_imp_div_less)
  ultimately show ?thesis
    using assms by (auto simp: free_bits_def bit_set_bit nth_list_update bit_simps split: if_splits)
qed

lemma mod_onto: "j < (t :: nat) \<Longrightarrow> \<exists>i < t. (n + i) mod t = j"
proof -
  assume j: "j < t"
  have "(n + (j + t - n mod t) mod t) mod t = (n mod t + (j + t - n mod t)) mod t" by (simp add: mod_simps)
  moreover have "n mod t < t" using j by (intro mod_less_divisor) simp
  then have "n mod t + (j + t - n mod t) = j + t" by linarith
  then have "(n mod t + (j + t - n mod t)) mod t = j" using j by simp
  ultimately show ?thesis using j by (intro exI [of _ "(j + t - n mod t) mod t"]) simp
qed

text \<open>The search takes some set bit, and clears it.\<close>

lemma allocate_cases:
  obtains "free_bits a = {}" "allocate_frame a = (None, a)"
  | i a' where "i \<in> free_bits a" "allocate_frame a = (bit_index_to_frame a i, a')" "free_bits a' = free_bits a - {i}"
      "memory_regions a' = memory_regions a" "length (bitmap a') = length (bitmap a)"
proof -
  let ?t = "length (bitmap a) * 64"
  let ?P = "\<lambda>i. bit_set a ((next_free a + i) mod ?t)"
  show thesis
  proof (cases "find ?P [0..<?t]")
    case None
    then have "\<forall>i < ?t. \<not> ?P i" by (auto simp: find_None_iff)
    then have "\<not> bit_set a j" if "j < ?t" for j using mod_onto [OF that, of "next_free a"] by auto
    then show ?thesis using that(1) None by (auto simp: free_bits_def allocate_frame_def)
  next
    case (Some k)
    then have k: "?P k" "k < ?t" by (auto simp: find_Some_iff)
    let ?i = "(next_free a + k) mod ?t"
    have i: "?i < ?t" using mod_less_divisor [of ?t "next_free a + k"] k(2) by linarith
    have "?i \<in> free_bits a" using k(1) i by (simp add: free_bits_def)
    moreover have "allocate_frame a = (bit_index_to_frame a ?i,
        a\<lparr>bitmap := (bitmap a)[?i div 64 := bitmap a ! (?i div 64) AND NOT (push_bit (?i mod 64) 1)], next_free := (?i + 1) mod ?t\<rparr>)"
      using Some unfolding allocate_frame_def Let_def by (simp only: option.case)
    ultimately show ?thesis by (rule that(2) [OF _ _ free_bits_clear [OF i]]) simp_all
  qed
qed

lemma free_frames_image: "memory_regions a' = memory_regions a \<Longrightarrow> free_bits a' = free_bits a - {i} \<Longrightarrow> free_frames a' = free_frames a - {i}"
  by (auto simp: free_frames_def)

lemma alloc_ok_other: "memory_regions a' = memory_regions a \<Longrightarrow> length (bitmap a') = length (bitmap a) \<Longrightarrow> alloc_ok a' = alloc_ok a"
  by (simp add: alloc_ok_def)

text \<open>
  C14.  A frame that \<^verbatim>\<open>allocate_frame\<close> returns lies in a region, was free and is not free any more, and
  no other frame changes.  When it returns nothing, the free frames stay as they are.
\<close>

theorem allocate_frame_correct:
  assumes "alloc_ok a" "allocate_frame a = (r, a')"
  shows "alloc_ok a' \<and> (case r of
     None \<Rightarrow> free_frames a' = free_frames a
   | Some f \<Rightarrow> (\<exists>i \<in> free_frames a. frame_to_bit_index a f = Some i \<and> free_frames a' = free_frames a - {i} \<and>
       (\<exists>q \<in> set (memory_regions a). unat (reg_start q) \<le> unat f \<and> unat f < unat (reg_start q) + reg_size q)))"
proof (rule allocate_cases [of a])
  assume "allocate_frame a = (None, a)"
  then show ?thesis using assms by simp
next
  fix i b assume b: "i \<in> free_bits a" "allocate_frame a = (bit_index_to_frame a i, b)" "free_bits b = free_bits a - {i}"
    "memory_regions b = memory_regions a" "length (bitmap b) = length (bitmap a)"
  have eq: "r = frame_from (memory_regions a) i 0" "a' = b" using b(2) assms(2) by (simp_all add: bit_index_to_frame_def)
  have rs: "regions_ok (memory_regions a)" using assms(1) by (simp add: alloc_ok_def)
  note free = free_frames_image [OF b(4,3)] alloc_ok_other [OF b(4,5)]
  show ?thesis
  proof (cases "i < frames (memory_regions a)")
    case True
    from frame_index [OF rs, of 0 i] True obtain f where f: "frame_from (memory_regions a) i 0 = Some f" "bit_index_from (memory_regions a) f 0 = Some i"
      by auto
    moreover have "i \<in> free_frames a" using b(1) True by (simp add: free_frames_def)
    moreover have "\<exists>q \<in> set (memory_regions a). unat (reg_start q) \<le> unat f \<and> unat f < unat (reg_start q) + reg_size q"
      using frame_in_region [OF f(1)] rs by (auto simp: regions_ok_def)
    ultimately show ?thesis using assms(1) eq free by (auto simp: frame_to_bit_index_def)
  next
    case False
    then show ?thesis using assms(1) eq free no_frame [of 0 "memory_regions a" i] by (auto simp: free_frames_def)
  qed
qed

text \<open>The bits that are set but stand for no frame.\<close>

definition phantoms :: "frame_allocator \<Rightarrow> nat set" where
  "phantoms a = {i \<in> free_bits a. frames (memory_regions a) \<le> i}"

lemma phantoms_few: "alloc_ok a \<Longrightarrow> finite (phantoms a) \<and> card (phantoms a) \<le> 63"
proof -
  assume ok: "alloc_ok a"
  have "phantoms a \<subseteq> {frames (memory_regions a)..<length (bitmap a) * 64}" by (auto simp: phantoms_def free_bits_def)
  from card_mono [OF _ this] finite_subset [OF this] ok show ?thesis by (auto simp: alloc_ok_def)
qed

lemma allocate_within:
  assumes "alloc_ok a" "free_frames a \<noteq> {}"
  shows "\<exists>k \<le> card (phantoms a). fst (allocate_frame (((\<lambda>a. snd (allocate_frame a)) ^^ k) a)) \<noteq> None"
  using assms
proof (induction "card (phantoms a)" arbitrary: a rule: less_induct)
  case less
  show ?case
  proof (rule allocate_cases [of a])
    assume "free_bits a = {}"
    then show ?thesis using less.prems(2) by (simp add: free_frames_def)
  next
    fix i b assume b: "i \<in> free_bits a" "allocate_frame a = (bit_index_to_frame a i, b)" "free_bits b = free_bits a - {i}"
      "memory_regions b = memory_regions a" "length (bitmap b) = length (bitmap a)"
    show ?thesis
    proof (cases "i < frames (memory_regions a)")
      case True
      then have "fst (allocate_frame a) \<noteq> None"
        using frame_index [of "memory_regions a" 0 i] less.prems(1) b(2) by (auto simp: bit_index_to_frame_def alloc_ok_def)
      then show ?thesis by (intro exI [of _ 0]) simp
    next
      case False
      then have p: "phantoms b = phantoms a - {i}" "i \<in> phantoms a" using b(1,3,4) by (auto simp: phantoms_def)
      then have "card (phantoms b) < card (phantoms a)"
        using phantoms_few [OF less.prems(1)] by (intro psubset_card_mono) auto
      moreover have "alloc_ok b" "free_frames b \<noteq> {}"
        using less.prems False b alloc_ok_other [OF b(4,5)] free_frames_image [OF b(4,3)] by (auto simp: free_frames_def)
      ultimately obtain k where k: "k \<le> card (phantoms b)" "fst (allocate_frame (((\<lambda>a. snd (allocate_frame a)) ^^ k) b)) \<noteq> None"
        using less.hyps by blast
      then show ?thesis
        using \<open>card (phantoms b) < card (phantoms a)\<close> b(2)
        by (intro exI [of _ "Suc k"]) (simp add: funpow_simps_right del: funpow.simps)
    qed
  qed
qed

text \<open>
  C15.  While a frame is free, \<^verbatim>\<open>allocate_frame\<close> returns one after at most 63 failures.  A call fails
  although frames are free when it takes one of the set bits behind the last frame.
\<close>

theorem allocate_eventually:
  assumes "alloc_ok a" "free_frames a \<noteq> {}"
  shows "\<exists>k \<le> 63. fst (allocate_frame (((\<lambda>a. snd (allocate_frame a)) ^^ k) a)) \<noteq> None"
proof -
  obtain k where "k \<le> card (phantoms a)" "fst (allocate_frame (((\<lambda>a. snd (allocate_frame a)) ^^ k) a)) \<noteq> None"
    using allocate_within [OF assms] by blast
  then show ?thesis using phantoms_few [OF assms(1)] by (intro exI [of _ k]) simp
qed

lemma init_ok:
  assumes "regions_ok rs"
  shows "alloc_ok (allocator_init rs a) \<and> free_frames (allocator_init rs a) = {..<frames rs}"
proof -
  let ?a = "allocator_init rs a"
  define n where "n = (frames rs + 63) div 64"
  have a: "memory_regions ?a = rs" "bitmap ?a = replicate n (NOT 0)"
    by (simp_all add: allocator_init_def Let_def frames_def n_def)
  have n: "n * 64 < frames rs + 64" "frames rs \<le> n * 64"
    using div_mult_mod_eq [of "frames rs + 63" 64] mod_less_divisor [of 64 "frames rs + 63"] unfolding n_def by linarith+
  have "bit_set ?a i" if "i < n * 64" for i
    using less_mult_imp_div_less [OF that] by (simp add: bit_set_bit a(2) bit_not_iff)
  then have "free_bits ?a = {..<n * 64}" by (auto simp: free_bits_def a(2))
  then have "free_frames ?a = {i. i < n * 64 \<and> i < frames rs}" by (simp add: free_frames_def a(1))
  also have "\<dots> = {..<frames rs}" using n(2) by fastforce
  finally show ?thesis using assms n by (simp add: alloc_ok_def a)
qed

text \<open>
  Giving back a frame of the regions makes exactly this frame free; an address outside of the
  regions changes nothing.
\<close>

theorem deallocate_frame_correct:
  assumes "alloc_ok a"
  shows "\<exists>a'. deallocate_frame f a = Some a' \<and> alloc_ok a' \<and>
    (case frame_to_bit_index a f of None \<Rightarrow> a' = a | Some i \<Rightarrow> free_frames a' = insert i (free_frames a))"
proof (cases "frame_to_bit_index a f")
  case None
  then show ?thesis using assms by (simp add: deallocate_frame_def)
next
  case (Some i)
  then have i: "i < frames (memory_regions a)"
    using index_bound [of "memory_regions a" f 0 i] assms by (simp add: alloc_ok_def frame_to_bit_index_def)
  then have "i < length (bitmap a) * 64" using assms by (simp add: alloc_ok_def)
  from free_bits_set [OF this] this show ?thesis
    using Some i assms by (auto simp: deallocate_frame_def free_frames_def alloc_ok_def less_mult_imp_div_less)
qed

text \<open>Sixty-five frames need two words, and the first of them was given back when the others were taken.\<close>

definition demo_regions :: "memory_region list" where
  "demo_regions = [\<lparr>reg_start = 0x100000, reg_size = 65 * 4096\<rparr>]"

definition demo_alloc :: frame_allocator where
  "demo_alloc = \<lparr>memory_regions = demo_regions, bitmap = [1, 2], next_free = 65\<rparr>"

lemma demo_alloc_ok: "alloc_ok demo_alloc" "0 \<in> free_frames demo_alloc"
  by (simp_all add: alloc_ok_def regions_ok_def region_ok_def demo_alloc_def demo_regions_def frames_def PAGE_BYTES_def
    free_frames_def free_bits_def bit_set_def)

lemma demo_allocate:
  "allocate_frame demo_alloc = (None, demo_alloc\<lparr>bitmap := [1, 0], next_free := 66\<rparr>)"
proof -
  have "[0..<128] = 0 # [1..<128 :: nat]" by (simp add: upt_conv_Cons)
  then show ?thesis
    by (simp add: allocate_frame_def demo_alloc_def demo_regions_def bit_set_def bit_index_to_frame_def PAGE_BYTES_def)
qed

theorem allocate_frame_correct_witness:
  "\<exists>r a'. allocate_frame (allocator_init demo_regions allocator_new) = (r, a') \<and> alloc_ok a'"
proof -
  have "regions_ok demo_regions" by (simp add: regions_ok_def region_ok_def demo_regions_def PAGE_BYTES_def)
  then have ok: "alloc_ok (allocator_init demo_regions allocator_new)" using init_ok by blast
  obtain r a' where r: "allocate_frame (allocator_init demo_regions allocator_new) = (r, a')" by (rule prod.exhaust)
  from allocate_frame_correct [OF ok r] r show ?thesis by blast
qed

theorem allocate_eventually_witness:
  "fst (allocate_frame demo_alloc) = None \<and> (\<exists>k \<le> 63. fst (allocate_frame (((\<lambda>a. snd (allocate_frame a)) ^^ k) demo_alloc)) \<noteq> None)"
  using allocate_eventually [OF demo_alloc_ok(1)] demo_alloc_ok(2) demo_allocate by auto

theorem deallocate_frame_correct_witness:
  "\<exists>a'. deallocate_frame 0x105000 demo_alloc = Some a' \<and> free_frames a' = insert 5 (free_frames demo_alloc)"
proof -
  have "frame_to_bit_index demo_alloc 0x105000 = Some 5"
    by (simp add: frame_to_bit_index_def demo_alloc_def demo_regions_def region_end_def PAGE_BYTES_def)
  then show ?thesis using deallocate_frame_correct [OF demo_alloc_ok(1), of "0x105000"] by auto
qed

end
