(* ===== verification/Vt_Parser.thy ===== *)
theory Vt_Parser
  imports Prelude
begin

text \<open>
  The parser for terminal control sequences, \<^verbatim>\<open>src/lib_core/vt/parser.rs\<close>: a state machine over bytes.
  The callback of \<^verbatim>\<open>advance\<close> is called at most once for a byte; the model returns the list of the
  actions.  A character is its code.  The match on the byte in the ground state has no arm for the
  bytes 0x18 and 0x1A, for which the model has no result.  Parameters are 64-bit integers with
  saturating arithmetic.
\<close>

section \<open>The state machine\<close>

datatype action =
    Print u32
  | Execute u8
  | Hook "int list" "u8 list" bool
  | Put u8
  | OscStart
  | OscPut u8
  | OscEnd
  | CsiDispatch "int list" "u8 list" bool u32 "u32 option"
  | EscDispatch "u8 list" bool u8

datatype parser_state = Ground | Escape | EscapeIntermediate | CsiEntry | CsiParam | CsiIntermediate | CsiIgnore
  | DcsEntry | DcsParam | DcsIntermediate | DcsPassthrough | DcsIgnore | OscString | SosPmapiString

record parser =
  p_state :: parser_state
  params :: "int list"
  intermediates :: "u8 list"
  ignore_flagged :: bool
  private_prefix :: "u32 option"

definition Parser_new :: parser where
  "Parser_new = \<lparr>p_state = Ground, params = [], intermediates = [], ignore_flagged = False, private_prefix = None\<rparr>"

definition reset :: "parser \<Rightarrow> parser" where
  "reset p = p\<lparr>p_state := Ground, params := [], intermediates := [], ignore_flagged := False, private_prefix := None\<rparr>"

definition sat_i64 :: "int \<Rightarrow> int" where
  "sat_i64 x = max (- (2 ^ 63)) (min (2 ^ 63 - 1) x)"

definition within :: "u8 \<Rightarrow> u8 \<Rightarrow> u8 \<Rightarrow> bool" where
  "within lo hi b = (lo \<le> b \<and> b \<le> hi)"

text \<open>The control characters that are executed in every state: 0x00 to 0x17, 0x19 and 0x1C to 0x1F.\<close>

definition control :: "u8 \<Rightarrow> bool" where
  "control b = (within 0x00 0x17 b \<or> b = 0x19 \<or> within 0x1C 0x1F b)"

definition digit :: "u8 \<Rightarrow> int" where
  "digit b = uint (b - 0x30)"

text \<open>A digit in the state \<open>CsiParam\<close>.\<close>

definition add_digit :: "u8 \<Rightarrow> int list \<Rightarrow> int list" where
  "add_digit b ps = (if ps \<noteq> [] \<and> last ps \<ge> 0
     then butlast ps @ [sat_i64 (sat_i64 (last ps * 10) + digit b)] else ps @ [digit b])"

definition csi_dispatch :: "u8 \<Rightarrow> parser \<Rightarrow> action list \<times> parser" where
  "csi_dispatch b p = ([CsiDispatch (params p) (intermediates p) (ignore_flagged p) (ucast b) (private_prefix p)], reset p)"

definition esc_dispatch :: "u8 \<Rightarrow> parser \<Rightarrow> action list \<times> parser" where
  "esc_dispatch b p = ([EscDispatch (intermediates p) (ignore_flagged p) b], reset p)"

definition advance :: "u8 \<Rightarrow> parser \<Rightarrow> (action list \<times> parser) option" where
  "advance b p = (case p_state p of
     Ground \<Rightarrow>
       if control b then Some ([Execute b], p)
       else if b = 0x1B then Some ([], p\<lparr>p_state := Escape\<rparr>)
       else if within 0x20 0x7F b then Some ([Print (ucast b)], p)
       else if within 0x80 0xFF b then Some ([Print (ucast b)], p)
       else None
   | Escape \<Rightarrow> Some (
       if control b then ([Execute b], p)
       else if b = 0x1B then ([], p)
       else if within 0x20 0x2F b then ([], p\<lparr>intermediates := intermediates p @ [b], p_state := EscapeIntermediate\<rparr>)
       else if within 0x30 0x4F b \<or> within 0x51 0x57 b \<or> b = 0x59 \<or> b = 0x5A \<or> b = 0x5C \<or> within 0x60 0x7E b
       then esc_dispatch b p
       else if b = 0x50 then ([], p\<lparr>p_state := DcsEntry\<rparr>)
       else if b = 0x58 \<or> b = 0x5E \<or> b = 0x5F then ([], p\<lparr>p_state := SosPmapiString\<rparr>)
       else if b = 0x5B then ([], p\<lparr>p_state := CsiEntry\<rparr>)
       else if b = 0x5D then ([], p\<lparr>p_state := OscString\<rparr>)
       else ([], reset p))
   | EscapeIntermediate \<Rightarrow> Some (
       if control b then ([Execute b], p)
       else if within 0x20 0x2F b then ([], p\<lparr>intermediates := intermediates p @ [b]\<rparr>)
       else if within 0x30 0x7E b then esc_dispatch b p
       else ([], reset p))
   | CsiEntry \<Rightarrow> Some (
       if control b then ([Execute b], p)
       else if b = 0x1B then ([], p\<lparr>p_state := Escape\<rparr>)
       else if within 0x20 0x2F b then ([], p\<lparr>intermediates := intermediates p @ [b], p_state := CsiIntermediate\<rparr>)
       else if within 0x30 0x39 b \<or> b = 0x3B then
         ([], p\<lparr>params := (if b = 0x3B then params p @ [0, 0] else params p @ [digit b]), p_state := CsiParam\<rparr>)
       else if within 0x3C 0x3F b then ([], p\<lparr>private_prefix := Some (ucast b), p_state := CsiParam\<rparr>)
       else if within 0x40 0x7E b then csi_dispatch b p
       else ([], p\<lparr>p_state := CsiIgnore\<rparr>))
   | CsiParam \<Rightarrow> Some (
       if control b then ([Execute b], p)
       else if within 0x30 0x39 b then ([], p\<lparr>params := add_digit b (params p)\<rparr>)
       else if b = 0x3B then ([], p\<lparr>params := params p @ [0]\<rparr>)
       else if within 0x40 0x7E b then csi_dispatch b p
       else ([], p\<lparr>p_state := CsiIgnore\<rparr>))
   | CsiIntermediate \<Rightarrow> Some (
       if control b then ([Execute b], p)
       else if within 0x20 0x2F b then ([], p\<lparr>intermediates := intermediates p @ [b]\<rparr>)
       else if within 0x40 0x7E b then csi_dispatch b p
       else ([], p\<lparr>p_state := CsiIgnore\<rparr>))
   | CsiIgnore \<Rightarrow> Some (
       if control b then ([Execute b], p)
       else if within 0x40 0x7E b then ([], reset p)
       else ([], p))
   | OscString \<Rightarrow> Some (
       if b = 0x07 then ([OscEnd], reset p)
       else if b = 0x1B then ([], p\<lparr>p_state := Escape\<rparr>)
       else ([OscPut b], p))
   | _ \<Rightarrow> Some ([], reset p))"

fun advance_all :: "u8 list \<Rightarrow> parser \<Rightarrow> (action list \<times> parser) option" where
  "advance_all [] p = Some ([], p)"
| "advance_all (b # bs) p = (case advance b p of
     None \<Rightarrow> None
   | Some (as, p') \<Rightarrow> map_option (apfst (append as)) (advance_all bs p'))"

section \<open>Control sequences\<close>

text \<open>The bytes of a control sequence with numeric parameters: the digits, separated by semicolons.\<close>

fun decimal :: "nat \<Rightarrow> u8 list" where
  "decimal n = (if n < 10 then [0x30 + of_nat n] else decimal (n div 10) @ [0x30 + of_nat (n mod 10)])"

declare decimal.simps [simp del]

fun csi_args :: "nat list \<Rightarrow> u8 list" where
  "csi_args [] = []"
| "csi_args [n] = decimal n"
| "csi_args (n # ns) = decimal n @ 0x3B # csi_args ns"

definition csi_sequence :: "nat list \<Rightarrow> u8 \<Rightarrow> u8 list" where
  "csi_sequence ns final = [0x1B, 0x5B] @ csi_args ns @ [final]"

lemma append_nothing: "apfst (append []) = (\<lambda>x :: action list \<times> parser. x)"
  by (auto simp: fun_eq_iff)

lemma advance_silent: "advance b p = Some ([], p') \<Longrightarrow> advance_all (b # bs) p = advance_all bs p'"
  by (simp add: append_nothing option.map_ident)

lemma advance_all_append:
  "advance_all (xs @ ys) p = (case advance_all xs p of None \<Rightarrow> None
     | Some (as, p') \<Rightarrow> map_option (apfst (append as)) (advance_all ys p'))"
proof (induction xs arbitrary: p)
  case Nil
  then show ?case by (simp add: append_nothing option.map_ident)
next
  case (Cons x xs)
  have "apfst (append as) \<circ> apfst (append bs) = (apfst (append (as @ bs)) :: action list \<times> parser \<Rightarrow> _)" for as bs :: "action list"
    by (auto simp: fun_eq_iff)
  with Cons show ?case by (auto simp: option.map_comp split: option.splits)
qed

lemma digit_byte:
  assumes "k < 10"
  shows "digit (0x30 + of_nat k) = int k" "within 0x30 0x39 (0x30 + of_nat k)" "\<not> control (0x30 + of_nat k)"
    "(0x30 + of_nat k :: u8) \<noteq> 0x1B" "\<not> within 0x20 0x2F (0x30 + of_nat k)" "(0x30 + of_nat k :: u8) \<noteq> 0x3B"
proof -
  have "k = 0 \<or> k = 1 \<or> k = 2 \<or> k = 3 \<or> k = 4 \<or> k = 5 \<or> k = 6 \<or> k = 7 \<or> k = 8 \<or> k = 9" using assms by arith
  then show "digit (0x30 + of_nat k) = int k" "within 0x30 0x39 (0x30 + of_nat k)" "\<not> control (0x30 + of_nat k)"
    "(0x30 + of_nat k :: u8) \<noteq> 0x1B" "\<not> within 0x20 0x2F (0x30 + of_nat k)" "(0x30 + of_nat k :: u8) \<noteq> 0x3B"
    by (elim disjE; simp add: digit_def within_def control_def)+
qed

lemma sat_i64_id: "0 \<le> x \<Longrightarrow> x < 2 ^ 63 \<Longrightarrow> sat_i64 x = x"
  by (simp add: sat_i64_def)

text \<open>The digits of a number after a parameter that is zero.\<close>

lemma advance_decimal:
  assumes "p_state p = CsiParam" "params p = qs @ [0]" "n < 2 ^ 63"
  shows "advance_all (decimal n) p = Some ([], p\<lparr>params := qs @ [int n]\<rparr>)"
  using assms(3)
proof (induction n rule: decimal.induct)
  case (1 n)
  show ?case
  proof (cases "n < 10")
    case True
    then show ?thesis
      using assms(1,2) 1(2)
      by (simp add: decimal.simps [of n] advance_def digit_byte add_digit_def sat_i64_id)
  next
    case False
    have m: "n mod 10 < 10" by simp
    have eq: "int (n div 10) * 10 + int (n mod 10) = int n" by presburger
    have "int n < 2 ^ 63" using 1(2) by (metis of_nat_less_iff of_nat_numeral of_nat_power)
    then have "sat_i64 (sat_i64 (int (n div 10) * 10) + int (n mod 10)) = int n"
      using eq by (simp add: sat_i64_id)
    moreover have "advance_all (decimal (n div 10)) p = Some ([], p\<lparr>params := qs @ [int (n div 10)]\<rparr>)"
      using 1 False by simp
    ultimately show ?thesis
      using assms(1) False digit_byte [OF m] by (simp add: decimal.simps [of n] advance_all_append advance_def add_digit_def)
  qed
qed

text \<open>The first digit is taken in the state \<open>CsiEntry\<close>, as if a parameter zero had been started.\<close>

lemma decimal_head: "\<exists>k ds. k < 10 \<and> decimal n = (0x30 + of_nat k) # ds"
proof (induction n rule: decimal.induct)
  case (1 n)
  then show ?case by (cases "n < 10") (force simp: decimal.simps [of n])+
qed

lemma advance_first:
  assumes "p_state p = CsiEntry" "params p = []" "n < 2 ^ 63"
  shows "advance_all (decimal n) p = Some ([], p\<lparr>p_state := CsiParam, params := [int n]\<rparr>)"
proof -
  obtain k ds where d: "k < 10" "decimal n = (0x30 + of_nat k) # ds" using decimal_head by blast
  let ?p = "p\<lparr>p_state := CsiParam, params := [0]\<rparr>"
  have "advance (0x30 + of_nat k) p = advance (0x30 + of_nat k) ?p"
    using assms(1,2) digit_byte [OF d(1)] d(1) by (simp add: advance_def add_digit_def sat_i64_id)
  then have "advance_all (decimal n) p = advance_all (decimal n) ?p" by (simp add: d(2))
  also have "\<dots> = Some ([], p\<lparr>p_state := CsiParam, params := [int n]\<rparr>)"
    using advance_decimal [of ?p "[]" n] assms(3) by simp
  finally show ?thesis .
qed

lemma advance_args:
  assumes "p_state p = CsiParam" "params p = qs @ [0]" "ns \<noteq> []" "\<forall>n \<in> set ns. n < 2 ^ 63"
  shows "advance_all (csi_args ns) p = Some ([], p\<lparr>params := qs @ map int ns\<rparr>)"
  using assms
proof (induction ns arbitrary: p qs rule: csi_args.induct)
  case (3 n m ns)
  let ?p = "p\<lparr>params := qs @ [int n, 0]\<rparr>"
  have "advance 0x3B (p\<lparr>params := qs @ [int n]\<rparr>) = Some ([], ?p)"
    using 3(2) by (simp add: advance_def control_def within_def)
  moreover have "advance_all (csi_args (m # ns)) ?p = Some ([], ?p\<lparr>params := (qs @ [int n]) @ map int (m # ns)\<rparr>)"
    by (rule 3(1)) (use 3 in auto)
  ultimately show ?case
    using advance_decimal [OF 3(2,3), of n] 3(5) by (simp add: advance_all_append)
qed (use advance_decimal in auto)

text \<open>
  C13.  The parser reads back what a control sequence says: the bytes of a sequence with the numeric
  parameters \<open>ns\<close> and a final byte give exactly one action, with these parameters and this byte, and
  leave the parser in its initial state.
\<close>

theorem csi_roundtrip:
  assumes "ns \<noteq> []" "\<forall>n \<in> set ns. n < 2 ^ 63" "0x40 \<le> final" "final \<le> 0x7E"
  shows "advance_all (csi_sequence ns final) Parser_new =
    Some ([CsiDispatch (map int ns) [] False (ucast final) None], Parser_new)"
proof -
  let ?p = "Parser_new\<lparr>p_state := CsiEntry\<rparr>"
  have final: "\<not> control final" "\<not> within 0x30 0x39 final" "final \<noteq> 0x3B" "within 0x40 0x7E final"
    using assms(3,4) by (auto simp: control_def within_def word_le_nat_alt)
  have start: "advance_all ([0x1B, 0x5B] @ bs) Parser_new = advance_all bs ?p" for bs
    using advance_silent [of "0x1B" Parser_new "Parser_new\<lparr>p_state := Escape\<rparr>"]
      advance_silent [of "0x5B" "Parser_new\<lparr>p_state := Escape\<rparr>" ?p]
    by (simp add: advance_def Parser_new_def control_def within_def del: advance_all.simps)
  obtain n ms where ns: "ns = n # ms" using assms(1) by (cases ns) auto
  have "advance_all (csi_args ns) ?p = Some ([], ?p\<lparr>p_state := CsiParam, params := map int ns\<rparr>)"
  proof (cases ms)
    case Nil
    then show ?thesis using advance_first [of ?p n] ns assms(2) by (simp add: Parser_new_def)
  next
    case (Cons m ms')
    let ?q = "?p\<lparr>p_state := CsiParam, params := [int n, 0]\<rparr>"
    have "advance 0x3B (?p\<lparr>p_state := CsiParam, params := [int n]\<rparr>) = Some ([], ?q)"
      by (simp add: advance_def control_def within_def Parser_new_def)
    moreover have "advance_all (csi_args (m # ms')) ?q = Some ([], ?q\<lparr>params := [int n] @ map int (m # ms')\<rparr>)"
      by (rule advance_args) (use assms(2) ns Cons in auto)
    ultimately show ?thesis
      using advance_first [of ?p n] ns Cons assms(2) by (simp add: advance_all_append Parser_new_def)
  qed
  then show ?thesis
    unfolding csi_sequence_def start
    by (simp add: advance_all_append) (simp add: advance_def final csi_dispatch_def reset_def Parser_new_def)
qed

theorem csi_roundtrip_witness:
  "advance_all (csi_sequence [12, 40] 0x48) Parser_new = Some ([CsiDispatch [12, 40] [] False 0x48 None], Parser_new)"
  using csi_roundtrip [of "[12, 40]" "0x48"] by simp

end
