(* ===== verification/Vt_Screen.thy ===== *)
theory Vt_Screen
  imports Prelude
begin

text \<open>
  The screen of the terminal, \<^verbatim>\<open>src/lib_core/vt/screen.rs\<close>: a grid of cells in one vector, row by row,
  with a cursor and a saved cursor.  A function that panics has no result: an index outside of the
  vector, a subtraction below zero, or a vector with \<open>2 ^ 63\<close> or more elements, which no allocator
  gives.  Below that bound no sum or product of the code exceeds 64 bits, so that sizes and positions
  are natural numbers.  A character is its code.
\<close>

section \<open>Cells and screens\<close>

datatype color = Indexed u8 | RGB u8 u8 u8

record attr =
  fg :: color
  bg :: color
  bold :: bool
  underline :: bool
  blink :: bool
  reverse :: bool

definition Attr_default :: attr where
  "Attr_default = \<lparr>fg = Indexed 7, bg = Indexed 0, bold = False, underline = False, blink = False, reverse = False\<rparr>"

record cell =
  cell_char :: u32
  cell_attr :: attr

definition Cell_default :: cell where
  "Cell_default = \<lparr>cell_char = 0x20, cell_attr = Attr_default\<rparr>"

record screen =
  width :: nat
  height :: nat
  buffer :: "cell list"
  cursor_x :: nat
  cursor_y :: nat
  current_attr :: attr
  saved_cursor_x :: nat
  saved_cursor_y :: nat
  saved_attr :: attr

definition vec_len :: "nat \<Rightarrow> nat \<Rightarrow> nat option" where
  "vec_len w h = (if w * h < 2 ^ 63 then Some (w * h) else None)"

definition ScreenBuffer_new :: "nat \<Rightarrow> nat \<Rightarrow> screen option" where
  "ScreenBuffer_new w h = map_option (\<lambda>size. \<lparr>width = w, height = h, buffer = replicate size Cell_default,
     cursor_x = 0, cursor_y = 0, current_attr = Attr_default,
     saved_cursor_x = 0, saved_cursor_y = 0, saved_attr = Attr_default\<rparr>) (vec_len w h)"

text \<open>\<^verbatim>\<open>Vec::resize\<close> keeps a prefix or appends the given element.\<close>

definition vec_resize :: "nat \<Rightarrow> 'a \<Rightarrow> 'a list \<Rightarrow> 'a list" where
  "vec_resize n x xs = take n xs @ replicate (n - length xs) x"

definition screen_resize :: "nat \<Rightarrow> nat \<Rightarrow> screen \<Rightarrow> screen option" where
  "screen_resize w h s = map_option (\<lambda>size. s\<lparr>width := w, height := h, buffer := vec_resize size Cell_default (buffer s),
     cursor_x := (if cursor_x s \<ge> w then w - 1 else cursor_x s),
     cursor_y := (if cursor_y s \<ge> h then h - 1 else cursor_y s)\<rparr>) (vec_len w h)"

section \<open>Writing\<close>

text \<open>The loops of \<^verbatim>\<open>scroll_up\<close> and \<^verbatim>\<open>clear_line\<close> over indices of the vector.\<close>

fun copy_cells :: "(nat \<times> nat) list \<Rightarrow> 'a list \<Rightarrow> 'a list option" where
  "copy_cells [] b = Some b"
| "copy_cells ((d, s) # ps) b = (if d < length b \<and> s < length b then copy_cells ps (b[d := b ! s]) else None)"

fun fill_cells :: "nat list \<Rightarrow> 'a \<Rightarrow> 'a list \<Rightarrow> 'a list option" where
  "fill_cells [] c b = Some b"
| "fill_cells (i # is) c b = (if i < length b then fill_cells is c (b[i := c]) else None)"

definition blank :: "screen \<Rightarrow> cell" where
  "blank s = \<lparr>cell_char = 0x20, cell_attr = Attr_default\<lparr>bg := bg (current_attr s)\<rparr>\<rparr>"

definition scroll_up :: "screen \<Rightarrow> screen option" where
  "scroll_up s = (let row_count = height s; col_count = width s in
     if row_count = 0 then None else
     case copy_cells (concat (map (\<lambda>y. map (\<lambda>x. (y * col_count + x, (y + 1) * col_count + x)) [0..<col_count]) [0..<row_count - 1])) (buffer s) of
       None \<Rightarrow> None
     | Some b \<Rightarrow>
         map_option (\<lambda>b'. s\<lparr>buffer := b'\<rparr>) (fill_cells (map (\<lambda>x. (row_count - 1) * col_count + x) [0..<col_count]) (blank s) b))"

definition new_line :: "screen \<Rightarrow> screen option" where
  "new_line s = (let s1 = s\<lparr>cursor_x := 0, cursor_y := cursor_y s + 1\<rparr> in
     if cursor_y s1 \<ge> height s1
     then map_option (\<lambda>s2. s2\<lparr>cursor_y := height s2 - 1\<rparr>) (scroll_up s1)
     else Some s1)"

definition write_char :: "u32 \<Rightarrow> screen \<Rightarrow> screen option" where
  "write_char c s =
     (if c = 0x0A then new_line s
      else if c = 0x0D then Some (s\<lparr>cursor_x := 0\<rparr>)
      else if c = 0x08 then Some (if cursor_x s > 0 then s\<lparr>cursor_x := cursor_x s - 1\<rparr> else s)
      else map_option (\<lambda>s. let idx = cursor_y s * width s + cursor_x s in
             s\<lparr>buffer := (if idx < length (buffer s) then (buffer s)[idx := \<lparr>cell_char = c, cell_attr = current_attr s\<rparr>] else buffer s),
               cursor_x := cursor_x s + 1\<rparr>)
           (if cursor_x s \<ge> width s then new_line s else Some s))"

definition clear_screen :: "screen \<Rightarrow> screen" where
  "clear_screen s = s\<lparr>buffer := map (\<lambda>_. blank s) (buffer s), cursor_x := 0, cursor_y := 0\<rparr>"

definition clear_line :: "u8 \<Rightarrow> screen \<Rightarrow> screen option" where
  "clear_line mode s = (let row_start = cursor_y s * width s;
       clear = (\<lambda>xs. map_option (\<lambda>b. s\<lparr>buffer := b\<rparr>)
         (fill_cells (map (\<lambda>x. row_start + x) xs) \<lparr>cell_char = 0x20, cell_attr = current_attr s\<rparr> (buffer s)))
     in if mode = 0 then clear [cursor_x s..<width s]
        else if mode = 1 then clear [0..<cursor_x s + 1]
        else if mode = 2 then clear [0..<width s]
        else Some s)"

definition set_cursor :: "nat \<Rightarrow> nat \<Rightarrow> screen \<Rightarrow> screen" where
  "set_cursor x y s = s\<lparr>cursor_x := min x (width s - 1), cursor_y := min y (height s - 1)\<rparr>"

definition save_cursor :: "screen \<Rightarrow> screen" where
  "save_cursor s = s\<lparr>saved_cursor_x := cursor_x s, saved_cursor_y := cursor_y s, saved_attr := current_attr s\<rparr>"

definition restore_cursor :: "screen \<Rightarrow> screen" where
  "restore_cursor s = s\<lparr>cursor_x := saved_cursor_x s, cursor_y := saved_cursor_y s, current_attr := saved_attr s\<rparr>"

section \<open>The loops\<close>

lemma nested_index:
  "concat (map (\<lambda>y. map (\<lambda>x. f (y * w + x)) [0..<w]) [0..<m]) = map f [0..<m * (w :: nat)]"
proof (induction m)
  case (Suc m)
  have "map (\<lambda>x. f (m * w + x)) [0..<w] = map f [m * w..<m * w + w]"
    by (rule nth_equalityI) simp_all
  moreover have "[0..<m * w + w] = [0..<m * w] @ [m * w..<m * w + w]" by (rule upt_add_eq_append) simp
  ultimately show ?case using Suc by (simp add: add.commute [of w])
qed simp

lemma copy_down:
  assumes "n + w \<le> length b"
  shows "\<exists>b'. copy_cells (map (\<lambda>k. (k, k + w)) [i..<n]) b = Some b' \<and> length b' = length b \<and>
    (\<forall>j < length b. b' ! j = (if i \<le> j \<and> j < n then b ! (j + w) else b ! j))"
  using assms
proof (induction "n - i" arbitrary: i b)
  case (Suc k)
  let ?b = "b[i := b ! (i + w)]"
  have i: "i < n" using Suc(2) by simp
  have "k = n - Suc i" "n + w \<le> length ?b" using Suc(2,3) by simp_all
  from Suc(1) [OF this] obtain b' where b': "copy_cells (map (\<lambda>k. (k, k + w)) [Suc i..<n]) ?b = Some b'" "length b' = length ?b"
    "\<forall>j < length ?b. b' ! j = (if Suc i \<le> j \<and> j < n then ?b ! (j + w) else ?b ! j)" by blast
  have "\<forall>j < length b. b' ! j = (if i \<le> j \<and> j < n then b ! (j + w) else b ! j)"
    using b'(3) Suc(3) i by (auto simp: nth_list_update Suc_le_eq)
  then show ?case using b'(1,2) i Suc(3) by (simp add: upt_conv_Cons)
qed auto

lemma fill_run:
  assumes "i + n \<le> length b"
  shows "\<exists>b'. fill_cells (map (\<lambda>x. i + x) [m..<n]) c b = Some b' \<and> length b' = length b \<and>
    (\<forall>j < length b. b' ! j = (if i + m \<le> j \<and> j < i + n then c else b ! j))"
  using assms
proof (induction "n - m" arbitrary: m b)
  case (Suc k)
  let ?b = "b[i + m := c]"
  have m: "m < n" using Suc(2) by simp
  have "k = n - Suc m" "i + n \<le> length ?b" using Suc(2,3) by simp_all
  from Suc(1) [OF this] obtain b' where b': "fill_cells (map (\<lambda>x. i + x) [Suc m..<n]) c ?b = Some b'" "length b' = length ?b"
    "\<forall>j < length ?b. b' ! j = (if i + Suc m \<le> j \<and> j < i + n then c else ?b ! j)" by blast
  have "\<forall>j < length b. b' ! j = (if i + m \<le> j \<and> j < i + n then c else b ! j)"
    using b'(3) Suc(3) m by (auto simp: nth_list_update Suc_le_eq)
  then show ?case using b'(1,2) m Suc(3) by (simp add: upt_conv_Cons)
qed auto

lemma scroll_up_eq:
  assumes "length (buffer s) = width s * height s" "0 < height s"
  shows "scroll_up s = Some (s\<lparr>buffer := drop (width s) (buffer s) @ replicate (width s) (blank s)\<rparr>)"
proof -
  let ?w = "width s" and ?n = "(height s - 1) * width s"
  have len: "?n + ?w = length (buffer s)" using assms by (cases "height s") (simp_all add: mult.commute)
  have idx: "concat (map (\<lambda>y. map (\<lambda>x. (y * ?w + x, (y + 1) * ?w + x)) [0..<?w]) [0..<height s - 1]) = map (\<lambda>k. (k, k + ?w)) [0..<?n]"
    using nested_index [of "\<lambda>k. (k, k + ?w)" ?w "height s - 1"] by (simp add: algebra_simps)
  from copy_down [of ?n ?w "buffer s" 0] len obtain b where
    b: "copy_cells (map (\<lambda>k. (k, k + ?w)) [0..<?n]) (buffer s) = Some b" "length b = length (buffer s)"
       "\<forall>j < length (buffer s). b ! j = (if j < ?n then buffer s ! (j + ?w) else buffer s ! j)" by auto
  from fill_run [of ?n ?w b 0 "blank s"] len b(2) obtain b' where
    b': "fill_cells (map (\<lambda>x. ?n + x) [0..<?w]) (blank s) b = Some b'" "length b' = length b"
       "\<forall>j < length b. b' ! j = (if ?n \<le> j \<and> j < ?n + ?w then blank s else b ! j)" by auto
  have "b' = drop ?w (buffer s) @ replicate ?w (blank s)"
    by (rule nth_equalityI) (use len b(2,3) b'(2,3) in \<open>auto simp: nth_append add.commute\<close>)
  then show ?thesis using assms(2) b(1) b'(1) unfolding scroll_up_def Let_def idx by simp
qed

text \<open>
  C29.  Scrolling by the two nested loops moves every row up by one and blanks the last row: the new
  vector is the old one without its first row and with a blank row at the end.
\<close>

theorem scroll_up_shifts:
  assumes "length (buffer s) = width s * height s" "0 < height s"
  shows "scroll_up s = Some (s\<lparr>buffer := drop (width s) (buffer s) @ replicate (width s) (blank s)\<rparr>)"
  using assms by (rule scroll_up_eq)

theorem scroll_up_shifts_witness:
  "scroll_up \<lparr>width = 1, height = 2, buffer = [\<lparr>cell_char = 65, cell_attr = Attr_default\<rparr>, \<lparr>cell_char = 66, cell_attr = Attr_default\<rparr>],
      cursor_x = 0, cursor_y = 1, current_attr = Attr_default, saved_cursor_x = 0, saved_cursor_y = 0, saved_attr = Attr_default\<rparr> =
    Some \<lparr>width = 1, height = 2, buffer = [\<lparr>cell_char = 66, cell_attr = Attr_default\<rparr>, Cell_default],
      cursor_x = 0, cursor_y = 1, current_attr = Attr_default, saved_cursor_x = 0, saved_cursor_y = 0, saved_attr = Attr_default\<rparr>"
  by (subst scroll_up_shifts) (simp_all add: blank_def Cell_default_def Attr_default_def)

section \<open>The invariant\<close>

text \<open>
  The vector has a cell for every position.  The cursor is on the screen or, after the last column was
  written, just behind its row.
\<close>

definition screen_ok :: "nat \<Rightarrow> nat \<Rightarrow> screen \<Rightarrow> bool" where
  "screen_ok w h s = (width s = w \<and> height s = h \<and> 0 < w \<and> 0 < h \<and> w * h < 2 ^ 63 \<and> length (buffer s) = w * h \<and>
     cursor_x s \<le> w \<and> cursor_y s < h \<and> saved_cursor_x s \<le> w \<and> saved_cursor_y s < h)"

lemma screen_ok_new: "0 < w \<Longrightarrow> 0 < h \<Longrightarrow> w * h < 2 ^ 63 \<Longrightarrow> \<exists>s. ScreenBuffer_new w h = Some s \<and> screen_ok w h s"
  by (simp add: ScreenBuffer_new_def vec_len_def screen_ok_def)

lemma row_end: "y < h \<Longrightarrow> y * w + w \<le> w * (h :: nat)"
  by (metis Suc_leI add.commute mult.commute mult_Suc mult_le_mono2)

lemma new_line_ok:
  assumes "screen_ok w h s"
  shows "\<exists>s'. new_line s = Some s' \<and> screen_ok w h s' \<and> cursor_x s' = 0"
  using assms scroll_up_eq [of "s\<lparr>cursor_x := 0, cursor_y := cursor_y s + 1\<rparr>"]
  by (auto simp: new_line_def Let_def screen_ok_def)

lemma write_char_ok:
  assumes "screen_ok w h s"
  shows "\<exists>s'. write_char c s = Some s' \<and> screen_ok w h s'"
proof -
  obtain s1 where s1: "new_line s = Some s1" "screen_ok w h s1" "cursor_x s1 = 0" using new_line_ok [OF assms] by blast
  then show ?thesis
    using assms by (auto simp: write_char_def Let_def screen_ok_def)
qed

lemma clear_line_ok:
  assumes "screen_ok w h s" "mode = 1 \<longrightarrow> \<not> (cursor_x s = w \<and> cursor_y s = h - 1)"
  shows "\<exists>s'. clear_line mode s = Some s' \<and> screen_ok w h s'"
proof -
  let ?fill = "\<lambda>m n. fill_cells (map (\<lambda>x. cursor_y s * width s + x) [m..<n]) \<lparr>cell_char = 0x20, cell_attr = current_attr s\<rparr> (buffer s)"
  have row: "cursor_y s * w + w \<le> length (buffer s)" using assms(1) row_end [of "cursor_y s" h w] by (simp add: screen_ok_def)
  have fill: "\<exists>b. ?fill m n = Some b \<and> length b = length (buffer s)" if "cursor_y s * w + n \<le> length (buffer s)" for m n
    using fill_run [of "cursor_y s * w" n "buffer s" m] that assms(1) by (auto simp: screen_ok_def)
  have "cursor_y s * w + (cursor_x s + 1) \<le> length (buffer s)" if "mode = 1"
  proof (cases "cursor_x s = w")
    case True
    then have "cursor_y s + 1 < h" using assms that by (auto simp: screen_ok_def)
    from row_end [OF this, of w] show ?thesis using True assms(1) by (simp add: screen_ok_def)
  next
    case False
    then show ?thesis using row assms(1) by (simp add: screen_ok_def)
  qed
  then show ?thesis
    using assms(1) fill [of w "cursor_x s"] fill [of "cursor_x s + 1" 0] fill [of w 0] row
    by (auto simp: clear_line_def Let_def screen_ok_def)
qed

text \<open>Erasing to the cursor panics when the cursor is behind the last row.\<close>

lemma clear_line_panics:
  assumes "screen_ok w h s" "cursor_x s = w" "cursor_y s = h - 1"
  shows "clear_line 1 s = None"
proof -
  have "length (buffer s) = cursor_y s * width s + w" using assms by (cases h) (auto simp: screen_ok_def mult.commute)
  moreover have "fill_cells is c b = None" if "\<exists>i \<in> set is. length b \<le> i" for "is" c and b :: "cell list"
    using that
  proof (induction "is" arbitrary: b)
    case (Cons i "is")
    then show ?case by (auto intro!: Cons.IH)
  qed simp
  ultimately show ?thesis using assms(2) by (auto simp: clear_line_def Let_def)
qed

lemma other_ops_ok:
  assumes "screen_ok w h s"
  shows "screen_ok w h (clear_screen s)" "screen_ok w h (set_cursor x y s)" "screen_ok w h (save_cursor s)" "screen_ok w h (restore_cursor s)"
  using assms by (auto simp: screen_ok_def clear_screen_def set_cursor_def save_cursor_def restore_cursor_def)

lemma resize_ok:
  assumes "screen_ok w h s" "0 < w'" "0 < h'" "w' * h' < 2 ^ 63" "saved_cursor_x s \<le> w'" "saved_cursor_y s < h'"
  shows "\<exists>s'. screen_resize w' h' s = Some s' \<and> screen_ok w' h' s'"
  using assms by (auto simp: screen_resize_def vec_len_def vec_resize_def screen_ok_def)

end
