(* ===== verification/Vt_Terminal.thy ===== *)
theory Vt_Terminal
  imports Vt_Parser Vt_Screen
begin

text \<open>
  The terminal, \<^verbatim>\<open>src/lib_core/vt/mod.rs\<close>: the bytes go through the parser, and its actions change one
  of two screens.  A step that panics has no result; additions that do not fit 64 bits panic, as in the
  development profile of the build.  The driver of \<^verbatim>\<open>render\<close> is represented by the calls it gets.
\<close>

section \<open>Operations\<close>

record vt_terminal =
  vt_parser :: parser
  primary_buffer :: screen
  alternate_buffer :: screen
  is_alternate :: bool
  vt_width :: nat
  vt_height :: nat
  mouse_reporting :: bool
  bracketed_paste :: bool
  osc_buffer :: "u8 list"

definition VtTerminal_new :: "nat \<Rightarrow> nat \<Rightarrow> vt_terminal option" where
  "VtTerminal_new w h = map_option (\<lambda>s. \<lparr>vt_parser = Parser_new, primary_buffer = s, alternate_buffer = s, is_alternate = False,
     vt_width = w, vt_height = h, mouse_reporting = False, bracketed_paste = False, osc_buffer = []\<rparr>) (ScreenBuffer_new w h)"

definition vt_resize :: "nat \<Rightarrow> nat \<Rightarrow> vt_terminal \<Rightarrow> vt_terminal option" where
  "vt_resize w h t = (case screen_resize w h (primary_buffer t) of
     None \<Rightarrow> None
   | Some p \<Rightarrow> map_option (\<lambda>a. t\<lparr>vt_width := w, vt_height := h, primary_buffer := p, alternate_buffer := a\<rparr>)
       (screen_resize w h (alternate_buffer t)))"

definition active :: "vt_terminal \<Rightarrow> screen" where
  "active t = (if is_alternate t then alternate_buffer t else primary_buffer t)"

definition set_active :: "screen \<Rightarrow> vt_terminal \<Rightarrow> vt_terminal" where
  "set_active s t = (if is_alternate t then t\<lparr>alternate_buffer := s\<rparr> else t\<lparr>primary_buffer := s\<rparr>)"

datatype draw_call = Draw_cell nat nat cell | Move_cursor nat nat

definition render :: "vt_terminal \<Rightarrow> draw_call list" where
  "render t = (let s = active t in
     concat (map (\<lambda>y. concat (map (\<lambda>x. let idx = y * vt_width t + x in
       if idx < length (buffer s) then [Draw_cell x y (buffer s ! idx)] else []) [0..<vt_width t])) [0..<vt_height t]) @
     [Move_cursor (cursor_x s) (cursor_y s)])"

text \<open>The number before the first semicolon of an OSC string; nothing is done with it.\<close>

fun osc_number :: "u8 list \<Rightarrow> nat \<Rightarrow> nat option" where
  "osc_number [] cmd = Some cmd"
| "osc_number (d # ds) cmd =
     (if 0x30 \<le> d \<and> d \<le> 0x39
      then if cmd * 10 + unat (d - 0x30) < 2 ^ 64 then osc_number ds (cmd * 10 + unat (d - 0x30)) else None
      else osc_number ds cmd)"

definition handle_osc :: "vt_terminal \<Rightarrow> vt_terminal option" where
  "handle_osc t = map_option (\<lambda>_. t) (osc_number (takeWhile (\<lambda>b. b \<noteq> 0x3B) (osc_buffer t)) 0)"

definition mode_param :: "bool \<Rightarrow> int \<Rightarrow> vt_terminal \<Rightarrow> vt_terminal" where
  "mode_param on par t =
     (if par = 47 \<or> par = 1047 \<or> par = 1049 then
        if on then
          let t1 = t\<lparr>is_alternate := True\<rparr> in
          if par = 1049 then t1\<lparr>primary_buffer := save_cursor (primary_buffer t1), alternate_buffer := clear_screen (alternate_buffer t1)\<rparr> else t1
        else
          let t1 = t\<lparr>is_alternate := False\<rparr> in
          if par = 1049 then t1\<lparr>primary_buffer := restore_cursor (primary_buffer t1)\<rparr> else t1
      else if par = 1000 \<or> par = 1002 \<or> par = 1006 \<or> par = 1015 then t\<lparr>mouse_reporting := on\<rparr>
      else if par = 2004 then t\<lparr>bracketed_paste := on\<rparr>
      else t)"

definition handle_mode :: "int list \<Rightarrow> u32 option \<Rightarrow> bool \<Rightarrow> vt_terminal \<Rightarrow> vt_terminal" where
  "handle_mode ps private on t = (if private = Some 0x3F then fold (mode_param on) ps t else t)"

text \<open>
  The colour after 38 or 48: the rest of the parameters after it, or nothing when it is not complete.
\<close>

fun extended :: "int list \<Rightarrow> (color \<times> int list) option" where
  "extended (m # c # rest) =
     (if m = 5 then Some (Indexed (word_of_int c), rest)
      else if m = 2 then (case rest of
          g # b # rest' \<Rightarrow> Some (RGB (word_of_int c) (word_of_int g) (word_of_int b), rest') | _ \<Rightarrow> None)
      else None)"
| "extended _ = None"

lemma extended_shorter: "extended ps = Some (c, rest) \<Longrightarrow> length rest < length ps"
  by (induction ps rule: extended.induct) (auto split: if_splits list.splits)

definition sgr_param :: "int \<Rightarrow> attr \<Rightarrow> attr" where
  "sgr_param p a =
     (if p = 0 then Attr_default
      else if p = 1 then a\<lparr>bold := True\<rparr>
      else if p = 4 then a\<lparr>underline := True\<rparr>
      else if p = 5 then a\<lparr>blink := True\<rparr>
      else if p = 7 then a\<lparr>reverse := True\<rparr>
      else if 30 \<le> p \<and> p \<le> 37 then a\<lparr>fg := Indexed (word_of_int (p - 30))\<rparr>
      else if 40 \<le> p \<and> p \<le> 47 then a\<lparr>bg := Indexed (word_of_int (p - 40))\<rparr>
      else if 90 \<le> p \<and> p \<le> 97 then a\<lparr>fg := Indexed (word_of_int (p - 90 + 8))\<rparr>
      else if 100 \<le> p \<and> p \<le> 107 then a\<lparr>bg := Indexed (word_of_int (p - 100 + 8))\<rparr>
      else a)"

function sgr :: "int list \<Rightarrow> attr \<Rightarrow> attr" where
  "sgr [] a = a"
| "sgr (p # ps) a =
     (if p = 38 then (case extended ps of None \<Rightarrow> sgr ps a | Some (c, rest) \<Rightarrow> sgr rest (a\<lparr>fg := c\<rparr>))
      else if p = 48 then (case extended ps of None \<Rightarrow> sgr ps a | Some (c, rest) \<Rightarrow> sgr rest (a\<lparr>bg := c\<rparr>))
      else sgr ps (sgr_param p a))"
  by pat_completeness auto

termination sgr
  by (relation "measure (\<lambda>(ps, _). length ps)") (auto dest: extended_shorter)

text \<open>\<^verbatim>\<open>params.get(i).cloned().unwrap_or(d)\<close>, and the counts, which are at least one.\<close>

definition param :: "int list \<Rightarrow> nat \<Rightarrow> int \<Rightarrow> int" where
  "param ps i d = (if i < length ps then ps ! i else d)"

definition count :: "int list \<Rightarrow> nat \<Rightarrow> nat" where
  "count ps i = nat (max (param ps i 1) 1)"

definition checked_add :: "nat \<Rightarrow> nat \<Rightarrow> nat option" where
  "checked_add a b = (if a + b < 2 ^ 64 then Some (a + b) else None)"

definition screen_csi :: "int list \<Rightarrow> u32 \<Rightarrow> screen \<Rightarrow> screen option" where
  "screen_csi ps c s =
     (if c = 0x41 then Some (s\<lparr>cursor_y := cursor_y s - count ps 0\<rparr>)
      else if c = 0x42 then (if height s = 0 then None else
        map_option (\<lambda>n. s\<lparr>cursor_y := min n (height s - 1)\<rparr>) (checked_add (cursor_y s) (count ps 0)))
      else if c = 0x43 then (if width s = 0 then None else
        map_option (\<lambda>n. s\<lparr>cursor_x := min n (width s - 1)\<rparr>) (checked_add (cursor_x s) (count ps 0)))
      else if c = 0x44 then Some (s\<lparr>cursor_x := cursor_x s - count ps 0\<rparr>)
      else if c = 0x48 \<or> c = 0x66 then Some (set_cursor (count ps 1 - 1) (count ps 0 - 1) s)
      else if c = 0x4A then Some (if word_of_int (param ps 0 0) = (2 :: u8) then clear_screen s else s)
      else if c = 0x4B then clear_line (word_of_int (param ps 0 0)) s
      else if c = 0x6D then Some (s\<lparr>current_attr := sgr ps (current_attr s)\<rparr>)
      else if c = 0x73 then Some (save_cursor s)
      else if c = 0x75 then Some (restore_cursor s)
      else Some s)"

definition handle_csi :: "int list \<Rightarrow> u32 option \<Rightarrow> u32 \<Rightarrow> vt_terminal \<Rightarrow> vt_terminal option" where
  "handle_csi ps private c t =
     (if c = 0x68 \<or> c = 0x6C then Some (handle_mode ps private (c = 0x68) t)
      else map_option (\<lambda>s. set_active s t) (screen_csi ps c (active t)))"

definition screen_execute :: "u8 \<Rightarrow> screen \<Rightarrow> screen option" where
  "screen_execute b s =
     (if b = 0x08 then Some (if cursor_x s > 0 then s\<lparr>cursor_x := cursor_x s - 1\<rparr> else s)
      else if b = 0x0A \<or> b = 0x0B \<or> b = 0x0C then new_line s
      else if b = 0x0D then Some (s\<lparr>cursor_x := 0\<rparr>)
      else Some s)"

definition screen_escape :: "u8 list \<Rightarrow> u8 \<Rightarrow> screen \<Rightarrow> screen option" where
  "screen_escape ims b s =
     (if ims \<noteq> [] then Some s
      else if b = 0x45 then new_line s
      else if b = 0x4D then Some (s\<lparr>cursor_y := cursor_y s - 1\<rparr>)
      else Some s)"

fun handle_action :: "action \<Rightarrow> vt_terminal \<Rightarrow> vt_terminal option" where
  "handle_action OscStart t = Some (t\<lparr>osc_buffer := []\<rparr>)"
| "handle_action (OscPut b) t = Some (t\<lparr>osc_buffer := osc_buffer t @ [b]\<rparr>)"
| "handle_action OscEnd t = handle_osc t"
| "handle_action (Print c) t = map_option (\<lambda>s. set_active s t) (write_char c (active t))"
| "handle_action (Execute b) t = map_option (\<lambda>s. set_active s t) (screen_execute b (active t))"
| "handle_action (CsiDispatch ps _ _ c private) t = handle_csi ps private c t"
| "handle_action (EscDispatch ims _ b) t = map_option (\<lambda>s. set_active s t) (screen_escape ims b (active t))"
| "handle_action (Hook _ _ _) t = Some t"
| "handle_action (Put _) t = Some t"

fun handle_actions :: "action list \<Rightarrow> vt_terminal \<Rightarrow> vt_terminal option" where
  "handle_actions [] t = Some t"
| "handle_actions (a # as) t = (case handle_action a t of None \<Rightarrow> None | Some t' \<Rightarrow> handle_actions as t')"

definition process_byte :: "u8 \<Rightarrow> vt_terminal \<Rightarrow> vt_terminal option" where
  "process_byte b t = (case advance b (vt_parser t) of
     None \<Rightarrow> None
   | Some (as, p) \<Rightarrow> handle_actions as (t\<lparr>vt_parser := p\<rparr>))"

fun process_bytes :: "u8 list \<Rightarrow> vt_terminal \<Rightarrow> vt_terminal option" where
  "process_bytes [] t = Some t"
| "process_bytes (b # bs) t = (case process_byte b t of None \<Rightarrow> None | Some t' \<Rightarrow> process_bytes bs t')"

section \<open>The terminal keeps its screens\<close>

definition parser_ok :: "parser \<Rightarrow> bool" where
  "parser_ok p = (\<forall>x \<in> set (params p). 0 \<le> x \<and> x < 2 ^ 63)"

definition vt_ok :: "vt_terminal \<Rightarrow> bool" where
  "vt_ok t = (parser_ok (vt_parser t) \<and> screen_ok (vt_width t) (vt_height t) (primary_buffer t) \<and>
     screen_ok (vt_width t) (vt_height t) (alternate_buffer t))"

fun action_ok :: "action \<Rightarrow> bool" where
  "action_ok (CsiDispatch ps _ _ _ _) = (\<forall>x \<in> set ps. 0 \<le> x \<and> x < 2 ^ 63)"
| "action_ok _ = True"

lemma digit_range: "0 \<le> digit b" "digit b < 256"
  using uint_lt2p [of "b - 0x30"] by (simp_all add: digit_def)

lemma sat_range: "0 \<le> x \<Longrightarrow> 0 \<le> sat_i64 x \<and> sat_i64 x < 2 ^ 63"
  by (simp add: sat_i64_def)

lemma add_digit_range: "\<forall>x \<in> set ps. 0 \<le> x \<and> x < 2 ^ 63 \<Longrightarrow> x \<in> set (add_digit b ps) \<Longrightarrow> 0 \<le> x \<and> x < 2 ^ 63"
  using digit_range [of b] sat_range [of "last ps * 10"] sat_range [of "sat_i64 (last ps * 10) + digit b"]
  by (auto simp: add_digit_def dest: in_set_butlastD split: if_splits)

lemma advance_ok:
  assumes "parser_ok p" "advance b p = Some (as, p')"
  shows "parser_ok p' \<and> (\<forall>a \<in> set as. action_ok a)"
proof -
  have d: "\<forall>x \<in> set (params p). 0 \<le> x \<and> x < 2 ^ 63" using assms(1) by (simp add: parser_ok_def)
  show ?thesis
    using assms(2) d add_digit_range [OF d] digit_range [of b]
    by (cases "p_state p") (auto simp: advance_def parser_ok_def reset_def csi_dispatch_def esc_dispatch_def split: if_splits)
qed

lemma active_ok: "vt_ok t \<Longrightarrow> screen_ok (vt_width t) (vt_height t) (active t)"
  by (simp add: vt_ok_def active_def)

lemma set_active_ok: "vt_ok t \<Longrightarrow> screen_ok (vt_width t) (vt_height t) s \<Longrightarrow> vt_ok (set_active s t)"
  by (simp add: vt_ok_def set_active_def)

lemma count_range: "\<forall>x \<in> set ps. 0 \<le> x \<and> x < 2 ^ 63 \<Longrightarrow> count ps i < 2 ^ 63"
  by (auto simp: count_def param_def nat_less_iff)

text \<open>The actions that panic.\<close>

fun panics :: "vt_terminal \<Rightarrow> action \<Rightarrow> bool" where
  "panics t (CsiDispatch ps _ _ c _) = (c = 0x4B \<and> word_of_int (param ps 0 0) = (1 :: u8) \<and>
     cursor_x (active t) = vt_width t \<and> cursor_y (active t) = vt_height t - 1)"
| "panics t OscEnd = (osc_number (takeWhile (\<lambda>b. b \<noteq> 0x3B) (osc_buffer t)) 0 = None)"
| "panics t _ = False"

lemma screen_csi_ok:
  assumes "screen_ok w h s" "\<forall>x \<in> set ps. 0 \<le> x \<and> x < 2 ^ 63"
    and "\<not> (c = 0x4B \<and> word_of_int (param ps 0 0) = (1 :: u8) \<and> cursor_x s = w \<and> cursor_y s = h - 1)"
  shows "\<exists>s'. screen_csi ps c s = Some s' \<and> screen_ok w h s'"
proof -
  have n: "count ps 0 < 2 ^ 63" by (rule count_range [OF assms(2)])
  have "w \<le> w * h" "h \<le> w * h" using assms(1) by (simp_all add: screen_ok_def)
  then have "w < 2 ^ 63" "h < 2 ^ 63" using assms(1) unfolding screen_ok_def by linarith+
  then have add: "checked_add (cursor_y s) (count ps 0) = Some (cursor_y s + count ps 0)"
    "checked_add (cursor_x s) (count ps 0) = Some (cursor_x s + count ps 0)"
    using n assms(1) by (simp_all add: checked_add_def screen_ok_def)
  have line: "\<exists>s'. clear_line (word_of_int (param ps 0 0)) s = Some s' \<and> screen_ok w h s'" if "c = 0x4B"
    by (rule clear_line_ok [OF assms(1)]) (use assms(3) that in auto)
  show ?thesis
    using assms(1) add line other_ops_ok [OF assms(1)] by (auto simp: screen_csi_def screen_ok_def)
qed

lemma mode_ok: "vt_ok t \<Longrightarrow> vt_ok (handle_mode ps private on t)"
proof -
  have "vt_ok (mode_param on p t)" if "vt_ok t" for p t
    using that other_ops_ok by (auto simp: mode_param_def vt_ok_def Let_def)
  then have "vt_ok (fold (mode_param on) ps t)" if "vt_ok t" for t
    using that by (induction ps arbitrary: t) auto
  then show "vt_ok t \<Longrightarrow> vt_ok (handle_mode ps private on t)" by (simp add: handle_mode_def)
qed

lemma handle_action_ok:
  assumes "vt_ok t" "action_ok a" "\<not> panics t a"
  shows "\<exists>t'. handle_action a t = Some t' \<and> vt_ok t'"
proof -
  note s = active_ok [OF assms(1)]
  have set: "\<exists>t'. map_option (\<lambda>s. set_active s t) m = Some t' \<and> vt_ok t'"
    if "\<exists>s. m = Some s \<and> screen_ok (vt_width t) (vt_height t) s" for m
    using that set_active_ok [OF assms(1)] by auto
  show ?thesis
  proof (cases a)
    case (Print c)
    then show ?thesis using set [OF write_char_ok [OF s]] by simp
  next
    case (Execute b)
    have "\<exists>s'. screen_execute b (active t) = Some s' \<and> screen_ok (vt_width t) (vt_height t) s'"
      using s new_line_ok [OF s] by (auto simp: screen_execute_def screen_ok_def)
    then show ?thesis using set Execute by simp
  next
    case (EscDispatch ims g b)
    have "\<exists>s'. screen_escape ims b (active t) = Some s' \<and> screen_ok (vt_width t) (vt_height t) s'"
      using s new_line_ok [OF s] by (auto simp: screen_escape_def screen_ok_def)
    then show ?thesis using set EscDispatch by simp
  next
    case (CsiDispatch ps ims g c pr)
    then show ?thesis
      using set [OF screen_csi_ok [OF s, of ps c]] assms mode_ok by (auto simp: handle_csi_def)
  qed (use assms in \<open>auto simp: vt_ok_def handle_osc_def\<close>)
qed

lemma handle_action_panics: "vt_ok t \<Longrightarrow> panics t a \<Longrightarrow> handle_action a t = None"
  by (cases a) (auto simp: handle_csi_def screen_csi_def handle_osc_def dest!: active_ok intro: clear_line_panics)

lemma advance_short: "advance b p = Some (as, p') \<Longrightarrow> as = [] \<or> (\<exists>a. as = [a])"
  by (cases "p_state p") (auto simp: advance_def csi_dispatch_def esc_dispatch_def split: if_splits)

lemma vt_ok_parser: "vt_ok t \<Longrightarrow> parser_ok p \<Longrightarrow> vt_ok (t\<lparr>vt_parser := p\<rparr>)"
  by (simp add: vt_ok_def)

lemma panics_parser: "panics (t\<lparr>vt_parser := p\<rparr>) a = panics t a"
  by (cases a) (simp_all add: active_def)

text \<open>
  C5.  Every byte that the parser takes keeps the terminal well formed: both vectors have a cell for
  every position and the cursors stay on the screen or just behind a row.  The terminal panics in two
  cases and only in them: the sequence that erases a line up to the cursor when the cursor is behind
  the last row, and an OSC string whose number does not fit 64 bits.
\<close>

theorem process_byte_safe:
  assumes "vt_ok t" "advance b (vt_parser t) = Some (as, p)"
  shows "(process_byte b t = None \<longleftrightarrow> (\<exists>a \<in> set as. panics t a)) \<and> (\<forall>t'. process_byte b t = Some t' \<longrightarrow> vt_ok t')"
proof -
  have p: "parser_ok p" "\<forall>a \<in> set as. action_ok a"
    using advance_ok [OF _ assms(2)] assms(1) by (simp_all add: vt_ok_def)
  note t = vt_ok_parser [OF assms(1) p(1)]
  consider "as = []" | a where "as = [a]" using advance_short [OF assms(2)] by auto
  then show ?thesis
  proof cases
    case 1
    then show ?thesis using t assms(2) by (simp add: process_byte_def)
  next
    case (2 a)
    then have r: "process_byte b t = handle_action a (t\<lparr>vt_parser := p\<rparr>)"
      using assms(2) by (simp add: process_byte_def split: option.split)
    show ?thesis
    proof (cases "panics t a")
      case True
      then show ?thesis using handle_action_panics [OF t, of a] 2 r by (simp add: panics_parser)
    next
      case False
      then show ?thesis using handle_action_ok [OF t, of a] 2 r p(2) by (auto simp: panics_parser)
    qed
  qed
qed

text \<open>Printing on a screen with one cell, and then erasing the line up to the cursor.\<close>

definition demo_vt :: vt_terminal where
  "demo_vt = the (process_bytes [0x41, 0x1B, 0x5B, 0x31] (the (VtTerminal_new 1 1)))"

lemma demo_vt_eq:
  "demo_vt = \<lparr>vt_parser = Parser_new\<lparr>p_state := CsiParam, params := [1]\<rparr>,
     primary_buffer = \<lparr>width = 1, height = 1, buffer = [\<lparr>cell_char = 0x41, cell_attr = Attr_default\<rparr>], cursor_x = 1, cursor_y = 0,
       current_attr = Attr_default, saved_cursor_x = 0, saved_cursor_y = 0, saved_attr = Attr_default\<rparr>,
     alternate_buffer = \<lparr>width = 1, height = 1, buffer = [Cell_default], cursor_x = 0, cursor_y = 0,
       current_attr = Attr_default, saved_cursor_x = 0, saved_cursor_y = 0, saved_attr = Attr_default\<rparr>,
     is_alternate = False, vt_width = 1, vt_height = 1, mouse_reporting = False, bracketed_paste = False, osc_buffer = []\<rparr>"
  by (simp add: demo_vt_def VtTerminal_new_def ScreenBuffer_new_def vec_len_def process_byte_def advance_def Parser_new_def
    control_def within_def digit_def active_def set_active_def write_char_def Let_def)

theorem process_byte_safe_witness: "process_byte 0x4B demo_vt = None"
proof -
  have "vt_ok demo_vt" by (simp add: demo_vt_eq vt_ok_def screen_ok_def parser_ok_def Parser_new_def)
  moreover have "advance 0x4B (vt_parser demo_vt) = Some ([CsiDispatch [1] [] False 0x4B None], Parser_new)"
    by (simp add: demo_vt_eq advance_def Parser_new_def control_def within_def csi_dispatch_def reset_def)
  ultimately show ?thesis
    using process_byte_safe [of demo_vt "0x4B"] by (simp add: param_def active_def demo_vt_eq)
qed

end
