(* ===== verification/Shell_Tokens.thy ===== *)
theory Shell_Tokens
  imports Prelude
begin

text \<open>
  The tokenizer of the shell, \<^verbatim>\<open>src/userspace/shell/tokenizer.rs\<close>.  The input is a list of bytes; the
  fields \<^verbatim>\<open>pos\<close> and \<^verbatim>\<open>start\<close> are arguments and results of the functions.  The text of a token is the
  bytes between them, which the input, a valid string, makes a string.  The main loop and the loop over
  nested parentheses may run forever; then the model has no result, as when the depth counter of 32 bits
  overflows, which panics in the development profile.
\<close>

section \<open>Tokens\<close>

datatype token_type = T_Word | T_Assignment | T_Number | T_Pipe | T_And | T_Or | T_Semicolon | T_Ampersand
  | T_RedirectIn | T_RedirectOut | T_Append | T_RedirectErr | T_RedirectErrOut | T_DupIn | T_DupOut | T_HereDoc | T_Clobber
  | T_LParen | T_RParen | T_LBrace | T_RBrace
  | T_If | T_Then | T_Else | T_Elif | T_Fi | T_Case | T_Esac | T_For | T_While | T_Until | T_Do | T_Done | T_In | T_Function | T_Bang
  | T_Newline | T_Eof | T_Error

record token =
  token_type :: token_type
  tok_text :: bytes
  tok_start :: nat
  tok_end :: nat
  is_quoted :: bool
  is_function_name :: bool

definition RESERVED_WORDS :: "(bytes \<times> token_type) list" where
  "RESERVED_WORDS = [([0x69, 0x66], T_If), ([0x74, 0x68, 0x65, 0x6E], T_Then), ([0x65, 0x6C, 0x73, 0x65], T_Else),
     ([0x65, 0x6C, 0x69, 0x66], T_Elif), ([0x66, 0x69], T_Fi), ([0x63, 0x61, 0x73, 0x65], T_Case), ([0x65, 0x73, 0x61, 0x63], T_Esac),
     ([0x66, 0x6F, 0x72], T_For), ([0x77, 0x68, 0x69, 0x6C, 0x65], T_While), ([0x75, 0x6E, 0x74, 0x69, 0x6C], T_Until),
     ([0x64, 0x6F], T_Do), ([0x64, 0x6F, 0x6E, 0x65], T_Done), ([0x69, 0x6E], T_In), ([0x21], T_Bang),
     ([0x66, 0x75, 0x6E, 0x63, 0x74, 0x69, 0x6F, 0x6E], T_Function)]"

definition check_reserved_word :: "bytes \<Rightarrow> token_type option" where
  "check_reserved_word text = map_option snd (find (\<lambda>(word, _). word = text) RESERVED_WORDS)"

definition is_alphabetic :: "u8 \<Rightarrow> bool" where
  "is_alphabetic c = ((0x41 \<le> c \<and> c \<le> 0x5A) \<or> (0x61 \<le> c \<and> c \<le> 0x7A))"

definition is_alphanumeric :: "u8 \<Rightarrow> bool" where
  "is_alphanumeric c = (is_alphabetic c \<or> (0x30 \<le> c \<and> c \<le> 0x39))"

definition is_valid_var_name :: "bytes \<Rightarrow> bool" where
  "is_valid_var_name name = (case name of
     [] \<Rightarrow> False
   | first # chars \<Rightarrow> (is_alphabetic first \<or> first = 0x5F) \<and> (\<forall>c \<in> set chars. is_alphanumeric c \<or> c = 0x5F))"

section \<open>Scanning\<close>

definition current_byte :: "bytes \<Rightarrow> nat \<Rightarrow> u8" where
  "current_byte input pos = (if pos < length input then input ! pos else 0)"

definition is_eof :: "bytes \<Rightarrow> nat \<Rightarrow> bool" where
  "is_eof input pos = (length input \<le> pos)"

definition make_token :: "bytes \<Rightarrow> nat \<Rightarrow> nat \<Rightarrow> token_type \<Rightarrow> token" where
  "make_token input start pos typ = \<lparr>token_type = typ, tok_text = drop start (take pos input), tok_start = start, tok_end = pos,
     is_quoted = False, is_function_name = False\<rparr>"

text \<open>The loops that go on while the byte is of a kind.\<close>

function scan_while :: "(u8 \<Rightarrow> bool) \<Rightarrow> bytes \<Rightarrow> nat \<Rightarrow> nat" where
  "scan_while P input pos = (if \<not> is_eof input pos \<and> P (current_byte input pos) then scan_while P input (pos + 1) else pos)"
  by pat_completeness auto

termination scan_while
  by (relation "measure (\<lambda>(_, input, pos). length input - pos)") (auto simp: is_eof_def)

declare scan_while.simps [simp del]

definition skip_whitespace :: "bytes \<Rightarrow> nat \<Rightarrow> nat" where
  "skip_whitespace input pos = scan_while (\<lambda>c. c = 0x20 \<or> c = 0x09) input pos"

definition skip_comment :: "bytes \<Rightarrow> nat \<Rightarrow> nat" where
  "skip_comment input pos = scan_while (\<lambda>c. c \<noteq> 0x0A) input (pos + 1)"

text \<open>One step over a byte, or over a backslash and the byte behind it.\<close>

definition step_escaped :: "bytes \<Rightarrow> nat \<Rightarrow> nat" where
  "step_escaped input pos = (if current_byte input pos = 0x5C \<and> pos + 1 < length input then pos + 2 else pos + 1)"

function scan_quoted :: "u8 \<Rightarrow> bytes \<Rightarrow> nat \<Rightarrow> nat" where
  "scan_quoted quote_char input pos =
     (if \<not> is_eof input pos \<and> current_byte input pos \<noteq> quote_char then scan_quoted quote_char input (step_escaped input pos) else pos)"
  by pat_completeness auto

termination scan_quoted
  by (relation "measure (\<lambda>(_, input, pos). length input - pos)") (auto simp: is_eof_def step_escaped_def)

declare scan_quoted.simps [simp del]

text \<open>Behind the closing quote, or at the end of the input.\<close>

definition after_quoted :: "u8 \<Rightarrow> bytes \<Rightarrow> nat \<Rightarrow> nat" where
  "after_quoted quote_char input pos = (let p = scan_quoted quote_char input pos in if is_eof input p then p else p + 1)"

definition parse_quoted_string :: "u8 \<Rightarrow> bytes \<Rightarrow> nat \<Rightarrow> nat" where
  "parse_quoted_string quote_char input pos = (let p = scan_quoted quote_char input pos in
     if \<not> is_eof input p \<and> current_byte input p = quote_char then p + 1 else p)"

text \<open>The depth of a command substitution in backquotes is one until the closing backquote.\<close>

definition parse_command_substitution :: "bytes \<Rightarrow> nat \<Rightarrow> nat" where
  "parse_command_substitution input pos = after_quoted 0x60 input (pos + 1)"

partial_function (option) scan_nested :: "u8 \<Rightarrow> u8 \<Rightarrow> bytes \<Rightarrow> nat \<Rightarrow> int \<Rightarrow> nat option" where
  "scan_nested lft rgt input pos depth =
     (if \<not> is_eof input pos \<and> depth > 0 then
        if current_byte input pos = lft then (if depth + 1 < 2 ^ 31 then scan_nested lft rgt input pos (depth + 1) else None)
        else if current_byte input pos = rgt then scan_nested lft rgt input pos (depth - 1)
        else scan_nested lft rgt input (step_escaped input pos) depth
      else Some pos)"

definition parse_dollar :: "bytes \<Rightarrow> nat \<Rightarrow> nat option" where
  "parse_dollar input pos = (let p = pos + 1; c = current_byte input p; next = (\<lambda>q. if is_eof input q then q else q + 1);
       name = scan_while (\<lambda>c. is_alphanumeric c \<or> c = 0x5F) input
     in if is_eof input p then Some p
        else if c = 0x27 \<or> c = 0x22 then Some (after_quoted c input (p + 1))
        else if c = 0x28 then map_option next (scan_nested 0x28 0x29 input (p + 1) 1)
        else if c = 0x7B then map_option next (scan_nested 0x7B 0x7D input (p + 1) 1)
        else if c \<in> {0x40, 0x2A, 0x23, 0x3F, 0x2D, 0x24, 0x21} \<or> (0x30 \<le> c \<and> c \<le> 0x39) then Some (name (p + 1))
        else if is_alphabetic c \<or> c = 0x5F then Some (name (p + 1))
        else Some p)"

text \<open>The bytes that end a word.\<close>

definition word_end :: "u8 \<Rightarrow> bool" where
  "word_end c = (c \<in> {0x20, 0x09, 0x0A, 0x0D, 0x3B, 0x26, 0x7C, 0x3C, 0x3E, 0x28, 0x29, 0x7B, 0x7D, 0x27, 0x22, 0x60})"

function parse_word :: "bytes \<Rightarrow> nat \<Rightarrow> nat" where
  "parse_word input pos =
     (if is_eof input pos \<or> word_end (current_byte input pos) then pos
      else if current_byte input pos = 0x5C \<and> pos + 1 < length input \<and> input ! (pos + 1) = 0x0A then parse_word input (pos + 2)
      else parse_word input (pos + 1))"
  by pat_completeness auto

termination parse_word
  by (relation "measure (\<lambda>(input, pos). length input - pos)") (auto simp: is_eof_def)

declare parse_word.simps [simp del]

section \<open>The tokenizer\<close>

definition classify :: "bytes \<Rightarrow> token_type" where
  "classify text = (case check_reserved_word text of
     Some t \<Rightarrow> t
   | None \<Rightarrow> if 0x3D \<in> set text \<and> is_valid_var_name (takeWhile (\<lambda>c. c \<noteq> 0x3D) text) then T_Assignment else T_Word)"

text \<open>
  An operator that may have a second byte: the token is made before the second byte is consumed, so that
  its text and its end do not include it.
\<close>

definition operator :: "bytes \<Rightarrow> nat \<Rightarrow> (u8 \<times> token_type) list \<Rightarrow> token_type \<Rightarrow> nat \<times> token list" where
  "operator input pos seconds single = (case map_of seconds (current_byte input (pos + 1)) of
     Some t \<Rightarrow> (pos + 2, [make_token input pos (pos + 1) t])
   | None \<Rightarrow> (pos + 1, [make_token input pos (pos + 1) single]))"

definition less_than :: "bytes \<Rightarrow> nat \<Rightarrow> nat \<times> token list" where
  "less_than input pos = (let p = pos + 1 in
     if current_byte input p = 0x3C then
       let p1 = p + 1;
           p2 = (if current_byte input p1 = 0x3C then p1 + 1 else p1);
           p3 = (if current_byte input p2 = 0x2D then p2 + 1 else p2)
       in (p3, [make_token input pos p3 T_HereDoc])
     else if current_byte input p = 0x26 then (p + 1, [make_token input pos (p + 1) T_DupIn])
     else (p, [make_token input pos p T_RedirectIn]))"

text \<open>One round of the main loop at a byte that is not white space: the new position and the tokens it adds.\<close>

definition token_step :: "bytes \<Rightarrow> nat \<Rightarrow> bool \<Rightarrow> (nat \<times> token list) option" where
  "token_step input pos no_tokens = (let c = current_byte input pos; single = (\<lambda>t. Some (pos + 1, [make_token input pos (pos + 1) t])) in
     if c = 0x0A then Some (pos + 1, if no_tokens then [] else [make_token input pos (pos + 1) T_Newline])
     else if c = 0x23 then Some (skip_comment input pos, [])
     else if c = 0x5C then Some (if is_eof input (pos + 1) then pos + 1 else pos + 2, [])
     else if c = 0x27 \<or> c = 0x22 then Some (parse_quoted_string c input (pos + 1), [])
     else if c = 0x60 then Some (parse_command_substitution input pos, [])
     else if c = 0x7C then Some (operator input pos [(0x7C, T_Or), (0x26, T_RedirectErrOut)] T_Pipe)
     else if c = 0x26 then Some (operator input pos [(0x26, T_And), (0x3E, T_RedirectErrOut), (0x3C, T_DupIn)] T_Ampersand)
     else if c = 0x3B then
       let p = (if current_byte input (pos + 1) = 0x3B then pos + 2 else pos + 1) in Some (p, [make_token input pos p T_Semicolon])
     else if c = 0x3C then Some (less_than input pos)
     else if c = 0x3E then Some (operator input pos [(0x3E, T_Append), (0x7C, T_Clobber), (0x26, T_DupOut)] T_RedirectOut)
     else if c = 0x28 then single T_LParen
     else if c = 0x29 then single T_RParen
     else if c = 0x7B then single T_LBrace
     else if c = 0x7D then single T_RBrace
     else if c = 0x24 then map_option (\<lambda>p. (p, [])) (parse_dollar input pos)
     else let p = parse_word input pos in Some (p, [make_token input pos p (classify (drop pos (take p input)))]))"

partial_function (option) tokenize_from :: "bytes \<Rightarrow> nat \<Rightarrow> token list \<Rightarrow> token list option" where
  "tokenize_from input pos tokens =
     (let p = skip_whitespace input pos in
      if is_eof input p then Some (tokens @ [make_token input p p T_Eof])
      else case token_step input p (tokens = []) of
        None \<Rightarrow> None
      | Some (p', ts) \<Rightarrow> tokenize_from input p' (tokens @ ts))"

definition tokenize :: "bytes \<Rightarrow> token list option" where
  "tokenize input = tokenize_from input 0 []"

section \<open>Lines of words\<close>

definition plain :: "u8 \<Rightarrow> bool" where
  "plain c = (\<not> word_end c \<and> c \<noteq> 0x5C)"

definition word_ok :: "bytes \<Rightarrow> bool" where
  "word_ok w = (w \<noteq> [] \<and> (\<forall>c \<in> set w. plain c) \<and> hd w \<noteq> 0x23 \<and> hd w \<noteq> 0x24)"

fun unwords :: "bytes list \<Rightarrow> bytes" where
  "unwords [] = []"
| "unwords [w] = w"
| "unwords (w # ws) = w @ 0x20 # unwords ws"

lemma current_at [simp]: "current_byte (pre @ c # rest) (length pre) = c" "\<not> is_eof (pre @ c # rest) (length pre)"
  by (simp_all add: current_byte_def is_eof_def)

lemma skip_nothing: "is_eof input pos \<or> current_byte input pos \<noteq> 0x20 \<and> current_byte input pos \<noteq> 0x09 \<Longrightarrow> skip_whitespace input pos = pos"
  unfolding skip_whitespace_def by (subst scan_while.simps) auto

lemma skip_space: "current_byte input pos = 0x20 \<Longrightarrow> \<not> is_eof input pos \<Longrightarrow> tokenize_from input pos ts = tokenize_from input (pos + 1) ts"
proof -
  assume "current_byte input pos = 0x20" "\<not> is_eof input pos"
  then have "skip_whitespace input pos = skip_whitespace input (pos + 1)"
    unfolding skip_whitespace_def by (subst scan_while.simps) simp
  then show ?thesis by (subst (1 2) tokenize_from.simps) simp
qed

lemma parse_word_plain:
  assumes "\<forall>c \<in> set w. plain c" "rest = [] \<or> word_end (hd rest)"
  shows "parse_word (pre @ w @ rest) (length pre) = length pre + length w"
  using assms(1)
proof (induction w arbitrary: pre)
  case Nil
  then show ?case using assms(2) by (subst parse_word.simps) (cases rest, auto simp: is_eof_def)
next
  case (Cons c w)
  have "parse_word (pre @ (c # w) @ rest) (length pre) = parse_word ((pre @ [c]) @ w @ rest) (length (pre @ [c]))"
    using Cons.prems by (subst parse_word.simps) (simp add: plain_def)
  then show ?case using Cons.IH [of "pre @ [c]"] Cons.prems by simp
qed

text \<open>A word adds one token.\<close>

lemma token_step_word:
  assumes "word_ok w" "rest = [] \<or> word_end (hd rest)"
  shows "\<exists>t. token_step (pre @ w @ rest) (length pre) b = Some (length pre + length w, [t]) \<and> token_type t = classify w \<and> tok_text t = w"
proof -
  obtain c v where w: "w = c # v" using assms(1) by (cases w) (auto simp: word_ok_def)
  then have c: "\<not> word_end c" "c \<noteq> 0x5C" "c \<noteq> 0x23" "c \<noteq> 0x24" using assms(1) by (auto simp: word_ok_def plain_def)
  have p: "parse_word (pre @ c # v @ rest) (length pre) = length pre + length w"
    using parse_word_plain [of w rest pre] assms w by (simp add: word_ok_def)
  have "drop (length pre) (take (length pre + length w) (pre @ c # v @ rest)) = w" by (simp add: w)
  then show ?thesis
    using c p by (simp add: token_step_def w word_end_def Let_def make_token_def)
qed

lemma tokenize_word:
  assumes "word_ok w" "rest = [] \<or> word_end (hd rest)"
  shows "\<exists>t. tokenize_from (pre @ w @ rest) (length pre) ts = tokenize_from (pre @ w @ rest) (length pre + length w) (ts @ [t]) \<and>
    token_type t = classify w \<and> tok_text t = w"
proof -
  obtain c v where w: "w = c # v" using assms(1) by (cases w) (auto simp: word_ok_def)
  then have c: "c \<noteq> 0x20" "c \<noteq> 0x09" using assms(1) by (auto simp: word_ok_def plain_def word_end_def)
  then have "skip_whitespace (pre @ w @ rest) (length pre) = length pre" by (intro skip_nothing) (simp add: w)
  moreover have "\<not> is_eof (pre @ w @ rest) (length pre)" by (simp add: w)
  ultimately show ?thesis
    using token_step_word [OF assms, of pre "ts = []"] by (subst tokenize_from.simps) auto
qed

lemma tokenize_words_from:
  assumes "\<forall>w \<in> set ws. word_ok w"
  shows "\<exists>ts. tokenize_from (pre @ unwords ws) (length pre) acc = Some (acc @ ts) \<and>
    map (\<lambda>t. (token_type t, tok_text t)) ts = map (\<lambda>w. (classify w, w)) ws @ [(T_Eof, [])]"
  using assms
proof (induction ws arbitrary: pre acc rule: unwords.induct)
  case 1
  have "is_eof pre (length pre)" by (simp add: is_eof_def)
  then show ?case by (subst tokenize_from.simps) (simp add: skip_nothing make_token_def Let_def)
next
  case (2 w)
  have "is_eof (pre @ w) (length pre + length w)" by (simp add: is_eof_def)
  moreover obtain t where t: "tokenize_from (pre @ w) (length pre) acc = tokenize_from (pre @ w) (length pre + length w) (acc @ [t])"
    "token_type t = classify w" "tok_text t = w"
    using tokenize_word [of w "[]" pre acc] 2 by auto
  ultimately have "tokenize_from (pre @ w) (length pre + length w) (acc @ [t]) =
      Some (acc @ [t, make_token (pre @ w) (length pre + length w) (length pre + length w) T_Eof])"
    by (subst tokenize_from.simps) (simp add: skip_nothing Let_def)
  then show ?case using t by (simp add: make_token_def)
next
  case (3 w v ws)
  let ?rest = "0x20 # unwords (v # ws)"
  let ?pre = "pre @ w @ [0x20]"
  obtain t where t: "tokenize_from (pre @ w @ ?rest) (length pre) acc = tokenize_from (pre @ w @ ?rest) (length pre + length w) (acc @ [t])"
    "token_type t = classify w" "tok_text t = w"
    using tokenize_word [of w ?rest pre acc] 3(2) by (auto simp: word_end_def)
  have "tokenize_from (pre @ w @ ?rest) (length pre + length w) (acc @ [t]) = tokenize_from (?pre @ unwords (v # ws)) (length ?pre) (acc @ [t])"
    using skip_space [of "pre @ w @ ?rest" "length (pre @ w)" "acc @ [t]"] current_at [of "pre @ w" "0x20" "unwords (v # ws)"] by simp
  moreover obtain ts where "tokenize_from (?pre @ unwords (v # ws)) (length ?pre) (acc @ [t]) = Some ((acc @ [t]) @ ts)"
    "map (\<lambda>t. (token_type t, tok_text t)) ts = map (\<lambda>w. (classify w, w)) (v # ws) @ [(T_Eof, [])]"
    using 3(1) [of ?pre "acc @ [t]"] 3(2) by auto
  ultimately show ?case using t by (intro exI [of _ "t # ts"]) simp
qed

text \<open>
  C16.  The tokenizer splits a line of words separated by blanks into exactly these words, each with its
  kind (a reserved word, an assignment or a word), and ends with the end token.
\<close>

theorem tokenize_words:
  assumes "\<forall>w \<in> set ws. word_ok w"
  shows "\<exists>ts. tokenize (unwords ws) = Some ts \<and>
    map (\<lambda>t. (token_type t, tok_text t)) ts = map (\<lambda>w. (classify w, w)) ws @ [(T_Eof, [])]"
  using tokenize_words_from [OF assms, of "[]" "[]"] by (simp add: tokenize_def)

theorem tokenize_words_witness:
  "\<exists>ts. tokenize [0x69, 0x66, 0x20, 0x78, 0x3D, 0x31] = Some ts \<and>
    map (\<lambda>t. (token_type t, tok_text t)) ts = [(T_If, [0x69, 0x66]), (T_Assignment, [0x78, 0x3D, 0x31]), (T_Eof, [])]"
  using tokenize_words [of "[[0x69, 0x66], [0x78, 0x3D, 0x31]]"]
  by (simp add: word_ok_def plain_def word_end_def classify_def check_reserved_word_def RESERVED_WORDS_def is_valid_var_name_def
    is_alphabetic_def)

section \<open>Inputs without a result\<close>

lemma carriage_return_step:
  assumes "current_byte input pos = 0x0D" "\<not> is_eof input pos"
  shows "\<exists>t. token_step input pos b = Some (pos, [t])"
proof -
  have "parse_word input pos = pos" using assms by (subst parse_word.simps) (simp add: word_end_def)
  then show ?thesis using assms(1) by (simp add: token_step_def Let_def)
qed

lemma carriage_return_loops:
  assumes "current_byte input pos = 0x0D" "\<not> is_eof input pos"
  shows "tokenize_from input pos ts = None"
proof -
  have "current_byte input pos = 0x0D \<longrightarrow> is_eof input pos" if "tokenize_from input pos ts = Some r" for r
  proof (rule tokenize_from.raw_induct [OF _ that, of "\<lambda>input pos ts r. current_byte input pos = 0x0D \<longrightarrow> is_eof input pos"], intro impI)
    fix f input pos ts r
    assume IH: "\<And>input pos ts r. f input pos ts = Some r \<Longrightarrow> current_byte input pos = 0x0D \<longrightarrow> is_eof input pos"
      and body: "(let p = skip_whitespace input pos in if is_eof input p then Some (ts @ [make_token input p p T_Eof])
        else case token_step input p (ts = []) of None \<Rightarrow> None | Some (p', ts') \<Rightarrow> f input p' (ts @ ts')) = Some r"
      and c: "current_byte input pos = 0x0D"
    show "is_eof input pos"
    proof (rule ccontr)
      assume e: "\<not> is_eof input pos"
      obtain t where "token_step input pos (ts = []) = Some (pos, [t])" using carriage_return_step [OF c e] by blast
      then have "f input pos (ts @ [t]) = Some r" using body c e by (simp add: skip_nothing)
      from IH [OF this] c e show False by simp
    qed
  qed
  then show ?thesis using assms by (cases "tokenize_from input pos ts") auto
qed

lemma nested_loops:
  assumes "current_byte input pos = lft" "\<not> is_eof input pos" "0 < depth"
  shows "scan_nested lft rgt input pos depth = None"
proof -
  have "current_byte input pos = lft \<longrightarrow> 0 < depth \<longrightarrow> is_eof input pos" if "scan_nested lft rgt input pos depth = Some r" for r
  proof (rule scan_nested.raw_induct [OF _ that, of "\<lambda>lft rgt input pos depth r. current_byte input pos = lft \<longrightarrow> 0 < depth \<longrightarrow> is_eof input pos"], intro impI, goal_cases)
    case (1 f lft rgt input pos depth r)
    then show ?case by (cases "is_eof input pos") (auto split: if_splits)
  qed
  then show ?thesis using assms by (cases "scan_nested lft rgt input pos depth") auto
qed

text \<open>
  C40.  The tokenizer does not return for a word that is followed by a carriage return, whatever comes
  after it: it adds an empty word again and again without moving on.  Nor does it return for a
  parenthesis directly inside a command substitution or an arithmetic expansion.
\<close>

theorem tokenize_stuck:
  assumes "word_ok w"
  shows "tokenize (w @ 0x0D # rest) = None \<and> tokenize (0x24 # 0x28 # 0x28 # rest) = None"
proof
  obtain t where "tokenize_from ([] @ w @ 0x0D # rest) (length []) [] = tokenize_from ([] @ w @ 0x0D # rest) (length [] + length w) ([] @ [t])"
    using tokenize_word [OF assms, of "0x0D # rest" "[]" "[]"] by (auto simp: word_end_def)
  then show "tokenize (w @ 0x0D # rest) = None"
    using carriage_return_loops [of "w @ 0x0D # rest" "length w" "[t]"] by (simp add: tokenize_def)
next
  let ?i = "0x24 # 0x28 # 0x28 # rest"
  have "scan_nested 0x28 0x29 ?i (Suc (Suc 0)) 1 = None"
    by (rule nested_loops) (simp_all add: current_byte_def is_eof_def)
  then have "token_step ?i 0 True = None"
    by (simp add: token_step_def parse_dollar_def Let_def current_byte_def is_eof_def)
  moreover have "skip_whitespace ?i 0 = 0" "\<not> is_eof ?i 0" by (simp_all add: skip_nothing current_byte_def is_eof_def)
  ultimately show "tokenize ?i = None" unfolding tokenize_def by (subst tokenize_from.simps) (simp add: Let_def)
qed

theorem tokenize_stuck_witness: "tokenize [0x6C, 0x73, 0x0D, 0x0A] = None"
  using tokenize_stuck [of "[0x6C, 0x73]" "[0x0A]"] by (simp add: word_ok_def plain_def word_end_def)

end
