(* ===== verification/Spec2Isabelle.thy ===== *)
theory Spec2Isabelle
  imports Ext2_Init Ipc Frame_Alloc Vt_Terminal Shell_Tokens
begin

text \<open>
  \<^bold>\<open>Verification of the devine kernel.\<close>

  The repository holds a small kernel in C (\<^verbatim>\<open>src/\<close>, files ending in \<^verbatim>\<open>.c\<close>) and parts of a second one in
  Rust (files ending in \<^verbatim>\<open>.rs\<close>).  Files, directories and paths go through the virtual file system
  (\<^verbatim>\<open>src/vfs\<close>), which calls an ext2 file system (\<^verbatim>\<open>src/fs/ext2\<close>) through tables of operations; ext2 reads
  and writes blocks through a cache (\<^verbatim>\<open>src/fs/block_cache.c\<close>) on a block device, which an adapter
  (\<^verbatim>\<open>src/fs/block_device_wrapper.c\<close>) makes of a driver in the device registry.  Beside it there are the
  memory manager, the scheduler, inter-process communication and the security framework.  From the Rust
  part the frame allocator, the terminal emulator and the tokenizer of the shell are modelled.

  \<^bold>\<open>Theories.\<close>

  \<^item> \<open>Prelude\<close>: integer types, error codes (\<^verbatim>\<open>include/types.h\<close>), byte buffers, little-endian fields,
    and programs \<open>('s, 'a) prog\<close> with the outcomes value, error code and undefined behaviour, with their
    total (\<open>wp\<close>) and partial (\<open>wlp\<close>) correctness rules.
  \<^item> \<open>Kernel_Utils\<close>: \<^verbatim>\<open>lib_core/utils.c\<close>, memory and string functions, the tokenizer \<^verbatim>\<open>strtok\<close> and the
    heap, whose blocks are disjoint.
  \<^item> \<open>Block_Device\<close>: the RAM disk, the device registry and the adapter; the locale \<open>block_dev\<close> is the
    contract of a block device, which the RAM disk interprets as \<open>ram\<close>.
  \<^item> \<open>Block_Cache\<close>, \<open>Cache_Contract\<close>, \<open>Cache_History\<close>: the cache with its LRU list; in the locale every
    operation refines an array of blocks, and histories of operations are durable after a flush.
  \<^item> \<open>Ext2_Format\<close>, \<open>Ext2_Super\<close>, \<open>Ext2_Alloc\<close>, \<open>Ext2_Inode\<close>, \<open>Ext2_Map\<close>, \<open>Ext2_File\<close>, \<open>Ext2_Dir\<close>: the on-disk
    structures with their codecs (\<^verbatim>\<open>include/ext2.h\<close>), mounting and syncing (\<^verbatim>\<open>superblock.c\<close>, \<^verbatim>\<open>ext2.c\<close>), the
    allocators (\<^verbatim>\<open>alloc.c\<close>), inodes and the block map (\<^verbatim>\<open>inode.c\<close>), file contents (\<^verbatim>\<open>file.c\<close>) and directories
    (\<^verbatim>\<open>dir.c\<close>).  The invariant \<open>ext2_ok\<close> relates the mounted structures to the blocks of the device; the
    operations are compared with the set of used blocks, with a reference block map, with the bytes of a
    file and with lists of directory entries.
  \<^item> \<open>Vfs\<close>: \<^verbatim>\<open>vfs/vfs.c\<close>, nodes in a store with their links.  The nodes form a tree (\<open>tree\<close>), lookup is a
    walk in it (\<open>resolve\<close>), and the locale \<open>node_ops\<close> is what the callbacks of a node have to keep.
  \<^item> \<open>Ext2_Vfs\<close>: \<^verbatim>\<open>ext2/vfs_integration.c\<close>; the callbacks of ext2 interpret \<open>node_ops\<close>, and the states that
    calls of the virtual file system reach are well formed.
  \<^item> \<open>Ext2_Init\<close>: \<^verbatim>\<open>fs/ext2_init.c\<close>, from the registry to the mounted file system.
  \<^item> \<open>Security\<close>, \<open>Scheduler\<close>, \<open>Memory\<close>, \<open>Ipc\<close>: \<^verbatim>\<open>security/security.c\<close>, \<^verbatim>\<open>cpu/scheduler.c\<close>, \<^verbatim>\<open>mm/mm.c\<close> and
    \<^verbatim>\<open>ipc/ipc.c\<close>.  The ready queue refines a list, page tables live in byte memory and translate what was
    mapped, and messages are received as they were sent while only one waits.
  \<^item> \<open>Frame_Alloc\<close>: \<^verbatim>\<open>memory/frame_allocator.rs\<close>, a bitmap that refines a set of free frames.
  \<^item> \<open>Vt_Parser\<close>, \<open>Vt_Screen\<close>, \<open>Vt_Terminal\<close>: \<^verbatim>\<open>lib_core/vt\<close>, the state machine for control sequences, the
    screen and the terminal; the last gives the exact conditions of a panic.
  \<^item> \<open>Shell_Tokens\<close>: \<^verbatim>\<open>userspace/shell/tokenizer.rs\<close>.
  \<^item> This theory: the property that spans the registry, the adapter, the cache, ext2 and the virtual file
    system.

  \<^bold>\<open>Conventions.\<close>  A structure is a record, a list through pointers is a store with addresses or, where no
  alias is taken, a list.  Integers are words of their width; return codes (the type \<open>i32\<close> of the
  prelude) are integers.  A negative return code is the outcome \<open>Err\<close>, an access outside of an object
  \<open>UB\<close>; a Rust panic is a missing result.  Local buffers that C leaves uninitialised are arguments
  (\<open>stk\<close>, \<open>ps\<close>), so that the theorems hold for every content.  Messages to the console are left out, and
  there is one mounted file system.

  \<^bold>\<open>Loops and bounds.\<close>  A loop over the elements of an object is structural recursion or has a measure.  Loops
  over linked structures and the main loop of the tokenizer are partial functions; where the property is
  that they return, it is proved for the tree of nodes or the queue, and where they do not, that they have
  no result.  No fuel is used.  The heap of the C kernel has 1 MB, as in the source; theorems about
  operations that allocate either have the error case or a hypothesis that the heap has room (\<open>fits\<close>).
  Block numbers are bounded by the size of the device, screens by \<open>2 ^ 63\<close> cells.

  \<^bold>\<open>Not modelled.\<close>  Boot code, descriptor tables, interrupt entry, the console, the buses and the serial, virtio
  and network drivers are assembly or accesses to device registers.  The debugger and the profiler read
  processor registers.  The TTY layer moves bytes between these drivers; the line discipline in Rust does
  not compile, since it defines constants twice.  The heap, paging, processes, system calls and security
  of the Rust part are second implementations behind raw pointers or assembly; the spin lock and the SMP
  scheduler need a model of concurrent memory accesses.  User space programs, demonstrations, tests and
  the image builder run on top of system calls or on the host.
\<close>

section \<open>From the device registry to the mounted file system\<close>

text \<open>
  C21.  When the device registered as \<^verbatim>\<open>ramdisk\<close>, if there is one, has the operations table of the RAM
  disk, \<^verbatim>\<open>ext2_init\<close> returns without undefined behaviour but never mounts a file system, whatever
  the disk holds: the adapter rejects the first read of the cache.  Nodes, descriptors and the root
  of the virtual file system stay as they are.
\<close>

theorem ext2_init_never_mounts:
  assumes "device_find_from (devices (e_reg s)) ramdisk_name = Some found"
    and "\<forall>dev. found = Some dev \<longrightarrow> dev_ops dev = Some ramdisk_ops" and "\<not> ext2_get_instance s"
  shows "wp (ext2_init stk ops) (\<lambda>_ s'. \<not> ext2_get_instance s' \<and> ext2_get_vfs_root s' = ext2_get_vfs_root s \<and>
    (\<exists>k. e_vfs s' = (e_vfs s)\<lparr>v_k := k\<rparr>)) (\<lambda>_ _. False) s"
proof (cases found)
  case None
  then have "\<exists>k. e_vfs s = (e_vfs s)\<lparr>v_k := k\<rparr>" by (intro exI [of _ "v_k (e_vfs s)"]) simp
  with None assms(1,3) show ?thesis by (simp add: ext2_init_def wp_simps wp_sys_find)
next
  case (Some dev)
  then have dev: "dev_ops dev = Some ramdisk_ops" using assms(2) by simp
  have "\<exists>k'. e_vfs s\<lparr>v_k := k\<rparr> = e_vfs s\<lparr>v_k := k'\<rparr>" for k by blast
  with Some assms(1,3) show ?thesis
    by (auto simp: ext2_init_def wp_simps wp_sys_find ext2_get_instance_def ext2_get_vfs_root_def
      intro!: make_device_rule make_cache_rule [OF dev] mount_rule destroy_rule)
qed

definition demo_sys :: "ramdisk option device option vfs \<Rightarrow> ext2_sys" where
  "demo_sys v = \<lparr>e_vfs = v, e_reg = \<lparr>devices = [\<lparr>dev_name = ramdisk_name, dev_major = 1, dev_minor = 0, dev_type = DEVICE_BLOCK,
     dev_size = 0, dev_data = None, dev_ops = Some ramdisk_ops\<rparr>], next_major = 2, g_ramdisk = None, reg_heap = 0\<rparr>,
     e_fs = False, e_cache = False, e_device = False\<rparr>"

theorem ext2_init_never_mounts_witness:
  "\<forall>v. wp (ext2_init (replicate 1024 0) 64) (\<lambda>_ s'. \<not> ext2_get_instance s') (\<lambda>_ _. False) (demo_sys v)"
proof
  fix v
  let ?dev = "\<lparr>dev_name = ramdisk_name, dev_major = 1, dev_minor = 0, dev_type = DEVICE_BLOCK,
     dev_size = 0, dev_data = None, dev_ops = Some ramdisk_ops\<rparr>"
  have "strcmp ramdisk_name ramdisk_name = Some 0" by (simp add: ramdisk_name_def)
  then have "device_find_from (devices (e_reg (demo_sys v))) ramdisk_name = Some (Some ?dev)" by (simp add: demo_sys_def)
  from ext2_init_never_mounts [OF this] show "wp (ext2_init (replicate 1024 0) 64) (\<lambda>_ s'. \<not> ext2_get_instance s') (\<lambda>_ _. False) (demo_sys v)"
    by (rule wp_conseq) (simp_all add: ext2_get_instance_def demo_sys_def)
qed

end
